(* ===== verification/Ruscker_Prelude.thy ===== *)
theory Ruscker_Prelude
  imports Main "HOL-Library.Word" "HOL-Library.AList" "HOL-Library.Sublist"
begin

text \<open>
  Shared vocabulary of the development.

  Machine integers are words of the width the code uses. Hash tables that the code only looks up
  are maps; tables that the code walks are association lists with distinct keys, whose order
  stands for the (unspecified) order in which the hash table happens to be iterated, so that a
  theorem about every such list is a theorem about every iteration order.
  Instants and timestamps are integers; each theory says in which unit.
\<close>

section \<open>Types\<close>

type_synonym u8 = "8 word"
type_synonym u16 = "16 word"
type_synonym u32 = "32 word"
type_synonym u64 = "64 word"

named_theorems sat_simps "saturating arithmetic read as natural numbers"
named_theorems table_simps "look-ups in maps and tables after an update"

section \<open>Saturating arithmetic\<close>

definition sat_add :: "'a::len word \<Rightarrow> 'a word \<Rightarrow> 'a word" where
  "sat_add a b = (if unat a + unat b < 2 ^ LENGTH('a) then a + b else - 1)"

definition sat_sub :: "'a::len word \<Rightarrow> 'a word \<Rightarrow> 'a word" where
  "sat_sub a b = (if b \<le> a then a - b else 0)"

lemma unat_minus_one_word_aux: "unat (- 1 :: 'a::len word) = 2 ^ LENGTH('a) - 1"
  by (simp add: unsigned_minus_1_eq_mask mask_eq_exp_minus_1)

lemma unat_sat_add [sat_simps]:
  "unat (sat_add a b) = min (unat a + unat b) (2 ^ LENGTH('a) - 1)" for a b :: "'a::len word"
proof (cases "unat a + unat b < 2 ^ LENGTH('a)")
  case True
  then show ?thesis by (simp add: sat_add_def unat_word_ariths)
next
  case False
  then show ?thesis by (simp add: sat_add_def unat_minus_one_word_aux)
qed

lemma unat_sat_sub [sat_simps]: "unat (sat_sub a b) = unat a - unat b"
  by (simp add: sat_sub_def unat_sub word_le_nat_alt)

lemma sat_sub_0_iff: "sat_sub a b = 0 \<longleftrightarrow> a \<le> b"
  by (metis diff_is_0_eq unat_0 unat_eq_zero unat_sat_sub word_le_nat_alt)

lemma sat_sub_add1:
  "unat a < 2 ^ LENGTH('a) - 1 \<Longrightarrow> sat_sub (sat_add a 1) 1 = a" for a :: "'a::len word"
  by (rule word_unat_eq_iff [THEN iffD2]) (simp add: sat_simps)

section \<open>Choosing from a list by key\<close>

text \<open>
  \<open>Iterator::min_by_key\<close> returns the first of several minimal elements and
  \<open>Iterator::max_by_key\<close> the last of several maximal ones; both return nothing on an empty
  iterator.
\<close>

fun min_by_key :: "('a \<Rightarrow> 'k::linorder) \<Rightarrow> 'a list \<Rightarrow> 'a option" where
  "min_by_key f [] = None"
| "min_by_key f (x # xs) =
     Some (foldl (\<lambda>best y. if f y < f best then y else best) x xs)"

fun max_by_key :: "('a \<Rightarrow> 'k::linorder) \<Rightarrow> 'a list \<Rightarrow> 'a option" where
  "max_by_key f [] = None"
| "max_by_key f (x # xs) =
     Some (foldl (\<lambda>best y. if f best \<le> f y then y else best) x xs)"

lemma foldl_max_step:
  "let m = foldl (\<lambda>best y. if f best \<le> f y then y else best) x xs in
     m \<in> set (x # xs) \<and> (\<forall>y \<in> set (x # xs). f y \<le> (f m :: 'k::linorder))"
proof (induction xs arbitrary: x)
  case Nil
  then show ?case by simp
next
  case (Cons y ys)
  show ?case
    using Cons.IH [of y] Cons.IH [of x] by (fastforce simp: Let_def)
qed

lemma foldl_min_step:
  "let m = foldl (\<lambda>best y. if f y < f best then y else best) x xs in
     m \<in> set (x # xs) \<and> (\<forall>y \<in> set (x # xs). (f m :: 'k::linorder) \<le> f y)"
proof (induction xs arbitrary: x)
  case Nil
  then show ?case by simp
next
  case (Cons y ys)
  show ?case
    using Cons.IH [of y] Cons.IH [of x] by (fastforce simp: Let_def)
qed

lemma max_by_key_Some:
  assumes "max_by_key f xs = Some m"
  shows max_by_key_mem: "m \<in> set xs" and max_by_key_max: "y \<in> set xs \<Longrightarrow> f y \<le> f m"
  using assms foldl_max_step [of f] by (cases xs; force simp: Let_def)+

lemma min_by_key_Some:
  assumes "min_by_key f xs = Some m"
  shows min_by_key_mem: "m \<in> set xs" and min_by_key_min: "y \<in> set xs \<Longrightarrow> f m \<le> f y"
  using assms foldl_min_step [of f] by (cases xs; force simp: Let_def)+

lemma max_by_key_None_iff [simp]: "max_by_key f xs = None \<longleftrightarrow> xs = []"
  by (cases xs) simp_all

lemma min_by_key_None_iff [simp]: "min_by_key f xs = None \<longleftrightarrow> xs = []"
  by (cases xs) simp_all

text \<open>On a tie the last candidate wins, not the first.\<close>

lemma max_by_key_snoc:
  "max_by_key f (xs @ [y]) =
     Some (case max_by_key f xs of None \<Rightarrow> y | Some m \<Rightarrow> if f m \<le> f y then y else m)"
  by (cases xs) simp_all

section \<open>Maps and tables\<close>

definition map_retain :: "('k \<Rightarrow> 'v \<Rightarrow> bool) \<Rightarrow> ('k \<rightharpoonup> 'v) \<Rightarrow> ('k \<rightharpoonup> 'v)" where
  "map_retain P m =
     (\<lambda>k. case m k of None \<Rightarrow> None | Some v \<Rightarrow> if P k v then Some v else None)"

lemma map_retain_Some_iff [table_simps]:
  "map_retain P m k = Some v \<longleftrightarrow> m k = Some v \<and> P k v"
  by (auto simp: map_retain_def split: option.splits)

lemma map_retain_None_iff [table_simps]:
  "map_retain P m k = None \<longleftrightarrow> (\<forall>v. m k = Some v \<longrightarrow> \<not> P k v)"
  by (auto simp: map_retain_def split: option.splits)

text \<open>A table: the rows of a hash table in the order it is iterated.\<close>

type_synonym ('k, 'v) table = "('k \<times> 'v) list"

definition table_wf :: "('k, 'v) table \<Rightarrow> bool" where
  "table_wf t \<longleftrightarrow> distinct (map fst t)"

definition table_get :: "('k, 'v) table \<Rightarrow> 'k \<Rightarrow> 'v option" where
  "table_get t k = map_of t k"

definition table_put :: "'k \<Rightarrow> 'v \<Rightarrow> ('k, 'v) table \<Rightarrow> ('k, 'v) table" where
  "table_put k v t = AList.update k v t"

definition table_del :: "'k \<Rightarrow> ('k, 'v) table \<Rightarrow> ('k, 'v) table" where
  "table_del k t = filter (\<lambda>(k', _). k' \<noteq> k) t"

definition table_retain :: "('k \<Rightarrow> 'v \<Rightarrow> bool) \<Rightarrow> ('k, 'v) table \<Rightarrow> ('k, 'v) table" where
  "table_retain P t = filter (\<lambda>(k, v). P k v) t"

lemma table_get_Nil [simp]: "table_get [] k = None"
  by (simp add: table_get_def)

lemma table_get_put [table_simps, simp]:
  "table_get (table_put k v t) k' = (if k' = k then Some v else table_get t k')"
  by (simp add: table_get_def table_put_def update_conv')

lemma table_get_del [table_simps, simp]:
  "table_get (table_del k t) k' = (if k' = k then None else table_get t k')"
  by (induction t) (auto simp: table_get_def table_del_def)

lemma table_get_retain [table_simps]:
  "table_wf t \<Longrightarrow> table_get (table_retain P t) k =
     (case table_get t k of None \<Rightarrow> None | Some v \<Rightarrow> if P k v then Some v else None)"
  by (induction t)
    (auto simp: table_get_def table_retain_def table_wf_def map_of_eq_None_iff
       split: option.splits dest: map_of_SomeD)

lemma table_wf_Nil [simp]: "table_wf []"
  by (simp add: table_wf_def)

lemma table_wf_Cons [simp]: "table_wf ((k, v) # t) \<longleftrightarrow> k \<notin> fst ` set t \<and> table_wf t"
  by (simp add: table_wf_def)

lemma table_wf_put [simp, intro]: "table_wf t \<Longrightarrow> table_wf (table_put k v t)"
  by (simp add: table_wf_def table_put_def distinct_update)

lemma table_wf_del [simp, intro]: "table_wf t \<Longrightarrow> table_wf (table_del k t)"
  by (auto simp: table_wf_def table_del_def distinct_map_filter)

lemma table_wf_retain [simp, intro]: "table_wf t \<Longrightarrow> table_wf (table_retain P t)"
  by (auto simp: table_wf_def table_retain_def distinct_map_filter)

lemma table_get_mem: "table_wf t \<Longrightarrow> (k, v) \<in> set t \<longleftrightarrow> table_get t k = Some v"
  by (simp add: table_get_def table_wf_def)

text \<open>Sum of a measure over the rows: what an update adds and what a deletion takes away.\<close>

definition table_sum :: "('v \<Rightarrow> 'n::comm_monoid_add) \<Rightarrow> ('k, 'v) table \<Rightarrow> 'n" where
  "table_sum f t = sum_list (map (f \<circ> snd) t)"

lemma table_sum_put:
  "table_wf t \<Longrightarrow> table_sum f (table_put k v t) + (case table_get t k of None \<Rightarrow> 0 | Some u \<Rightarrow> f u)
     = table_sum f t + f v"
proof (induction t)
  case Nil
  then show ?case by (simp add: table_sum_def table_put_def table_get_def)
next
  case (Cons r t)
  obtain k' u where r: "r = (k', u)" by (cases r)
  show ?case
  proof (cases "k' = k")
    case True
    with r show ?thesis
      by (simp add: table_sum_def table_put_def table_get_def add_ac)
  next
    case False
    from Cons.prems have "table_wf t" by (simp add: table_wf_def)
    from Cons.IH [OF this] False r show ?thesis
      by (simp add: table_sum_def table_put_def table_get_def add_ac)
  qed
qed

lemma table_del_idle: "k \<notin> fst ` set t \<Longrightarrow> table_del k t = t"
  by (force simp: table_del_def intro!: filter_True)

lemma table_sum_del:
  "table_wf t \<Longrightarrow> table_sum f (table_del k t) + (case table_get t k of None \<Rightarrow> 0 | Some u \<Rightarrow> f u)
     = table_sum f t"
proof (induction t)
  case Nil
  then show ?case by (simp add: table_sum_def table_del_def table_get_def)
next
  case (Cons r t)
  obtain k' u where r: "r = (k', u)" by (cases r)
  from Cons.prems r have wf: "table_wf t" and n: "k' \<notin> fst ` set t" by (auto simp: table_wf_def)
  show ?case
  proof (cases "k' = k")
    case True
    with n have "table_del k t = t" by (simp add: table_del_idle)
    with True r show ?thesis by (simp add: table_sum_def table_del_def table_get_def add_ac)
  next
    case False
    from Cons.IH [OF wf] False r show ?thesis
      by (simp add: table_sum_def table_del_def table_get_def add_ac)
  qed
qed

lemma foldl_table_del:
  "foldl (\<lambda>t k. table_del k t) t ks = filter (\<lambda>(k, _). k \<notin> set ks) t"
  by (induction ks arbitrary: t) (auto simp: table_del_def intro!: filter_cong)

section \<open>Runs of guarded steps\<close>

text \<open>
  A component seen as a machine: a step per event, taken only when its guard holds. An invariant
  that every guarded step keeps holds after every guarded sequence of steps, in whatever order the
  tasks of the program interleave them.
\<close>

fun guarded :: "('s \<Rightarrow> 'e \<Rightarrow> bool) \<Rightarrow> ('e \<Rightarrow> 's \<Rightarrow> 's) \<Rightarrow> 's \<Rightarrow> 'e list \<Rightarrow> bool" where
  "guarded ok step s [] \<longleftrightarrow> True"
| "guarded ok step s (e # es) \<longleftrightarrow> ok s e \<and> guarded ok step (step e s) es"

fun run_steps :: "('e \<Rightarrow> 's \<Rightarrow> 's) \<Rightarrow> 's \<Rightarrow> 'e list \<Rightarrow> 's" where
  "run_steps step s [] = s"
| "run_steps step s (e # es) = run_steps step (step e s) es"

lemma run_steps_append: "run_steps step s (xs @ ys) = run_steps step (run_steps step s xs) ys"
  by (induction xs arbitrary: s) auto

lemma guarded_append:
  "guarded ok step s (xs @ ys) \<longleftrightarrow> guarded ok step s xs \<and> guarded ok step (run_steps step s xs) ys"
  by (induction xs arbitrary: s) auto

locale guarded_machine =
  fixes ok :: "'s \<Rightarrow> 'e \<Rightarrow> bool" and step :: "'e \<Rightarrow> 's \<Rightarrow> 's" and inv :: "'s \<Rightarrow> bool"
  assumes step_inv: "inv s \<Longrightarrow> ok s e \<Longrightarrow> inv (step e s)"
begin

lemma run_inv: "inv s \<Longrightarrow> guarded ok step s es \<Longrightarrow> inv (run_steps step s es)"
  by (induction es arbitrary: s) (auto intro: step_inv)

lemma run_inv_prefix: "inv s \<Longrightarrow> guarded ok step s (xs @ ys) \<Longrightarrow> inv (run_steps step s xs)"
  by (simp add: guarded_append run_inv)

end

section \<open>Looking a list up by predicate\<close>

lemma find_Some_mem: "List.find P xs = Some x \<Longrightarrow> x \<in> set xs \<and> P x"
  by (induction xs) (auto split: if_splits)

lemma find_None_iff': "List.find P xs = None \<longleftrightarrow> (\<forall>x \<in> set xs. \<not> P x)"
  by (induction xs) auto

section \<open>Sorted lists\<close>

lemma sorted_le_last: "sorted xs \<Longrightarrow> x \<in> set xs \<Longrightarrow> x \<le> (last xs :: 'a::linorder)"
  by (induction xs) auto

section \<open>Counting\<close>

definition count_if :: "('a \<Rightarrow> bool) \<Rightarrow> 'a list \<Rightarrow> nat" where
  "count_if P xs = length (filter P xs)"

lemma count_if_simps [simp]:
  "count_if P [] = 0"
  "count_if P (x # xs) = (if P x then 1 else 0) + count_if P xs"
  "count_if P (xs @ ys) = count_if P xs + count_if P ys"
  by (simp_all add: count_if_def)

lemma count_if_0_iff: "count_if P xs = 0 \<longleftrightarrow> (\<forall>x \<in> set xs. \<not> P x)"
  by (auto simp: count_if_def filter_empty_conv)

end
