(* ===== verification/Rust_Text.thy ===== *)
theory Rust_Text
  imports Ruscker_Prelude
begin

text \<open>
  The operations of Rust's \<open>str\<close> the code uses, on \<open>string\<close> (a list of bytes): a Rust string
  is its UTF-8 bytes. Case mapping and the whitespace test are the ASCII part of Rust's;
  the non-ASCII white space of Unicode (such as U+00A0), which \<open>str::trim\<close> also removes, is
  outside the model.
\<close>

section \<open>Characters\<close>

abbreviation byte :: "char \<Rightarrow> nat" where
  "byte c \<equiv> of_char c"

definition is_ws :: "char \<Rightarrow> bool" where
  "is_ws c \<longleftrightarrow> (9 \<le> byte c \<and> byte c \<le> 13) \<or> byte c = 32"

definition is_digit :: "char \<Rightarrow> bool" where
  "is_digit c \<longleftrightarrow> 48 \<le> byte c \<and> byte c \<le> 57"

definition is_lower :: "char \<Rightarrow> bool" where
  "is_lower c \<longleftrightarrow> 97 \<le> byte c \<and> byte c \<le> 122"

definition is_upper :: "char \<Rightarrow> bool" where
  "is_upper c \<longleftrightarrow> 65 \<le> byte c \<and> byte c \<le> 90"

definition is_alnum :: "char \<Rightarrow> bool" where
  "is_alnum c \<longleftrightarrow> is_digit c \<or> is_lower c \<or> is_upper c"

definition lower_char :: "char \<Rightarrow> char" where
  "lower_char c = (if is_upper c then char_of (byte c + 32) else c)"

definition lowercase :: "string \<Rightarrow> string" where
  "lowercase s = map lower_char s"

definition eq_ignore_ascii_case :: "string \<Rightarrow> string \<Rightarrow> bool" where
  "eq_ignore_ascii_case a b \<longleftrightarrow> lowercase a = lowercase b"

section \<open>Trimming\<close>

definition trim_start :: "string \<Rightarrow> string" where
  "trim_start s = dropWhile is_ws s"

definition trim_end :: "string \<Rightarrow> string" where
  "trim_end s = rev (dropWhile is_ws (rev s))"

definition trim :: "string \<Rightarrow> string" where
  "trim s = trim_end (trim_start s)"

definition trim_matches :: "(char \<Rightarrow> bool) \<Rightarrow> string \<Rightarrow> string" where
  "trim_matches P s = rev (dropWhile P (rev (dropWhile P s)))"

lemma trim_eq_trim_matches: "trim = trim_matches is_ws"
  by (simp add: fun_eq_iff trim_def trim_start_def trim_end_def trim_matches_def)

lemma hd_dropWhile': "dropWhile P xs \<noteq> [] \<Longrightarrow> \<not> P (hd (dropWhile P xs))"
  by (induction xs) auto

lemma dropWhile_end_hd:
  "xs \<noteq> [] \<Longrightarrow> \<not> P (hd xs) \<Longrightarrow> ys = rev (dropWhile P (rev xs)) \<Longrightarrow> ys \<noteq> [] \<and> hd ys = hd xs"
  by (cases xs) (auto simp: dropWhile_append split: if_splits)

lemma trim_matches_ends:
  assumes "t = trim_matches P s" and "t \<noteq> []"
  shows "\<not> P (hd t) \<and> \<not> P (last t)"
proof -
  let ?d = "dropWhile P s"
  have d: "?d \<noteq> []"
  proof
    assume "?d = []"
    with assms show False by (simp add: trim_matches_def)
  qed
  then have hd: "\<not> P (hd ?d)" by (rule hd_dropWhile')
  with d assms(1) have "hd t = hd ?d"
    by (metis dropWhile_end_hd trim_matches_def)
  moreover have "dropWhile P (rev ?d) \<noteq> []"
    using assms unfolding trim_matches_def by (metis rev.simps(1))
  then have "\<not> P (last t)"
    using assms(1) hd_dropWhile' by (metis last_rev trim_matches_def)
  ultimately show ?thesis using hd by simp
qed

lemma trim_matches_id:
  "s = [] \<or> (\<not> P (hd s) \<and> \<not> P (last s)) \<Longrightarrow> trim_matches P s = s"
proof (cases s)
  case Nil
  then show ?thesis by (simp add: trim_matches_def)
next
  case (Cons c cs)
  assume "s = [] \<or> (\<not> P (hd s) \<and> \<not> P (last s))"
  with Cons have 1: "dropWhile P s = s" by auto
  from \<open>s = [] \<or> _\<close> Cons have "\<not> P (hd (rev s))" and "rev s \<noteq> []"
    by (auto simp: hd_rev simp del: rev.simps)
  then have "dropWhile P (rev s) = rev s"
    by (cases "rev s") auto
  with 1 show ?thesis by (simp add: trim_matches_def)
qed

lemma trim_matches_idem [simp]: "trim_matches P (trim_matches P s) = trim_matches P s"
  by (metis trim_matches_ends trim_matches_id)

lemma trim_idem [simp]: "trim (trim s) = trim s"
  by (simp add: trim_eq_trim_matches)

lemma set_trim_matches: "set (trim_matches P s) \<subseteq> set s"
  by (auto simp: trim_matches_def dest!: set_dropWhileD)

lemma trim_Nil [simp]: "trim [] = []"
  by (simp add: trim_def trim_start_def trim_end_def)

section \<open>Splitting and joining\<close>

definition split_once :: "char \<Rightarrow> string \<Rightarrow> (string \<times> string) option" where
  "split_once c s = (case dropWhile (\<lambda>x. x \<noteq> c) s of
      [] \<Rightarrow> None
    | _ # r \<Rightarrow> Some (takeWhile (\<lambda>x. x \<noteq> c) s, r))"

definition rsplit_once :: "char \<Rightarrow> string \<Rightarrow> (string \<times> string) option" where
  "rsplit_once c s = map_option (\<lambda>(a, b). (rev b, rev a)) (split_once c (rev s))"

fun split_on :: "char \<Rightarrow> string \<Rightarrow> string list" where
  "split_on c [] = [[]]"
| "split_on c (x # xs) =
     (if x = c then [] # split_on c xs
      else (case split_on c xs of [] \<Rightarrow> [[x]] | y # ys \<Rightarrow> (x # y) # ys))"

fun join :: "string \<Rightarrow> string list \<Rightarrow> string" where
  "join sep [] = []"
| "join sep [x] = x"
| "join sep (x # y # ys) = x @ sep @ join sep (y # ys)"

definition strip_prefix :: "string \<Rightarrow> string \<Rightarrow> string option" where
  "strip_prefix p s = (if prefix p s then Some (drop (length p) s) else None)"

definition strip_suffix :: "string \<Rightarrow> string \<Rightarrow> string option" where
  "strip_suffix p s = (if suffix p s then Some (take (length s - length p) s) else None)"

lemma split_once_Some_iff:
  "split_once c s = Some (a, b) \<longleftrightarrow> s = a @ c # b \<and> c \<notin> set a"
proof
  assume "split_once c s = Some (a, b)"
  then have a: "a = takeWhile (\<lambda>x. x \<noteq> c) s"
    and d: "\<exists>x. dropWhile (\<lambda>x. x \<noteq> c) s = x # b"
    by (auto simp: split_once_def split: list.splits)
  from d obtain x where x: "dropWhile (\<lambda>x. x \<noteq> c) s = x # b" ..
  then have "x = c" using hd_dropWhile' [of "\<lambda>x. x \<noteq> c" s] by simp
  with a x show "s = a @ c # b \<and> c \<notin> set a"
    by (metis (mono_tags, lifting) set_takeWhileD takeWhile_dropWhile_id)
next
  assume "s = a @ c # b \<and> c \<notin> set a"
  then have "s = a @ c # b" and "\<forall>x \<in> set a. x \<noteq> c" by auto
  then show "split_once c s = Some (a, b)"
    by (simp add: split_once_def dropWhile_append2 takeWhile_append2)
qed

lemma split_once_None_iff: "split_once c s = None \<longleftrightarrow> c \<notin> set s"
proof (cases "split_once c s")
  case None
  then have "dropWhile (\<lambda>x. x \<noteq> c) s = []"
    by (auto simp: split_once_def split: list.splits)
  then have "c \<notin> set s" by (auto simp: dropWhile_eq_Nil_conv)
  with None show ?thesis by simp
next
  case (Some p)
  then show ?thesis by (cases p) (auto simp: split_once_Some_iff)
qed

lemma rsplit_once_Some_iff:
  "rsplit_once c s = Some (a, b) \<longleftrightarrow> s = a @ c # b \<and> c \<notin> set b"
proof -
  have "rsplit_once c s = Some (a, b) \<longleftrightarrow> split_once c (rev s) = Some (rev b, rev a)"
    by (auto simp: rsplit_once_def)
  also have "\<dots> \<longleftrightarrow> rev s = rev b @ c # rev a \<and> c \<notin> set b"
    by (simp add: split_once_Some_iff)
  also have "rev s = rev b @ c # rev a \<longleftrightarrow> s = a @ c # b"
    by (metis append_assoc append_Cons append_Nil rev.simps(2) rev_append rev_rev_ident)
  finally show ?thesis .
qed

lemma rsplit_once_None: "rsplit_once c s = None \<longleftrightarrow> c \<notin> set s"
  by (simp add: rsplit_once_def split_once_None_iff)

lemma split_on_ne [simp]: "split_on c s \<noteq> []"
  by (cases s) (auto split: list.splits)

lemma join_split_on: "join [c] (split_on c s) = s"
proof (induction s)
  case Nil
  then show ?case by simp
next
  case (Cons x xs)
  obtain y ys where "split_on c xs = y # ys" by (cases "split_on c xs") auto
  with Cons show ?case by (cases ys) auto
qed

lemma split_on_no_sep: "w \<in> set (split_on c s) \<Longrightarrow> c \<notin> set w"
proof (induction s arbitrary: w)
  case Nil
  then show ?case by simp
next
  case (Cons x xs)
  obtain y ys where ys: "split_on c xs = y # ys" by (cases "split_on c xs") auto
  with Cons show ?case by (auto split: if_splits)
qed

lemma split_on_id: "c \<notin> set s \<Longrightarrow> split_on c s = [s]"
  by (induction s) auto

lemma split_on_append_sep: "c \<notin> set a \<Longrightarrow> split_on c (a @ c # b) = a # split_on c b"
  by (induction a) auto

lemma split_on_join:
  "ws \<noteq> [] \<Longrightarrow> \<forall>w \<in> set ws. c \<notin> set w \<Longrightarrow> split_on c (join [c] ws) = ws"
proof (induction "[c]" ws rule: join.induct)
  case (3 x y ys)
  then show ?case by (simp add: split_on_append_sep)
qed (auto simp: split_on_id)

section \<open>Searching and replacing\<close>

definition contains_str :: "string \<Rightarrow> string \<Rightarrow> bool" where
  "contains_str p s \<longleftrightarrow> (\<exists>t \<in> set (suffixes s). prefix p t)"

fun replace_all :: "string \<Rightarrow> string \<Rightarrow> string \<Rightarrow> string" where
  "replace_all p r [] = []"
| "replace_all p r (x # xs) =
     (if p \<noteq> [] \<and> prefix p (x # xs)
      then r @ replace_all p r (drop (length p - 1) xs)
      else x # replace_all p r xs)"

lemma contains_str_iff: "contains_str p s \<longleftrightarrow> sublist p s"
  by (auto simp: contains_str_def sublist_altdef')

lemma contains_str_Cons: "contains_str p (x # xs) \<longleftrightarrow> prefix p (x # xs) \<or> contains_str p xs"
  by (auto simp: contains_str_def)

lemma replace_all_id: "\<not> contains_str p s \<Longrightarrow> replace_all p r s = s"
  by (induction s) (auto simp: contains_str_Cons)

section \<open>Numbers\<close>

definition digit_val :: "char \<Rightarrow> nat" where
  "digit_val c = byte c - 48"

definition dec_val :: "string \<Rightarrow> nat" where
  "dec_val s = foldl (\<lambda>n c. 10 * n + digit_val c) 0 s"

text \<open>\<open>u32::from_str\<close> and its kin: an optional plus sign, at least one digit, no overflow.\<close>

definition parse_unsigned :: "nat \<Rightarrow> string \<Rightarrow> nat option" where
  "parse_unsigned bits s =
     (let ds = (case s of c # cs \<Rightarrow> if c = CHR ''+'' then cs else s | [] \<Rightarrow> [])
      in if ds \<noteq> [] \<and> list_all is_digit ds \<and> dec_val ds < 2 ^ bits then Some (dec_val ds) else None)"

lemma parse_unsigned_bound: "parse_unsigned bits s = Some n \<Longrightarrow> n < 2 ^ bits"
  by (auto simp: parse_unsigned_def Let_def split: if_splits list.splits)

text \<open>\<open>Display\<close> of an unsigned integer.\<close>

fun show_nat :: "nat \<Rightarrow> string" where
  "show_nat n = (if n < 10 then [char_of (48 + n)]
     else show_nat (n div 10) @ [char_of (48 + n mod 10)])"

declare show_nat.simps [simp del]

lemma byte_digit: "n < 10 \<Longrightarrow> byte (char_of (48 + n) :: char) = 48 + n"
  by simp

lemma dec_val_snoc: "dec_val (s @ [c]) = 10 * dec_val s + digit_val c"
  by (simp add: dec_val_def)

lemma show_nat_ne [simp]: "show_nat n \<noteq> []"
  by (subst show_nat.simps) simp

lemma show_nat_digits: "list_all is_digit (show_nat n)"
proof (induction n rule: show_nat.induct)
  case (1 n)
  show ?case
  proof (cases "n < 10")
    case True
    then show ?thesis by (subst show_nat.simps) (simp add: is_digit_def)
  next
    case False
    with 1 have "list_all is_digit (show_nat (n div 10))" by simp
    moreover have "is_digit (char_of (48 + n mod 10))"
      using byte_digit [of "n mod 10"] by (simp add: is_digit_def)
    ultimately show ?thesis using False by (subst show_nat.simps) simp
  qed
qed

lemma dec_val_show_nat [simp]: "dec_val (show_nat n) = n"
proof (induction n rule: show_nat.induct)
  case (1 n)
  show ?case
  proof (cases "n < 10")
    case True
    then show ?thesis
      by (subst show_nat.simps) (simp add: dec_val_def digit_val_def)
  next
    case False
    with 1 show ?thesis
      by (subst show_nat.simps) (simp add: dec_val_snoc digit_val_def)
  qed
qed

text \<open>Printing then parsing a number that fits gives it back.\<close>

lemma parse_show: "n < 2 ^ bits \<Longrightarrow> parse_unsigned bits (show_nat n) = Some n"
proof -
  assume n: "n < 2 ^ bits"
  have "show_nat n \<noteq> [] \<and> list_all is_digit (show_nat n)"
    by (simp add: show_nat_digits)
  then obtain c cs where c: "show_nat n = c # cs" and "is_digit c"
    by (cases "show_nat n") auto
  then have "c \<noteq> CHR ''+''" by (auto simp: is_digit_def)
  with c n show ?thesis
    using show_nat_digits [of n] dec_val_show_nat [of n]
    by (simp add: parse_unsigned_def Let_def)
qed

end
