(* ===== verification/Core_Types.thy ===== *)
theory Core_Types
  imports Rust_Text
begin

text \<open>
  The backend-neutral types of \<open>crates/ruscker-core\<close>: the replica and its state, errors, the
  spawn request with its builder, liveness reports, and the image-tag rule behind the default
  \<open>image_present\<close>. A \<open>DateTime<Utc>\<close> is an \<open>int\<close> of nanoseconds since the epoch, a UUID a
  128-bit word and a socket address the text it prints as.
\<close>

section \<open>Replicas\<close>

type_synonym uuid = "128 word"
type_synonym replica_id = uuid
type_synonym timestamp = int

definition nanos :: int where
  "nanos = 1000000000"

text \<open>\<open>chrono::Duration::num_seconds\<close>: whole seconds, truncated towards zero.\<close>

definition num_seconds :: "int \<Rightarrow> int" where
  "num_seconds d = (if d < 0 then - ((- d) div nanos) else d div nanos)"

datatype replica_state = Starting | Ready | Draining | Stopped | Failed

record replica =
  r_id :: replica_id
  r_spec_id :: string
  r_container_id :: string
  r_upstream :: string
  r_state :: replica_state
  r_started_at :: timestamp
  r_sessions_active :: u32
  r_sessions_max :: u32
  r_host :: "string option"

definition available_seats :: "replica \<Rightarrow> u32" where
  "available_seats r = sat_sub (r_sessions_max r) (r_sessions_active r)"

definition is_accepting :: "replica \<Rightarrow> bool" where
  "is_accepting r \<longleftrightarrow> r_state r = Ready \<and> available_seats r > 0"

lemma available_seats_0_iff: "available_seats r = 0 \<longleftrightarrow> r_sessions_max r \<le> r_sessions_active r"
  by (simp add: available_seats_def sat_sub_0_iff)

lemma is_accepting_iff:
  "is_accepting r \<longleftrightarrow> r_state r = Ready \<and> r_sessions_active r < r_sessions_max r"
  using available_seats_0_iff [of r] by (auto simp: is_accepting_def word_gt_0)

section \<open>Errors\<close>

datatype core_error =
    SpecNotFound string
  | AtCapacity string
  | Backend string
  | SessionExpired string

section \<open>Spawn requests\<close>

datatype placement = Spread | BinPack

record registry_credentials =
  rc_username :: string
  rc_password :: string
  rc_server_address :: "string option"
  rc_credential_name :: "string option"

text \<open>A CPU fraction is an \<open>f64\<close>; it is only copied and compared with 0 here, so its type is left
  open.\<close>

record 'f resource_limits =
  memory_bytes :: "int option"
  memory_reservation_bytes :: "int option"
  cpu_fraction :: "'f option"

definition no_limits :: "'f resource_limits" where
  "no_limits = \<lparr>memory_bytes = None, memory_reservation_bytes = None, cpu_fraction = None\<rparr>"

definition limits_is_empty :: "'f resource_limits \<Rightarrow> bool" where
  "limits_is_empty l \<longleftrightarrow>
     memory_bytes l = None \<and> memory_reservation_bytes l = None \<and> cpu_fraction l = None"

record 'f spawn_request =
  sr_spec_id :: string
  sr_image :: string
  sr_inner_port :: "u16 option"
  sr_creds :: "registry_credentials option"
  sr_limits :: "'f resource_limits"
  sr_volumes :: "string list"
  sr_placement :: placement
  sr_anti_affinity :: bool
  sr_platform :: "string option"
  sr_env :: "string list"
  sr_cmd :: "string list option"
  sr_network :: "string option"
  sr_labels :: "(string \<times> string) list"
  sr_readiness_timeout_ms :: "u64 option"
  sr_job_timeout_secs :: "u64 option"

definition spawn_request_new :: "string \<Rightarrow> string \<Rightarrow> 'f spawn_request" where
  "spawn_request_new spec img =
     \<lparr>sr_spec_id = spec, sr_image = img, sr_inner_port = None, sr_creds = None,
      sr_limits = no_limits, sr_volumes = [], sr_placement = Spread, sr_anti_affinity = False,
      sr_platform = None, sr_env = [], sr_cmd = None, sr_network = None, sr_labels = [],
      sr_readiness_timeout_ms = None, sr_job_timeout_secs = None\<rparr>"

definition with_platform :: "string \<Rightarrow> 'f spawn_request \<Rightarrow> 'f spawn_request" where
  "with_platform p req = req\<lparr>sr_platform := Some p\<rparr>"

definition with_placement :: "placement \<Rightarrow> 'f spawn_request \<Rightarrow> 'f spawn_request" where
  "with_placement p req = req\<lparr>sr_placement := p\<rparr>"

definition with_anti_affinity :: "bool \<Rightarrow> 'f spawn_request \<Rightarrow> 'f spawn_request" where
  "with_anti_affinity b req = req\<lparr>sr_anti_affinity := b\<rparr>"

definition with_port :: "u16 \<Rightarrow> 'f spawn_request \<Rightarrow> 'f spawn_request" where
  "with_port p req = req\<lparr>sr_inner_port := Some p\<rparr>"

definition with_creds :: "registry_credentials \<Rightarrow> 'f spawn_request \<Rightarrow> 'f spawn_request" where
  "with_creds c req = req\<lparr>sr_creds := Some c\<rparr>"

definition with_limits :: "'f resource_limits \<Rightarrow> 'f spawn_request \<Rightarrow> 'f spawn_request" where
  "with_limits l req = req\<lparr>sr_limits := l\<rparr>"

definition with_volumes :: "string list \<Rightarrow> 'f spawn_request \<Rightarrow> 'f spawn_request" where
  "with_volumes vs req = req\<lparr>sr_volumes := vs\<rparr>"

definition with_env :: "string list \<Rightarrow> 'f spawn_request \<Rightarrow> 'f spawn_request" where
  "with_env es req = req\<lparr>sr_env := es\<rparr>"

definition with_cmd :: "string list \<Rightarrow> 'f spawn_request \<Rightarrow> 'f spawn_request" where
  "with_cmd c req = req\<lparr>sr_cmd := Some c\<rparr>"

definition with_network :: "string \<Rightarrow> 'f spawn_request \<Rightarrow> 'f spawn_request" where
  "with_network n req = req\<lparr>sr_network := Some n\<rparr>"

definition with_labels :: "(string \<times> string) list \<Rightarrow> 'f spawn_request \<Rightarrow> 'f spawn_request" where
  "with_labels ls req = req\<lparr>sr_labels := ls\<rparr>"

definition with_job_timeout :: "u64 \<Rightarrow> 'f spawn_request \<Rightarrow> 'f spawn_request" where
  "with_job_timeout secs req = req\<lparr>sr_job_timeout_secs := Some secs\<rparr>"

definition with_readiness_timeout_ms :: "u64 \<Rightarrow> 'f spawn_request \<Rightarrow> 'f spawn_request" where
  "with_readiness_timeout_ms millis req =
     req\<lparr>sr_readiness_timeout_ms := (if millis > 0 then Some millis else None)\<rparr>"

section \<open>Images\<close>

definition image_tag_matches :: "string list \<Rightarrow> string \<Rightarrow> bool" where
  "image_tag_matches tags img =
     (let with_tag = (if CHR '':'' \<in> set img then img else img @ '':latest'')
      in list_ex (\<lambda>t. t = img \<or> t = with_tag) tags)"

record image_info =
  im_id :: string
  im_tags :: "string list"
  im_size_bytes :: int
  im_containers :: int

text \<open>The trait's default \<open>image_present\<close>, over the images the backend lists.\<close>

definition default_image_present ::
    "(core_error + image_info list) \<Rightarrow> string \<Rightarrow> core_error + bool" where
  "default_image_present list_images img =
     (case list_images of Inl e \<Rightarrow> Inl e
      | Inr is \<Rightarrow> Inr (list_ex (\<lambda>i. image_tag_matches (im_tags i) img) is))"

text \<open>The documented rule: an exact reference, or the bare repository for its \<open>:latest\<close>.\<close>

lemma image_tag_matches_bare:
  "CHR '':'' \<notin> set img \<Longrightarrow>
     image_tag_matches tags img \<longleftrightarrow> img \<in> set tags \<or> img @ '':latest'' \<in> set tags"
  by (auto simp: image_tag_matches_def list_ex_iff)

lemma image_tag_matches_exact:
  "CHR '':'' \<in> set img \<Longrightarrow> image_tag_matches tags img \<longleftrightarrow> img \<in> set tags"
  by (auto simp: image_tag_matches_def list_ex_iff)

section \<open>Liveness\<close>

datatype liveness = Running | LStopped | Missing | Unknown

record liveness_query =
  lq_replica_id :: replica_id
  lq_container_id :: string
  lq_host :: "string option"

record liveness_observation =
  lo_replica_id :: replica_id
  lo_liveness :: liveness

record managed_container =
  mc_id :: string
  mc_name :: string
  mc_image :: string
  mc_spec_id :: "string option"
  mc_status :: string
  mc_running :: bool
  mc_finished_at :: "timestamp option"

record liveness_report =
  lr_observations :: "liveness_observation list"
  lr_running :: "replica list"
  lr_managed :: "managed_container list"

definition query_of :: "replica \<Rightarrow> liveness_query" where
  "query_of r = \<lparr>lq_replica_id = r_id r, lq_container_id = r_container_id r, lq_host = r_host r\<rparr>"

definition unknown_report :: "liveness_query list \<Rightarrow> liveness_report" where
  "unknown_report known =
     \<lparr>lr_observations = map (\<lambda>q. \<lparr>lo_replica_id = lq_replica_id q, lo_liveness = Unknown\<rparr>) known,
      lr_running = [], lr_managed = []\<rparr>"

lemma unknown_report_simps [simp]:
  "lr_running (unknown_report known) = []"
  "lr_managed (unknown_report known) = []"
  "o' \<in> set (lr_observations (unknown_report known)) \<Longrightarrow> lo_liveness o' = Unknown"
  by (auto simp: unknown_report_def)

section \<open>The contract of a liveness report\<close>

text \<open>
  What the scaler relies on when it prunes: a backend never reports a replica whose container is
  running as stopped or missing; when it does not know, it says so.
\<close>

locale liveness_source =
  fixes report :: "'w \<Rightarrow> liveness_query list \<Rightarrow> liveness_report"
    and alive :: "'w \<Rightarrow> liveness_query \<Rightarrow> bool"
  assumes never_guesses: "q \<in> set known \<Longrightarrow> alive w q \<Longrightarrow>
      \<lparr>lo_replica_id = lq_replica_id q, lo_liveness = l\<rparr> \<in> set (lr_observations (report w known)) \<Longrightarrow>
      distinct (map lq_replica_id known) \<Longrightarrow> l = Running \<or> l = Unknown"
    and observes_known: "lo \<in> set (lr_observations (report w known)) \<Longrightarrow>
      lo_replica_id lo \<in> lq_replica_id ` set known"
begin

lemma alive_not_dead:
  assumes "distinct (map lq_replica_id known)" and q: "q \<in> set known" "alive w q"
    and o: "lo \<in> set (lr_observations (report w known))" "lo_replica_id lo = lq_replica_id q"
  shows "lo_liveness lo \<noteq> Missing \<and> lo_liveness lo \<noteq> LStopped"
proof -
  have "lo = \<lparr>lo_replica_id = lq_replica_id q, lo_liveness = lo_liveness lo\<rparr>"
    using o(2) by (metis liveness_observation.surjective old.unit.exhaust)
  then have "lo_liveness lo = Running \<or> lo_liveness lo = Unknown"
    using never_guesses [OF q] o(1) assms(1) by metis
  then show ?thesis by auto
qed

end

text \<open>The trait's default report knows nothing, so it is sound whatever is alive.\<close>

interpretation default_liveness: liveness_source "\<lambda>_. unknown_report" "\<lambda>_ _. True"
  by unfold_locales (auto simp: unknown_report_def)

end
