(* ===== verification/Core_Registry.thy ===== *)
theory Core_Registry
  imports Core_Types "HOL-Library.Multiset"
begin

text \<open>
  \<open>ReplicaRegistry\<close> (\<open>crates/ruscker-core/src/lib.rs\<close>): the live replicas, grouped by spec id.
  The hash table \<open>by_spec\<close> is a table; \<open>find_mut\<close> followed by an assignment is
  \<open>update_first\<close>. The invariant \<open>reg_wf\<close> says that every replica sits in the row of its own
  spec and that no id occurs twice.
\<close>

type_synonym registry = "(string, replica list) table"

section \<open>Operations\<close>

definition replicas_of :: "registry \<Rightarrow> string \<Rightarrow> replica list" where
  "replicas_of reg s = (case table_get reg s of None \<Rightarrow> [] | Some rs \<Rightarrow> rs)"

definition reg_all :: "registry \<Rightarrow> replica list" where
  "reg_all reg = concat (map snd reg)"

definition reg_add :: "replica \<Rightarrow> registry \<Rightarrow> registry" where
  "reg_add r reg = table_put (r_spec_id r) (replicas_of reg (r_spec_id r) @ [r]) reg"

fun remove_pos :: "replica_id \<Rightarrow> replica list \<Rightarrow> (replica \<times> replica list) option" where
  "remove_pos rid [] = None"
| "remove_pos rid (r # rs) =
     (if r_id r = rid then Some (r, rs)
      else map_option (\<lambda>(x, rs'). (x, r # rs')) (remove_pos rid rs))"

fun reg_remove :: "replica_id \<Rightarrow> registry \<Rightarrow> replica option \<times> registry" where
  "reg_remove rid [] = (None, [])"
| "reg_remove rid ((s, rs) # reg) =
     (case remove_pos rid rs of
        Some (r, rs') \<Rightarrow> (Some r, (s, rs') # reg)
      | None \<Rightarrow> (case reg_remove rid reg of (res, reg') \<Rightarrow> (res, (s, rs) # reg')))"

definition reg_upsert :: "replica \<Rightarrow> registry \<Rightarrow> registry" where
  "reg_upsert r reg = reg_add r (snd (reg_remove (r_id r) reg))"

fun update_pos :: "replica_id \<Rightarrow> (replica \<Rightarrow> replica) \<Rightarrow> replica list \<Rightarrow> replica list option" where
  "update_pos rid f [] = None"
| "update_pos rid f (r # rs) =
     (if r_id r = rid then Some (f r # rs) else map_option ((#) r) (update_pos rid f rs))"

fun update_first :: "replica_id \<Rightarrow> (replica \<Rightarrow> replica) \<Rightarrow> registry \<Rightarrow> registry option" where
  "update_first rid f [] = None"
| "update_first rid f ((s, rs) # reg) =
     (case update_pos rid f rs of
        Some rs' \<Rightarrow> Some ((s, rs') # reg)
      | None \<Rightarrow> map_option ((#) (s, rs)) (update_first rid f reg))"

definition reg_update :: "replica_id \<Rightarrow> (replica \<Rightarrow> replica) \<Rightarrow> registry \<Rightarrow> registry" where
  "reg_update rid f reg = (case update_first rid f reg of None \<Rightarrow> reg | Some reg' \<Rightarrow> reg')"

definition mark_restarting :: "replica_id \<Rightarrow> timestamp \<Rightarrow> registry \<Rightarrow> bool \<times> registry" where
  "mark_restarting rid observed_at reg =
     (case update_first rid
         (\<lambda>r. r\<lparr>r_state := Stopped, r_started_at := observed_at, r_sessions_active := 0\<rparr>) reg of
        None \<Rightarrow> (False, reg)
      | Some reg' \<Rightarrow> (True, reg'))"

definition reg_reset :: "replica list \<Rightarrow> registry" where
  "reg_reset rs = foldl (\<lambda>reg r. reg_add r reg) [] rs"

definition spec_count :: "registry \<Rightarrow> nat" where
  "spec_count reg = length reg"

definition reg_total :: "registry \<Rightarrow> nat" where
  "reg_total reg = sum_list (map (length \<circ> snd) reg)"

definition inc_sessions :: "replica_id \<Rightarrow> registry \<Rightarrow> registry" where
  "inc_sessions rid = reg_update rid (\<lambda>r. r\<lparr>r_sessions_active := sat_add (r_sessions_active r) 1\<rparr>)"

definition dec_sessions :: "replica_id \<Rightarrow> registry \<Rightarrow> registry" where
  "dec_sessions rid = reg_update rid (\<lambda>r. r\<lparr>r_sessions_active := sat_sub (r_sessions_active r) 1\<rparr>)"

definition set_session_count :: "replica_id \<Rightarrow> u32 \<Rightarrow> registry \<Rightarrow> registry" where
  "set_session_count rid n = reg_update rid (\<lambda>r. r\<lparr>r_sessions_active := n\<rparr>)"

definition set_session_counts :: "(replica_id \<rightharpoonup> u32) \<Rightarrow> registry \<Rightarrow> registry" where
  "set_session_counts counts reg =
     map (\<lambda>(s, rs). (s, map (\<lambda>r. r\<lparr>r_sessions_active :=
        (case counts (r_id r) of None \<Rightarrow> 0 | Some n \<Rightarrow> n)\<rparr>) rs)) reg"

section \<open>The invariant\<close>

definition reg_wf :: "registry \<Rightarrow> bool" where
  "reg_wf reg \<longleftrightarrow> table_wf reg
     \<and> (\<forall>(s, rs) \<in> set reg. \<forall>r \<in> set rs. r_spec_id r = s)
     \<and> distinct (map r_id (reg_all reg))"

lemma reg_all_simps [simp]:
  "reg_all [] = []"
  "reg_all ((s, rs) # reg) = rs @ reg_all reg"
  by (simp_all add: reg_all_def)

lemma rows_ids_idle:
  "rid \<notin> r_id ` set (reg_all reg) \<Longrightarrow> (s, rs) \<in> set reg \<Longrightarrow> rid \<notin> r_id ` set rs"
  by (force simp: reg_all_def)

lemma reg_wfD:
  assumes "reg_wf reg"
  shows reg_wf_table: "table_wf reg"
    and reg_wf_rows: "\<And>s rs r. (s, rs) \<in> set reg \<Longrightarrow> r \<in> set rs \<Longrightarrow> r_spec_id r = s"
    and reg_wf_distinct: "distinct (map r_id (reg_all reg))"
  using assms by (fastforce simp: reg_wf_def)+

lemma reg_wfI:
  "table_wf reg \<Longrightarrow> (\<And>s rs r. (s, rs) \<in> set reg \<Longrightarrow> r \<in> set rs \<Longrightarrow> r_spec_id r = s) \<Longrightarrow>
     distinct (map r_id (reg_all reg)) \<Longrightarrow> reg_wf reg"
  by (auto simp: reg_wf_def)

lemma reg_wf_Nil [simp]: "reg_wf []"
  by (simp add: reg_wf_def)

lemma table_get_key: "table_get t k = Some v \<Longrightarrow> (k, v) \<in> set t"
  by (simp add: table_get_def map_of_SomeD)

lemma replicas_of_row: "r \<in> set (replicas_of reg s) \<Longrightarrow> \<exists>rs. (s, rs) \<in> set reg \<and> r \<in> set rs"
  by (cases "table_get reg s") (auto simp: replicas_of_def dest: table_get_key)

lemma replicas_of_in_all: "r \<in> set (replicas_of reg s) \<Longrightarrow> r \<in> set (reg_all reg)"
  using replicas_of_row [of r reg s] by (force simp: reg_all_def)

lemma set_reg_all_iff:
  assumes "reg_wf reg"
  shows "r \<in> set (reg_all reg) \<longleftrightarrow> r \<in> set (replicas_of reg (r_spec_id r))"
proof
  assume "r \<in> set (reg_all reg)"
  then obtain s rs where "(s, rs) \<in> set reg" and "r \<in> set rs"
    by (auto simp: reg_all_def)
  moreover from this assms have "r_spec_id r = s" by (auto simp: reg_wf_def)
  moreover from assms have "table_wf reg" by (simp add: reg_wf_def)
  ultimately show "r \<in> set (replicas_of reg (r_spec_id r))"
    by (simp add: replicas_of_def table_get_mem)
next
  assume "r \<in> set (replicas_of reg (r_spec_id r))"
  then show "r \<in> set (reg_all reg)" by (rule replicas_of_in_all)
qed

lemma replicas_of_spec: "reg_wf reg \<Longrightarrow> r \<in> set (replicas_of reg s) \<Longrightarrow> r_spec_id r = s"
  by (fastforce simp: reg_wf_def dest!: replicas_of_row)

section \<open>Positions and ids\<close>

lemma remove_pos_None: "remove_pos rid rs = None \<longleftrightarrow> rid \<notin> r_id ` set rs"
  by (induction rs) auto

lemma remove_pos_Some:
  "distinct (map r_id rs) \<Longrightarrow> remove_pos rid rs = Some (r, rs') \<Longrightarrow>
     r \<in> set rs \<and> r_id r = rid \<and> rs' = filter (\<lambda>x. r_id x \<noteq> rid) rs"
proof (induction rs arbitrary: rs')
  case (Cons x rs)
  then show ?case
    by (auto split: if_splits intro!: filter_True [symmetric]) (metis image_eqI)
qed simp

lemma update_pos_None: "update_pos rid f rs = None \<longleftrightarrow> rid \<notin> r_id ` set rs"
  by (induction rs) auto

lemma update_pos_Some:
  "distinct (map r_id rs) \<Longrightarrow> update_pos rid f rs = Some rs' \<Longrightarrow>
     rs' = map (\<lambda>x. if r_id x = rid then f x else x) rs"
proof (induction rs arbitrary: rs')
  case (Cons x rs)
  then show ?case
    by (auto split: if_splits intro!: map_idI [symmetric] intro: rev_image_eqI)
qed simp

abbreviation on_id :: "replica_id \<Rightarrow> (replica \<Rightarrow> replica) \<Rightarrow> replica \<Rightarrow> replica" where
  "on_id rid f x \<equiv> (if r_id x = rid then f x else x)"

lemma map_on_id_idle: "rid \<notin> r_id ` set rs \<Longrightarrow> map (on_id rid f) rs = rs"
  by (rule map_idI) auto

lemma filter_id_idle: "rid \<notin> r_id ` set rs \<Longrightarrow> filter (\<lambda>x. r_id x \<noteq> rid) rs = rs"
  by (rule filter_True) auto

text \<open>With unique ids, the first match is the only one: removal filters and update maps.\<close>

lemma reg_remove_rows:
  "distinct (map r_id (reg_all reg)) \<Longrightarrow>
     snd (reg_remove rid reg) = map (\<lambda>(s, rs). (s, filter (\<lambda>x. r_id x \<noteq> rid) rs)) reg"
proof (induction reg)
  case (Cons row reg)
  obtain s rs where row: "row = (s, rs)" by (cases row)
  from Cons.prems row have d: "distinct (map r_id rs)" "distinct (map r_id (reg_all reg))"
    and disj: "r_id ` set rs \<inter> r_id ` set (reg_all reg) = {}" by auto
  show ?case
  proof (cases "remove_pos rid rs")
    case None
    then have "rid \<notin> r_id ` set rs" by (simp add: remove_pos_None)
    with Cons.IH [OF d(2)] row None show ?thesis
      by (auto simp: filter_id_idle split: prod.splits)
  next
    case (Some p)
    obtain r rs' where p: "p = (r, rs')" by (cases p)
    from remove_pos_Some [OF d(1)] Some p have r: "r \<in> set rs" "r_id r = rid"
      "rs' = filter (\<lambda>x. r_id x \<noteq> rid) rs" by auto
    with disj have "rid \<notin> r_id ` set (reg_all reg)" by auto
    then have "map (\<lambda>(s, rs). (s, filter (\<lambda>x. r_id x \<noteq> rid) rs)) reg = reg"
      by (intro map_idI) (auto intro!: filter_id_idle dest: rows_ids_idle)
    with Some p r row show ?thesis by simp
  qed
qed simp

lemma reg_remove_result:
  "distinct (map r_id (reg_all reg)) \<Longrightarrow>
     fst (reg_remove rid reg) = List.find (\<lambda>x. r_id x = rid) (reg_all reg)"
proof (induction reg)
  case (Cons row reg)
  obtain s rs where row: "row = (s, rs)" by (cases row)
  from Cons.prems row have d: "distinct (map r_id rs)" "distinct (map r_id (reg_all reg))" by auto
  have find_app: "List.find P (xs @ ys) =
      (case List.find P xs of None \<Rightarrow> List.find P ys | Some x \<Rightarrow> Some x)" for P and xs ys :: "replica list"
    by (induction xs) auto
  have pos: "map_option fst (remove_pos rid rs) = List.find (\<lambda>x. r_id x = rid) rs"
    by (induction rs) (auto simp: option.map_comp comp_def case_prod_unfold)
  show ?case
    using Cons.IH [OF d(2)] pos row
    by (auto simp: find_app split: option.splits prod.splits)
qed simp

lemma update_first_rows:
  "distinct (map r_id (reg_all reg)) \<Longrightarrow>
     update_first rid f reg =
       (if rid \<in> r_id ` set (reg_all reg)
        then Some (map (\<lambda>(s, rs). (s, map (on_id rid f) rs)) reg) else None)"
proof (induction reg)
  case (Cons row reg)
  obtain s rs where row: "row = (s, rs)" by (cases row)
  from Cons.prems row have d: "distinct (map r_id rs)" "distinct (map r_id (reg_all reg))"
    and disj: "r_id ` set rs \<inter> r_id ` set (reg_all reg) = {}" by auto
  show ?case
  proof (cases "update_pos rid f rs")
    case None
    then have "rid \<notin> r_id ` set rs" by (simp add: update_pos_None)
    with Cons.IH [OF d(2)] row None show ?thesis by (auto simp: map_on_id_idle)
  next
    case (Some rs')
    then have "rid \<in> r_id ` set rs" using update_pos_None [of rid f rs] by auto
    moreover from this disj have "rid \<notin> r_id ` set (reg_all reg)" by auto
    then have "map (\<lambda>(s, rs). (s, map (on_id rid f) rs)) reg = reg"
      by (intro map_idI) (auto intro!: map_on_id_idle dest: rows_ids_idle)
    ultimately show ?thesis using Some row update_pos_Some [OF d(1) Some] by auto
  qed
qed simp

lemma reg_update_rows:
  "distinct (map r_id (reg_all reg)) \<Longrightarrow>
     reg_update rid f reg = map (\<lambda>(s, rs). (s, map (on_id rid f) rs)) reg"
proof -
  assume d: "distinct (map r_id (reg_all reg))"
  have "rid \<notin> r_id ` set (reg_all reg) \<Longrightarrow> map (\<lambda>(s, rs). (s, map (on_id rid f) rs)) reg = reg"
    by (intro map_idI) (auto intro!: map_on_id_idle dest: rows_ids_idle)
  with d show ?thesis by (auto simp: reg_update_def update_first_rows)
qed

text \<open>What a reader sees after each operation.\<close>

lemma table_get_map_rows:
  "table_get (map (\<lambda>(s, rs). (s, g rs)) t) k = map_option g (table_get t k)"
  by (induction t) (auto simp: table_get_def)

lemma replicas_of_add [simp]:
  "replicas_of (reg_add r reg) s =
     (if s = r_spec_id r then replicas_of reg s @ [r] else replicas_of reg s)"
  by (simp add: replicas_of_def reg_add_def)

lemma replicas_of_map_rows:
  "g [] = [] \<Longrightarrow> replicas_of (map (\<lambda>(s, rs). (s, g rs)) reg) s = g (replicas_of reg s)"
  by (simp add: replicas_of_def table_get_map_rows split: option.splits)

lemma replicas_of_remove:
  "reg_wf reg \<Longrightarrow>
     replicas_of (snd (reg_remove rid reg)) s = filter (\<lambda>x. r_id x \<noteq> rid) (replicas_of reg s)"
  by (simp add: reg_remove_rows reg_wf_distinct replicas_of_map_rows)

lemma replicas_of_update:
  "reg_wf reg \<Longrightarrow>
     replicas_of (reg_update rid f reg) s = map (on_id rid f) (replicas_of reg s)"
  by (simp add: reg_update_rows reg_wf_distinct replicas_of_map_rows)

lemma replicas_of_set_counts:
  "replicas_of (set_session_counts counts reg) s =
     map (\<lambda>r. r\<lparr>r_sessions_active := (case counts (r_id r) of None \<Rightarrow> 0 | Some n \<Rightarrow> n)\<rparr>)
       (replicas_of reg s)"
  unfolding set_session_counts_def by (rule replicas_of_map_rows) simp

section \<open>The invariant is kept\<close>

lemma keys_map_rows: "map fst (map (\<lambda>(s, rs). (s, g s rs)) reg) = map fst reg"
  by (induction reg) auto

lemma reg_all_map_rows_map:
  "reg_all (map (\<lambda>(s, rs). (s, map f rs)) reg) = map f (reg_all reg)"
  by (induction reg) auto

lemma reg_all_map_rows_filter:
  "reg_all (map (\<lambda>(s, rs). (s, filter P rs)) reg) = filter P (reg_all reg)"
  by (induction reg) auto

lemma reg_wf_map:
  assumes "reg_wf reg" and f: "\<And>x. r_id (f x) = r_id x \<and> r_spec_id (f x) = r_spec_id x"
  shows "reg_wf (map (\<lambda>(s, rs). (s, map f rs)) reg)"
proof -
  from f have "r_id \<circ> f = r_id" by auto
  then have "map r_id (reg_all (map (\<lambda>(s, rs). (s, map f rs)) reg)) = map r_id (reg_all reg)"
    by (simp add: reg_all_map_rows_map)
  then have d: "distinct (map r_id (reg_all (map (\<lambda>(s, rs). (s, map f rs)) reg)))"
    using assms(1) by (simp add: reg_wf_distinct)
  have k: "table_wf (map (\<lambda>(s, rs). (s, map f rs)) reg)"
    using reg_wf_table [OF assms(1)] by (simp add: table_wf_def keys_map_rows del: map_map)
  show ?thesis
  proof (rule reg_wfI [OF k _ d])
    fix s rs r assume "(s, rs) \<in> set (map (\<lambda>(s, rs). (s, map f rs)) reg)" and "r \<in> set rs"
    then obtain rs' x where "(s, rs') \<in> set reg" "x \<in> set rs'" "r = f x" by auto
    with f show "r_spec_id r = s" by (simp add: reg_wf_rows [OF assms(1)])
  qed
qed

lemma reg_wf_filter: "reg_wf reg \<Longrightarrow> reg_wf (map (\<lambda>(s, rs). (s, filter P rs)) reg)"
  by (intro reg_wfI)
    (auto simp: reg_wf_distinct table_wf_def keys_map_rows reg_all_map_rows_filter
      distinct_map_filter simp del: map_map dest: reg_wf_table reg_wf_rows)

lemma reg_wf_remove: "reg_wf reg \<Longrightarrow> reg_wf (snd (reg_remove rid reg))"
  by (simp add: reg_remove_rows reg_wf_distinct reg_wf_filter)

lemma reg_wf_update:
  "reg_wf reg \<Longrightarrow> (\<And>x. r_id (f x) = r_id x \<and> r_spec_id (f x) = r_spec_id x) \<Longrightarrow>
     reg_wf (reg_update rid f reg)"
  by (simp add: reg_update_rows reg_wf_distinct reg_wf_map)

lemma reg_all_add_mset: "mset (reg_all (reg_add r reg)) = add_mset r (mset (reg_all reg))"
proof -
  have "mset (reg_all (table_put s (replicas_of reg s @ [r]) reg)) = add_mset r (mset (reg_all reg))"
    for s
    by (induction reg) (auto simp: table_put_def replicas_of_def table_get_def split: option.splits)
  then show ?thesis by (simp add: reg_add_def)
qed

lemma rows_table_put:
  "(k', v') \<in> set (table_put k v t) \<Longrightarrow> (k' = k \<and> v' = v) \<or> (k', v') \<in> set t"
  by (induction t) (auto simp: table_put_def split: if_splits)

lemma reg_wf_add:
  assumes wf: "reg_wf reg" and fresh: "r_id r \<notin> r_id ` set (reg_all reg)"
  shows "reg_wf (reg_add r reg)"
proof (rule reg_wfI)
  have "mset (map r_id (reg_all (reg_add r reg))) = mset (map r_id (r # reg_all reg))"
    by (simp add: reg_all_add_mset)
  then have "distinct (map r_id (reg_all (reg_add r reg))) = distinct (map r_id (r # reg_all reg))"
    by (rule mset_eq_imp_distinct_iff)
  with wf fresh show "distinct (map r_id (reg_all (reg_add r reg)))"
    by (simp add: reg_wf_distinct)
  show "table_wf (reg_add r reg)"
    using wf by (simp add: reg_wf_table reg_add_def)
  fix s rs x assume "(s, rs) \<in> set (reg_add r reg)" and x: "x \<in> set rs"
  then consider "s = r_spec_id r" "rs = replicas_of reg s @ [r]" | "(s, rs) \<in> set reg"
    unfolding reg_add_def by (auto dest: rows_table_put)
  then show "r_spec_id x = s"
    using x wf by cases (auto dest: replicas_of_spec reg_wf_rows)
qed

text \<open>Ids in the registry, and the replica an id names.\<close>

definition reg_ids :: "registry \<Rightarrow> replica_id set" where
  "reg_ids reg = r_id ` set (reg_all reg)"

lemma reg_ids_add: "reg_ids (reg_add r reg) = insert (r_id r) (reg_ids reg)"
proof -
  have "set (reg_all (reg_add r reg)) = insert r (set (reg_all reg))"
    by (metis reg_all_add_mset set_mset_add_mset_insert set_mset_mset)
  then show ?thesis by (simp add: reg_ids_def)
qed

lemma reg_ids_remove: "reg_wf reg \<Longrightarrow> reg_ids (snd (reg_remove rid reg)) = reg_ids reg - {rid}"
  by (auto simp: reg_ids_def reg_remove_rows reg_wf_distinct reg_all_map_rows_filter)

lemma reg_all_update:
  assumes "reg_wf reg"
  shows "reg_all (reg_update rid f reg) = map (on_id rid f) (reg_all reg)"
  using reg_update_rows [OF reg_wf_distinct [OF assms], of rid f]
    reg_all_map_rows_map [of "on_id rid f" reg] by (rule subst [OF sym])

lemma reg_all_remove:
  assumes "reg_wf reg"
  shows "reg_all (snd (reg_remove rid reg)) = filter (\<lambda>x. r_id x \<noteq> rid) (reg_all reg)"
  by (simp add: reg_remove_rows reg_wf_distinct [OF assms] reg_all_map_rows_filter)

lemma reg_ids_update:
  "reg_wf reg \<Longrightarrow> (\<And>x. r_id (f x) = r_id x) \<Longrightarrow> reg_ids (reg_update rid f reg) = reg_ids reg"
proof -
  assume wf: "reg_wf reg" and f: "\<And>x. r_id (f x) = r_id x"
  have "r_id \<circ> on_id rid f = r_id" by (rule ext) (simp add: f)
  then have "r_id ` set (map (on_id rid f) (reg_all reg)) = r_id ` set (reg_all reg)"
    by (simp only: set_map [symmetric] map_map)
  with wf show ?thesis by (simp only: reg_ids_def reg_all_update)
qed

lemma replicas_of_id_unique:
  assumes "reg_wf reg" "r \<in> set (replicas_of reg s)" "r' \<in> set (replicas_of reg s')" "r_id r = r_id r'"
  shows "r = r'"
proof -
  from assms have "r \<in> set (reg_all reg)" "r' \<in> set (reg_all reg)" "distinct (map r_id (reg_all reg))"
    by (auto simp: reg_wf_distinct dest: replicas_of_in_all)
  with assms(4) show ?thesis by (metis distinct_map inj_onD)
qed

lemma reg_ids_iff:
  "reg_wf reg \<Longrightarrow> rid \<in> reg_ids reg \<longleftrightarrow> (\<exists>s. rid \<in> r_id ` set (replicas_of reg s))"
  by (auto simp: reg_ids_def set_reg_all_iff dest: replicas_of_in_all intro!: imageI)

section \<open>The contract the scaler and the proxy rely on\<close>

text \<open>
  A pool of replicas per spec, as its clients see it: what a reader of a spec's pool finds after
  each operation, and that ids stay unique. The clients' counting arguments are proved once here.
\<close>

locale replica_pool =
  fixes inv :: "'g \<Rightarrow> bool"
    and pool :: "'g \<Rightarrow> string \<Rightarrow> replica list"
    and ids :: "'g \<Rightarrow> replica_id set"
    and add :: "replica \<Rightarrow> 'g \<Rightarrow> 'g"
    and remove :: "replica_id \<Rightarrow> 'g \<Rightarrow> 'g"
    and modify :: "replica_id \<Rightarrow> (replica \<Rightarrow> replica) \<Rightarrow> 'g \<Rightarrow> 'g"
  assumes inv_add: "inv g \<Longrightarrow> r_id r \<notin> ids g \<Longrightarrow> inv (add r g)"
    and inv_remove: "inv g \<Longrightarrow> inv (remove i g)"
    and inv_modify: "inv g \<Longrightarrow> (\<And>x. r_id (f x) = r_id x \<and> r_spec_id (f x) = r_spec_id x) \<Longrightarrow>
      inv (modify i f g)"
    and pool_add: "pool (add r g) s = (if s = r_spec_id r then pool g s @ [r] else pool g s)"
    and pool_remove: "inv g \<Longrightarrow> pool (remove i g) s = filter (\<lambda>x. r_id x \<noteq> i) (pool g s)"
    and pool_modify: "inv g \<Longrightarrow> pool (modify i f g) s = map (on_id i f) (pool g s)"
    and pool_spec: "inv g \<Longrightarrow> r \<in> set (pool g s) \<Longrightarrow> r_spec_id r = s"
    and pool_id: "inv g \<Longrightarrow> r \<in> set (pool g s) \<Longrightarrow> r' \<in> set (pool g s') \<Longrightarrow> r_id r = r_id r' \<Longrightarrow> r = r'"
    and pool_distinct: "inv g \<Longrightarrow> distinct (map r_id (pool g s))"
    and ids_iff: "inv g \<Longrightarrow> i \<in> ids g \<longleftrightarrow> (\<exists>s. i \<in> r_id ` set (pool g s))"
begin

lemma pool_length_add:
  "length (pool (add r g) s) = length (pool g s) + (if s = r_spec_id r then 1 else 0)"
  by (simp add: pool_add)

lemma pool_length_remove_le: "inv g \<Longrightarrow> length (pool (remove i g) s) \<le> length (pool g s)"
  by (simp add: pool_remove)

lemma filter_ne_length:
  "distinct (map r_id rs) \<Longrightarrow> r \<in> set rs \<Longrightarrow>
     Suc (length (filter (\<lambda>x. r_id x \<noteq> r_id r) rs)) = length rs"
proof (induction rs)
  case (Cons x rs)
  show ?case
  proof (cases "x = r")
    case True
    with Cons.prems have "r_id r \<notin> r_id ` set rs" by auto
    then have "filter (\<lambda>y. r_id y \<noteq> r_id r) rs = rs" by (rule filter_id_idle)
    with True show ?thesis by simp
  next
    case False
    with Cons show ?thesis by auto
  qed
qed simp

lemma pool_length_remove:
  "inv g \<Longrightarrow> r \<in> set (pool g s) \<Longrightarrow> Suc (length (pool (remove (r_id r) g) s)) = length (pool g s)"
  by (simp add: pool_remove pool_distinct filter_ne_length)

lemma ids_remove: "inv g \<Longrightarrow> i \<notin> ids (remove i g)"
  by (auto simp: ids_iff inv_remove pool_remove)

lemma pool_length_modify: "inv g \<Longrightarrow> length (pool (modify i f g) s) = length (pool g s)"
  by (simp add: pool_modify)

text \<open>Replace-or-insert leaves exactly the new row under the id, in the new row's pool.\<close>

lemma inv_upsert: "inv g \<Longrightarrow> inv (add r (remove (r_id r) g))"
  by (simp add: inv_add inv_remove ids_remove)

lemma pool_upsert:
  "inv g \<Longrightarrow> pool (add r (remove (r_id r) g)) s =
     filter (\<lambda>x. r_id x \<noteq> r_id r) (pool g s) @ (if s = r_spec_id r then [r] else [])"
  by (simp add: pool_add pool_remove)

lemma upsert_unique:
  "inv g \<Longrightarrow> x \<in> set (pool (add r (remove (r_id r) g)) s) \<Longrightarrow> r_id x = r_id r \<Longrightarrow> x = r"
  by (auto simp: pool_upsert split: if_splits)

text \<open>A measure of the pool after the counter of one of its members changed.\<close>

lemma sum_modify:
  assumes "inv g" and r: "r \<in> set (pool g s)"
  shows "sum_list (map m (pool (modify (r_id r) f g) s)) + m r
       = sum_list (map m (pool g s)) + (m (f r) :: nat)"
proof -
  have "distinct (map r_id rs) \<Longrightarrow> r \<in> set rs \<Longrightarrow>
      sum_list (map (m \<circ> on_id (r_id r) f) rs) + m r = sum_list (map m rs) + m (f r)" for rs
  proof (induction rs)
    case (Cons x rs)
    show ?case
    proof (cases "x = r")
      case True
      with Cons.prems have "r_id r \<notin> r_id ` set rs" by auto
      then have "map (on_id (r_id r) f) rs = rs" by (rule map_on_id_idle)
      then have "sum_list (map (m \<circ> on_id (r_id r) f) rs) = sum_list (map m rs)"
        by (metis list.map_comp)
      with True show ?thesis by (simp add: comp_def)
    next
      case False
      with Cons show ?thesis by (auto simp: add_ac)
    qed
  qed simp
  with assms show ?thesis by (simp add: pool_modify pool_distinct comp_def)
qed

end

interpretation rp: replica_pool reg_wf replicas_of reg_ids reg_add
  "\<lambda>i g. snd (reg_remove i g)" reg_update
proof unfold_locales
  show "reg_wf (reg_add r g)" if "reg_wf g" "r_id r \<notin> reg_ids g" for g r
    using that by (simp add: reg_wf_add reg_ids_def)
  show "distinct (map r_id (replicas_of g s))" if "reg_wf g" for g s
  proof (cases "table_get g s")
    case (Some rs)
    then have "(s, rs) \<in> set g" by (rule table_get_key)
    then obtain xs ys where "g = xs @ (s, rs) # ys" by (meson split_list)
    with that Some show ?thesis
      by (auto simp: reg_wf_def reg_all_def replicas_of_def)
  qed (simp add: replicas_of_def)
qed (auto simp: reg_wf_remove reg_wf_update replicas_of_remove replicas_of_update reg_ids_iff
      dest: replicas_of_spec replicas_of_id_unique)

end
