(* ===== verification/Session_Store.thy ===== *)
theory Session_Store
  imports Core_Registry
begin

text \<open>
  \<open>InMemorySessionStore\<close> (\<open>crates/ruscker-admin/src/sessions.rs\<close>) and its seat accounting in the
  registry. Instants are nanoseconds of the monotonic clock. An operation that takes a lock per
  map access is split where another task can run in between: the sweeper first collects its
  victims and then removes them one by one, so \<open>sweep\<close> is \<open>sweep_victims\<close> followed by one
  \<open>evict1\<close> per victim. The property to keep is the ledger: a replica's \<open>sessions_active\<close> is the
  number of sessions bound to it plus the seats reserved by requests not yet registered.
\<close>

section \<open>The store and its operations\<close>

record session_entry =
  se_spec :: string
  se_replica :: replica_id
  se_last_seen :: nat

type_synonym session_store = "(uuid, session_entry) table"

datatype touch_outcome = Registered | Touched

definition touch_or_register ::
    "nat \<Rightarrow> uuid \<Rightarrow> string \<Rightarrow> replica_id \<Rightarrow> bool \<Rightarrow> session_store \<times> registry \<Rightarrow>
     touch_outcome \<times> session_store \<times> registry" where
  "touch_or_register now sid spec rid seat_reserved sr = (case sr of (st, reg) \<Rightarrow>
     (case table_get st sid of
        Some e \<Rightarrow> (Touched, table_put sid (e\<lparr>se_last_seen := now\<rparr>) st, reg)
      | None \<Rightarrow>
          (Registered,
           table_put sid \<lparr>se_spec = spec, se_replica = rid, se_last_seen = now\<rparr> st,
           if seat_reserved then reg else inc_sessions rid reg)))"

definition effective_ms :: "int \<Rightarrow> (string \<rightharpoonup> int) \<Rightarrow> string \<Rightarrow> int" where
  "effective_ms global_ms overrides spec =
     (case overrides spec of None \<Rightarrow> global_ms | Some ms \<Rightarrow> ms)"

definition expired :: "nat \<Rightarrow> int \<Rightarrow> (string \<rightharpoonup> int) \<Rightarrow> session_entry \<Rightarrow> bool" where
  "expired now global_ms overrides e =
     (let eff_ms = effective_ms global_ms overrides (se_spec e) in
      if eff_ms < 0 then False
      else now - se_last_seen e > nat eff_ms * 1000000)"

definition sweep_victims ::
    "nat \<Rightarrow> int \<Rightarrow> (string \<rightharpoonup> int) \<Rightarrow> session_store \<Rightarrow> (uuid \<times> replica_id) list" where
  "sweep_victims now global_ms overrides st =
     map (\<lambda>(sid, e). (sid, se_replica e)) (filter (\<lambda>(_, e). expired now global_ms overrides e) st)"

definition evict1 ::
    "uuid \<times> replica_id \<Rightarrow> session_store \<times> registry \<Rightarrow> bool \<times> session_store \<times> registry" where
  "evict1 v sr = (case (v, sr) of ((sid, rid), (st, reg)) \<Rightarrow>
     (case table_get st sid of
        Some _ \<Rightarrow> (True, table_del sid st, dec_sessions rid reg)
      | None \<Rightarrow> (False, st, reg)))"

fun evict_all ::
    "(uuid \<times> replica_id) list \<Rightarrow> session_store \<times> registry \<Rightarrow> nat \<times> session_store \<times> registry" where
  "evict_all [] sr = (0, sr)"
| "evict_all (v # vs) sr =
     (case evict1 v sr of (hit, sr') \<Rightarrow>
        (case evict_all vs sr' of (n, sr'') \<Rightarrow> ((if hit then 1 else 0) + n, sr'')))"

definition session_sweep ::
    "nat \<Rightarrow> int \<Rightarrow> (string \<rightharpoonup> int) \<Rightarrow> session_store \<times> registry \<Rightarrow>
     nat \<times> session_store \<times> registry" where
  "session_sweep now global_ms overrides sr =
     (let victims = sweep_victims now global_ms overrides (fst sr) in
      if victims = [] then (0, sr) else evict_all victims sr)"

definition drop_replica :: "replica_id \<Rightarrow> session_store \<Rightarrow> nat \<times> session_store" where
  "drop_replica rid st =
     (let victims = map fst (filter (\<lambda>(_, e). se_replica e = rid) st)
      in (length victims, foldl (\<lambda>t sid. table_del sid t) st victims))"

definition end_session ::
    "uuid \<Rightarrow> session_store \<times> registry \<Rightarrow> bool \<times> session_store \<times> registry" where
  "end_session sid sr = (case sr of (st, reg) \<Rightarrow>
     (case table_get st sid of
        Some e \<Rightarrow> (True, table_del sid st, dec_sessions (se_replica e) reg)
      | None \<Rightarrow> (False, st, reg)))"

section \<open>Sessions per replica\<close>

definition sessions_on :: "replica_id \<Rightarrow> session_store \<Rightarrow> nat" where
  "sessions_on rid st = table_sum (\<lambda>e. of_bool (se_replica e = rid)) st"

lemma sessions_on_new:
  "table_wf st \<Longrightarrow> table_get st sid = None \<Longrightarrow>
     sessions_on rid (table_put sid e st) = sessions_on rid st + of_bool (se_replica e = rid)"
  using table_sum_put [of st "\<lambda>e. of_bool (se_replica e = rid) :: nat" sid e]
  by (simp add: sessions_on_def)

lemma sessions_on_touch:
  "table_wf st \<Longrightarrow> table_get st sid = Some e \<Longrightarrow>
     sessions_on rid (table_put sid (e\<lparr>se_last_seen := now\<rparr>) st) = sessions_on rid st"
  using table_sum_put [of st "\<lambda>e. of_bool (se_replica e = rid) :: nat" sid "e\<lparr>se_last_seen := now\<rparr>"]
  by (simp add: sessions_on_def)

lemma sessions_on_del:
  "table_wf st \<Longrightarrow> table_get st sid = Some e \<Longrightarrow>
     sessions_on rid (table_del sid st) + of_bool (se_replica e = rid) = sessions_on rid st"
  using table_sum_del [of st "\<lambda>e. of_bool (se_replica e = rid) :: nat" sid]
  by (simp add: sessions_on_def)

lemma table_get_filter_rows:
  "table_wf st \<Longrightarrow> table_get (filter (\<lambda>(k, v). P k v) st) k =
     (case table_get st k of None \<Rightarrow> None | Some v \<Rightarrow> if P k v then Some v else None)"
  using table_get_retain [of st P k] by (simp add: table_retain_def)

lemma drop_replica_filter:
  assumes "table_wf st"
  shows "snd (drop_replica rid st) = filter (\<lambda>(_, e). se_replica e \<noteq> rid) st"
proof -
  have "k \<in> fst ` set (filter (\<lambda>(_, e). se_replica e = rid) st) \<longleftrightarrow> se_replica e = rid"
    if "(k, e) \<in> set st" for k e
    using that assms by (force simp: table_wf_def dest: eq_key_imp_eq_value)
  then show ?thesis
    unfolding drop_replica_def Let_def snd_conv foldl_table_del set_map
    by (intro filter_cong) auto
qed

lemma sessions_on_filter:
  "sessions_on rid (filter (\<lambda>(_, e). se_replica e \<noteq> rid') st) = (if rid = rid' then 0 else sessions_on rid st)"
  by (induction st) (auto simp: sessions_on_def table_sum_def)

lemma drop_replica_count:
  "fst (drop_replica rid st) = sessions_on rid st"
  by (induction st) (auto simp: drop_replica_def sessions_on_def table_sum_def Let_def)

section \<open>What a sweep does\<close>

lemma evict_all_present:
  "table_wf st \<Longrightarrow> distinct (map fst vs) \<Longrightarrow> \<forall>v \<in> set vs. table_get st (fst v) \<noteq> None \<Longrightarrow>
     evict_all vs (st, reg) =
       (length vs, foldl (\<lambda>t sid. table_del sid t) st (map fst vs),
        foldl (\<lambda>reg rid. dec_sessions rid reg) reg (map snd vs))"
proof (induction vs arbitrary: st reg)
  case (Cons v vs)
  obtain sid rid where v: "v = (sid, rid)" by (cases v)
  from Cons.prems v obtain e where "table_get st sid = Some e" by auto
  moreover from Cons.prems v have "\<forall>u \<in> set vs. table_get (table_del sid st) (fst u) \<noteq> None"
    by force
  ultimately show ?case using Cons v by (simp add: evict1_def)
qed simp

lemma sweep_victims_sids:
  assumes "table_wf st"
  shows "distinct (map fst (sweep_victims now g ov st))"
    and "\<forall>v \<in> set (sweep_victims now g ov st). \<exists>e. table_get st (fst v) = Some e \<and> snd v = se_replica e"
proof -
  have "map fst (sweep_victims now g ov st) = map fst (filter (\<lambda>(_, e). expired now g ov e) st)"
    by (simp add: sweep_victims_def comp_def case_prod_unfold)
  with assms show "distinct (map fst (sweep_victims now g ov st))"
    by (simp add: table_wf_def distinct_map_filter)
  show "\<forall>v \<in> set (sweep_victims now g ov st). \<exists>e. table_get st (fst v) = Some e \<and> snd v = se_replica e"
    using assms by (auto simp: sweep_victims_def table_get_mem)
qed

lemma session_sweep_eq:
  assumes wf: "table_wf st"
  shows "session_sweep now g ov (st, reg) =
     (count_if (\<lambda>(_, e). expired now g ov e) st,
      filter (\<lambda>(_, e). \<not> expired now g ov e) st,
      foldl (\<lambda>reg rid. dec_sessions rid reg) reg (map snd (sweep_victims now g ov st)))"
proof -
  let ?v = "sweep_victims now g ov st"
  note v = sweep_victims_sids [OF wf, of now g ov]
  have "evict_all ?v (st, reg) = (length ?v, foldl (\<lambda>t sid. table_del sid t) st (map fst ?v),
      foldl (\<lambda>reg rid. dec_sessions rid reg) reg (map snd ?v))"
    using v by (intro evict_all_present [OF wf]) auto
  moreover have "foldl (\<lambda>t sid. table_del sid t) st (map fst ?v) =
      filter (\<lambda>(_, e). \<not> expired now g ov e) st"
  proof -
    have "k \<in> fst ` set ?v \<longleftrightarrow> expired now g ov e" if "(k, e) \<in> set st" for k e
      using that wf by (force simp: sweep_victims_def table_wf_def dest: eq_key_imp_eq_value)
    then show ?thesis unfolding foldl_table_del set_map by (intro filter_cong) auto
  qed
  moreover have "length ?v = count_if (\<lambda>(_, e). expired now g ov e) st"
    by (simp add: sweep_victims_def count_if_def)
  moreover have "?v = [] \<longleftrightarrow> evict_all ?v (st, reg) = (0, st, reg) \<and> ?v = []" by auto
  ultimately show ?thesis by (auto simp: session_sweep_def Let_def)
qed

section \<open>The seat ledger\<close>

record seat_state =
  ss_store :: session_store
  ss_reg :: registry
  ss_reserved :: "replica_id list"
  ss_pending :: "(uuid \<times> replica_id) list"

text \<open>
  What the tasks of the program do to the store and the registry: a pick reserves a seat (or gives
  it back when the request fails first), a request registers or touches its session, the sweeper
  collects and then removes, a logout ends a session, a replica is forgotten, is found restarting,
  or is added.
\<close>

datatype seat_event =
    EReserve replica_id
  | ERelease replica_id
  | ETouch nat uuid string replica_id bool
  | ECollect nat int "string \<rightharpoonup> int"
  | EEvict
  | EEnd uuid
  | EForget replica_id
  | ERestart replica_id timestamp
  | EAdopt replica

definition seat_step :: "seat_event \<Rightarrow> seat_state \<Rightarrow> seat_state" where
  "seat_step ev s = (case ev of
     EReserve rid \<Rightarrow> s\<lparr>ss_reg := inc_sessions rid (ss_reg s), ss_reserved := rid # ss_reserved s\<rparr>
   | ERelease rid \<Rightarrow> s\<lparr>ss_reg := dec_sessions rid (ss_reg s), ss_reserved := remove1 rid (ss_reserved s)\<rparr>
   | ETouch now sid spec rid b \<Rightarrow>
       (case touch_or_register now sid spec rid b (ss_store s, ss_reg s) of (_, st, reg) \<Rightarrow>
          s\<lparr>ss_store := st, ss_reg := reg,
            ss_reserved := (if b then remove1 rid (ss_reserved s) else ss_reserved s)\<rparr>)
   | ECollect now g ov \<Rightarrow> s\<lparr>ss_pending := ss_pending s @ sweep_victims now g ov (ss_store s)\<rparr>
   | EEvict \<Rightarrow>
       (case ss_pending s of [] \<Rightarrow> s
        | v # vs \<Rightarrow> (case evict1 v (ss_store s, ss_reg s) of (_, st, reg) \<Rightarrow>
            s\<lparr>ss_store := st, ss_reg := reg, ss_pending := vs\<rparr>))
   | EEnd sid \<Rightarrow> (case end_session sid (ss_store s, ss_reg s) of (_, st, reg) \<Rightarrow>
       s\<lparr>ss_store := st, ss_reg := reg\<rparr>)
   | EForget rid \<Rightarrow> s\<lparr>ss_reg := snd (reg_remove rid (ss_reg s)),
       ss_store := snd (drop_replica rid (ss_store s))\<rparr>
   | ERestart rid t \<Rightarrow> s\<lparr>ss_reg := snd (mark_restarting rid t (ss_reg s)),
       ss_store := snd (drop_replica rid (ss_store s))\<rparr>
   | EAdopt r \<Rightarrow> s\<lparr>ss_reg := reg_upsert r (ss_reg s)\<rparr>)"

definition has_room :: "replica_id \<Rightarrow> registry \<Rightarrow> bool" where
  "has_room rid reg \<longleftrightarrow>
     list_all (\<lambda>r. r_id r = rid \<longrightarrow> unat (r_sessions_active r) < 2 ^ 32 - 1) (reg_all reg)"

text \<open>
  The guards: a session id is bound to one replica (the signed cookie carries both, and a fresh id
  is a new UUID), only a reserved seat is handed over or given back, a seat handed over goes to an
  unknown session, no counter is at its 32-bit maximum, a replica found restarting has no
  reservation in flight, and an added replica starts empty with no session left from before.
\<close>

definition seat_ok :: "(uuid \<Rightarrow> replica_id) \<Rightarrow> seat_state \<Rightarrow> seat_event \<Rightarrow> bool" where
  "seat_ok bind s ev \<longleftrightarrow> (case ev of
     EReserve rid \<Rightarrow> has_room rid (ss_reg s)
   | ERelease rid \<Rightarrow> rid \<in> set (ss_reserved s)
   | ETouch now sid spec rid b \<Rightarrow> bind sid = rid \<and>
       (if b then rid \<in> set (ss_reserved s) \<and> table_get (ss_store s) sid = None
        else has_room rid (ss_reg s))
   | ERestart rid t \<Rightarrow> rid \<notin> set (ss_reserved s)
   | EAdopt r \<Rightarrow> r_sessions_active r = 0 \<and> sessions_on (r_id r) (ss_store s) = 0
       \<and> r_id r \<notin> set (ss_reserved s)
   | _ \<Rightarrow> True)"

definition seats :: "session_store \<Rightarrow> replica_id list \<Rightarrow> replica_id \<Rightarrow> nat" where
  "seats st res i = sessions_on i st + count_list res i"

definition ledger :: "session_store \<Rightarrow> replica_id list \<Rightarrow> registry \<Rightarrow> bool" where
  "ledger st res reg \<longleftrightarrow>
     (\<forall>r \<in> set (reg_all reg). unat (r_sessions_active r) = seats st res (r_id r))"

definition seat_inv :: "(uuid \<Rightarrow> replica_id) \<Rightarrow> seat_state \<Rightarrow> bool" where
  "seat_inv bind s \<longleftrightarrow> reg_wf (ss_reg s) \<and> table_wf (ss_store s)
     \<and> (\<forall>(sid, e) \<in> set (ss_store s). se_replica e = bind sid)
     \<and> (\<forall>(sid, rid) \<in> set (ss_pending s). rid = bind sid)
     \<and> ledger (ss_store s) (ss_reserved s) (ss_reg s)"

lemma ledger_update:
  assumes "reg_wf reg" and led: "ledger st res reg" and "\<And>x. r_id (f x) = r_id x"
    and other: "\<And>i. i \<noteq> rid \<Longrightarrow> seats st' res' i = seats st res i"
    and here: "\<And>r. r \<in> set (reg_all reg) \<Longrightarrow> r_id r = rid \<Longrightarrow>
      unat (r_sessions_active (f r)) = seats st' res' rid"
  shows "ledger st' res' (reg_update rid f reg)"
  using assms by (auto simp: ledger_def reg_all_update)

lemma ledger_same: "(\<And>i. seats st' res' i = seats st res i) \<Longrightarrow> ledger st res reg \<Longrightarrow> ledger st' res' reg"
  by (simp add: ledger_def)

lemma ledgerD: "ledger st res reg \<Longrightarrow> r \<in> set (reg_all reg) \<Longrightarrow>
    unat (r_sessions_active r) = seats st res (r_id r)"
  by (simp add: ledger_def)

lemma ledger_inc:
  assumes "reg_wf reg" "ledger st res reg" "has_room rid reg"
    and "\<And>i. seats st' res' i = seats st res i + of_bool (i = rid)"
  shows "ledger st' res' (inc_sessions rid reg)"
  unfolding inc_sessions_def
proof (rule ledger_update [OF assms(1,2)])
  show "seats st' res' i = seats st res i" if "i \<noteq> rid" for i using assms(4) [of i] that by simp
  show "unat (r_sessions_active (r\<lparr>r_sessions_active := sat_add (r_sessions_active r) 1\<rparr>)) = seats st' res' rid"
    if "r \<in> set (reg_all reg)" "r_id r = rid" for r
  proof -
    have "unat (r_sessions_active r) < 2 ^ 32 - 1"
      using assms(3) that by (simp add: has_room_def list_all_iff)
    then show ?thesis
      using assms(4) [of rid] ledgerD [OF assms(2) that(1)] that(2) by (simp add: sat_simps)
  qed
qed simp

lemma ledger_dec:
  assumes "reg_wf reg" "ledger st res reg"
    and "\<And>i. seats st' res' i + of_bool (i = rid) = seats st res i"
  shows "ledger st' res' (dec_sessions rid reg)"
  unfolding dec_sessions_def
proof (rule ledger_update [OF assms(1,2)])
  show "seats st' res' i = seats st res i" if "i \<noteq> rid" for i using assms(3) [of i] that by simp
  show "unat (r_sessions_active (r\<lparr>r_sessions_active := sat_sub (r_sessions_active r) 1\<rparr>)) = seats st' res' rid"
    if "r \<in> set (reg_all reg)" "r_id r = rid" for r
    using assms(3) [of rid] ledgerD [OF assms(2) that(1)] that(2) by (simp add: sat_simps)
qed simp

lemma ledger_forget:
  "reg_wf reg \<Longrightarrow> table_wf st \<Longrightarrow> ledger st res reg \<Longrightarrow>
     ledger (snd (drop_replica rid st)) res (snd (reg_remove rid reg))"
  by (auto simp: ledger_def seats_def reg_all_remove drop_replica_filter sessions_on_filter)

lemma mark_restarting_reg:
  "snd (mark_restarting rid t reg) =
     reg_update rid (\<lambda>r. r\<lparr>r_state := Stopped, r_started_at := t, r_sessions_active := 0\<rparr>) reg"
  by (simp add: mark_restarting_def reg_update_def split: option.split)

lemma count_list_zero_iff: "count_list xs x = 0 \<longleftrightarrow> x \<notin> set xs"
  by (induction xs) auto

lemma ledger_restart:
  assumes "reg_wf reg" "table_wf st" "ledger st res reg" "rid \<notin> set res"
  shows "ledger (snd (drop_replica rid st)) res (snd (mark_restarting rid t reg))"
  unfolding mark_restarting_reg using assms
  by (intro ledger_update [of reg st res])
    (auto simp: seats_def drop_replica_filter sessions_on_filter count_list_zero_iff)

lemma reg_all_upsert_set:
  assumes "reg_wf reg"
  shows "set (reg_all (reg_upsert r reg)) = insert r {x \<in> set (reg_all reg). r_id x \<noteq> r_id r}"
proof -
  have "set (reg_all (reg_add r g)) = insert r (set (reg_all g))" for g
    by (metis reg_all_add_mset set_mset_add_mset_insert set_mset_mset)
  with assms show ?thesis by (simp add: reg_upsert_def reg_all_remove)
qed

lemma ledger_adopt:
  assumes "reg_wf reg" "ledger st res reg" "r_sessions_active r = 0" "seats st res (r_id r) = 0"
  shows "ledger st res (reg_upsert r reg)"
  using assms by (auto simp: ledger_def reg_all_upsert_set)

section \<open>Every step keeps the ledger\<close>

lemma seat_invD:
  assumes "seat_inv bind s"
  shows seat_reg_wf: "reg_wf (ss_reg s)" and seat_store_wf: "table_wf (ss_store s)"
    and seat_bind: "\<And>sid e. (sid, e) \<in> set (ss_store s) \<Longrightarrow> se_replica e = bind sid"
    and seat_pending: "\<And>sid rid. (sid, rid) \<in> set (ss_pending s) \<Longrightarrow> rid = bind sid"
    and seat_ledger: "ledger (ss_store s) (ss_reserved s) (ss_reg s)"
  using assms by (auto simp: seat_inv_def)

lemma seat_bind_get: "seat_inv bind s \<Longrightarrow> table_get (ss_store s) sid = Some e \<Longrightarrow> se_replica e = bind sid"
  by (simp add: seat_invD table_get_mem [symmetric] seat_bind [of bind])

lemma reg_wf_inc: "reg_wf reg \<Longrightarrow> reg_wf (inc_sessions rid reg)"
  by (simp add: inc_sessions_def reg_wf_update)

lemma reg_wf_dec: "reg_wf reg \<Longrightarrow> reg_wf (dec_sessions rid reg)"
  by (simp add: dec_sessions_def reg_wf_update)

lemma reg_wf_upsert: "reg_wf reg \<Longrightarrow> reg_wf (reg_upsert r reg)"
  using rp.inv_upsert by (simp add: reg_upsert_def)

lemma reg_wf_restart: "reg_wf reg \<Longrightarrow> reg_wf (snd (mark_restarting rid t reg))"
  by (simp add: mark_restarting_reg reg_wf_update)

lemma count_list_remove1: "x \<in> set xs \<Longrightarrow> count_list (remove1 x xs) y + of_bool (y = x) = count_list xs y"
  by (induction xs) auto

lemma rows_put:
  "(k', v') \<in> set (table_put k v t) \<Longrightarrow> (k' = k \<and> v' = v) \<or> (k', v') \<in> set t"
  by (rule rows_table_put)

lemma rows_del: "(k', v') \<in> set (table_del k t) \<Longrightarrow> (k', v') \<in> set t"
  by (auto simp: table_del_def)

lemma inv_touch:
  assumes inv: "seat_inv bind s" and ok: "seat_ok bind s (ETouch now sid spec rid b)"
  shows "seat_inv bind (seat_step (ETouch now sid spec rid b) s)"
proof (cases "table_get (ss_store s) sid")
  case (Some e)
  let ?st = "table_put sid (e\<lparr>se_last_seen := now\<rparr>) (ss_store s)"
  from ok Some have b: "\<not> b" by (auto simp: seat_ok_def)
  have "seats ?st res i = seats (ss_store s) res i" for res i
    using sessions_on_touch [OF seat_store_wf [OF inv] Some] by (simp add: seats_def)
  then have "ledger ?st (ss_reserved s) (ss_reg s)"
    using seat_ledger [OF inv] by (rule ledger_same)
  moreover have "\<forall>(k, x) \<in> set ?st. se_replica x = bind k"
    using inv seat_bind_get [OF inv Some] by (auto dest!: rows_put seat_bind [OF inv])
  ultimately show ?thesis
    using inv Some b by (simp add: seat_step_def touch_or_register_def seat_inv_def)
next
  case None
  let ?e = "\<lparr>se_spec = spec, se_replica = rid, se_last_seen = now\<rparr>"
  let ?st = "table_put sid ?e (ss_store s)"
  from ok have rid: "bind sid = rid" by (simp add: seat_ok_def)
  have n: "sessions_on i ?st = sessions_on i (ss_store s) + of_bool (i = rid)" for i
    using sessions_on_new [OF seat_store_wf [OF inv] None, of i ?e] by auto
  have bnd: "\<forall>(k, x) \<in> set ?st. se_replica x = bind k"
    using rid by (auto dest!: rows_put seat_bind [OF inv])
  show ?thesis
  proof (cases b)
    case True
    with ok have "rid \<in> set (ss_reserved s)" by (simp add: seat_ok_def)
    then have "seats ?st (remove1 rid (ss_reserved s)) i = seats (ss_store s) (ss_reserved s) i" for i
      using n [of i] count_list_remove1 [of rid "ss_reserved s" i] by (simp add: seats_def)
    then have "ledger ?st (remove1 rid (ss_reserved s)) (ss_reg s)"
      using seat_ledger [OF inv] by (rule ledger_same)
    with True None inv bnd show ?thesis
      by (simp add: seat_step_def touch_or_register_def seat_inv_def)
  next
    case False
    with ok have room: "has_room rid (ss_reg s)" by (simp add: seat_ok_def)
    have "ledger ?st (ss_reserved s) (inc_sessions rid (ss_reg s))"
      by (rule ledger_inc [OF seat_reg_wf [OF inv] seat_ledger [OF inv] room]) (simp add: seats_def n)
    with False None inv bnd show ?thesis
      by (simp add: seat_step_def touch_or_register_def seat_inv_def reg_wf_inc)
  qed
qed

lemma inv_removed:
  assumes inv: "seat_inv bind s" and e: "table_get (ss_store s) sid = Some e"
  shows "ledger (table_del sid (ss_store s)) (ss_reserved s) (dec_sessions (bind sid) (ss_reg s))"
proof (rule ledger_dec [OF seat_reg_wf [OF inv] seat_ledger [OF inv]])
  show "seats (table_del sid (ss_store s)) (ss_reserved s) i + of_bool (i = bind sid) =
      seats (ss_store s) (ss_reserved s) i" for i
    using sessions_on_del [OF seat_store_wf [OF inv] e, of i] seat_bind_get [OF inv e]
    by (auto simp: seats_def)
qed

lemma inv_evict:
  assumes inv: "seat_inv bind s"
  shows "seat_inv bind (seat_step EEvict s)"
proof (cases "ss_pending s")
  case (Cons v vs)
  obtain sid rid where v: "v = (sid, rid)" by (cases v)
  have rid: "rid = bind sid" using seat_pending [OF inv] Cons v by auto
  show ?thesis
  proof (cases "table_get (ss_store s) sid")
    case (Some e)
    from inv_removed [OF inv Some] inv Cons v rid Some show ?thesis
      by (auto simp: seat_step_def evict1_def seat_inv_def reg_wf_dec dest!: rows_del)
  qed (use inv Cons v in \<open>auto simp: seat_step_def evict1_def seat_inv_def\<close>)
qed (use inv in \<open>simp add: seat_step_def\<close>)

lemma inv_end:
  assumes inv: "seat_inv bind s"
  shows "seat_inv bind (seat_step (EEnd sid) s)"
proof (cases "table_get (ss_store s) sid")
  case (Some e)
  from inv_removed [OF inv Some] inv Some seat_bind_get [OF inv Some] show ?thesis
    by (auto simp: seat_step_def end_session_def seat_inv_def reg_wf_dec dest!: rows_del)
qed (use inv in \<open>simp add: seat_step_def end_session_def\<close>)

lemma inv_collect:
  "seat_inv bind s \<Longrightarrow> seat_inv bind (seat_step (ECollect now g ov) s)"
  by (auto simp: seat_step_def seat_inv_def sweep_victims_def)

lemma inv_reserve:
  assumes inv: "seat_inv bind s" and ok: "seat_ok bind s (EReserve rid)"
  shows "seat_inv bind (seat_step (EReserve rid) s)"
proof -
  from ok have "has_room rid (ss_reg s)" by (simp add: seat_ok_def)
  then have "ledger (ss_store s) (rid # ss_reserved s) (inc_sessions rid (ss_reg s))"
    by (rule ledger_inc [OF seat_reg_wf [OF inv] seat_ledger [OF inv]]) (auto simp: seats_def)
  with inv show ?thesis by (simp add: seat_step_def seat_inv_def reg_wf_inc)
qed

lemma inv_release:
  assumes inv: "seat_inv bind s" and ok: "seat_ok bind s (ERelease rid)"
  shows "seat_inv bind (seat_step (ERelease rid) s)"
proof -
  from ok have "rid \<in> set (ss_reserved s)" by (simp add: seat_ok_def)
  then have "seats (ss_store s) (remove1 rid (ss_reserved s)) i + of_bool (i = rid) =
      seats (ss_store s) (ss_reserved s) i" for i
    using count_list_remove1 [of rid "ss_reserved s" i] by (simp add: seats_def)
  then have "ledger (ss_store s) (remove1 rid (ss_reserved s)) (dec_sessions rid (ss_reg s))"
    by (rule ledger_dec [OF seat_reg_wf [OF inv] seat_ledger [OF inv]])
  with inv show ?thesis by (simp add: seat_step_def seat_inv_def reg_wf_dec)
qed

lemma table_wf_filter: "table_wf t \<Longrightarrow> table_wf (filter P t)"
  by (simp add: table_wf_def distinct_map_filter)

lemma seat_step_inv:
  assumes inv: "seat_inv bind s" and ok: "seat_ok bind s ev"
  shows "seat_inv bind (seat_step ev s)"
proof (cases ev)
  case (EForget rid)
  have "ledger (snd (drop_replica rid (ss_store s))) (ss_reserved s) (snd (reg_remove rid (ss_reg s)))"
    using inv by (simp add: ledger_forget seat_invD)
  with inv EForget show ?thesis
    by (auto simp: seat_step_def seat_inv_def reg_wf_remove drop_replica_filter table_wf_filter)
next
  case (ERestart rid t)
  with ok have "rid \<notin> set (ss_reserved s)" by (simp add: seat_ok_def)
  with inv have "ledger (snd (drop_replica rid (ss_store s))) (ss_reserved s)
      (snd (mark_restarting rid t (ss_reg s)))" by (simp add: ledger_restart seat_invD)
  with inv ERestart show ?thesis
    by (auto simp: seat_step_def seat_inv_def reg_wf_restart drop_replica_filter table_wf_filter)
next
  case (EAdopt r)
  with ok have "ledger (ss_store s) (ss_reserved s) (reg_upsert r (ss_reg s))"
    by (intro ledger_adopt seat_reg_wf [OF inv] seat_ledger [OF inv])
      (auto simp: seat_ok_def seats_def count_list_zero_iff)
  with inv EAdopt show ?thesis by (simp add: seat_step_def seat_inv_def reg_wf_upsert)
qed (use assms in \<open>auto intro: inv_touch inv_evict inv_end inv_collect inv_reserve inv_release\<close>)

interpretation seat: guarded_machine "seat_ok bind" seat_step "seat_inv bind" for bind
  by unfold_locales (rule seat_step_inv)

lemma decs_view:
  "reg_wf reg \<Longrightarrow>
     map (\<lambda>r. (r_id r, unat (r_sessions_active r)))
         (replicas_of (foldl (\<lambda>reg rid. dec_sessions rid reg) reg rids) s) =
     map (\<lambda>r. (r_id r, unat (r_sessions_active r) - count_list rids (r_id r))) (replicas_of reg s)"
proof (induction rids arbitrary: reg)
  case (Cons rid rids)
  have "map (\<lambda>r. (r_id r, unat (r_sessions_active r)))
        (replicas_of (foldl (\<lambda>reg rid. dec_sessions rid reg) (dec_sessions rid reg) rids) s) =
      map (\<lambda>r. (r_id r, unat (r_sessions_active r) - count_list rids (r_id r)))
        (replicas_of (dec_sessions rid reg) s)"
    by (rule Cons.IH [OF reg_wf_dec [OF Cons.prems]])
  also have "\<dots> = map (\<lambda>r. (r_id r, unat (r_sessions_active r) - count_list (rid # rids) (r_id r)))
        (replicas_of reg s)"
    using Cons.prems by (simp add: dec_sessions_def rp.pool_modify sat_simps)
  finally show ?case by simp
qed simp

section \<open>Properties\<close>

definition seat_init :: seat_state where
  "seat_init = \<lparr>ss_store = [], ss_reg = [], ss_reserved = [], ss_pending = []\<rparr>"

lemma seat_inv_init: "seat_inv bind seat_init"
  by (simp add: seat_inv_def seat_init_def ledger_def)


definition demo_replica :: replica where
  "demo_replica = \<lparr>r_id = 7, r_spec_id = ''app'', r_container_id = ''c'', r_upstream = ''u'',
     r_state = Ready, r_started_at = 0, r_sessions_active = 0, r_sessions_max = 10, r_host = None\<rparr>"

text \<open>A seat is reserved and handed over; the sweeper and a logout then both evict the session.\<close>

definition demo_events :: "seat_event list" where
  "demo_events = [EAdopt demo_replica, EReserve 7, ETouch 0 1 ''app'' 7 True, EReserve 7,
     ECollect 10000000 5 Map.empty, EEnd 1, EEvict]"

lemmas demo_run = demo_events_def seat_step_def seat_init_def reg_upsert_def reg_add_def
  replicas_of_def table_get_def table_put_def table_del_def inc_sessions_def dec_sessions_def
  reg_update_def touch_or_register_def sweep_victims_def expired_def effective_ms_def end_session_def
  evict1_def demo_replica_def sat_add_def sat_sub_def


text \<open>
  One sweeper pass evicts exactly the sessions idle for longer than their timeout, where the
  timeout is the spec's own when it sets one and the global one otherwise, and a negative timeout
  never expires; it reports how many it evicted, and takes each evicted session's seat, and no
  other, off its replica.
\<close>

theorem session_sweep_exact:
  assumes "table_wf st" and "reg_wf reg"
    and sweep: "session_sweep now global overrides (st, reg) = (n, st', reg')"
  shows "table_get st' sid =
      (case table_get st sid of None \<Rightarrow> None
       | Some e \<Rightarrow>
           let ms = effective_ms global overrides (se_spec e) in
           if ms \<ge> 0 \<and> now - se_last_seen e > nat ms * 1000000 then None else Some e)
    \<and> n + length st' = length st
    \<and> map (\<lambda>r. (r_id r, unat (r_sessions_active r))) (replicas_of reg' spec) =
      map (\<lambda>r. (r_id r, unat (r_sessions_active r) - (sessions_on (r_id r) st - sessions_on (r_id r) st')))
        (replicas_of reg spec)"
proof -
  let ?X = "\<lambda>e. expired now global overrides e"
  from sweep session_sweep_eq [OF assms(1)]
  have n: "n = count_if (\<lambda>(_, e). ?X e) st" and st': "st' = filter (\<lambda>(_, e). \<not> ?X e) st"
    and reg': "reg' = foldl (\<lambda>reg rid. dec_sessions rid reg) reg (map snd (sweep_victims now global overrides st))"
    by auto
  have cnt: "count_list (map snd (sweep_victims now global overrides st)) i =
      sessions_on i st - sessions_on i st'" for i
  proof -
    have "count_list (map snd (sweep_victims now global overrides st)) i + sessions_on i st' = sessions_on i st"
      unfolding st' by (induction st) (auto simp: sweep_victims_def sessions_on_def table_sum_def)
    then show ?thesis by simp
  qed
  have "table_get st' sid = (case table_get st sid of None \<Rightarrow> None | Some e \<Rightarrow> if ?X e then None else Some e)"
    unfolding st' using table_get_filter_rows [OF assms(1), of "\<lambda>_ e. \<not> ?X e" sid]
    by (simp split: option.splits)
  moreover have "n + length st' = length st"
    unfolding n st' count_if_def using sum_length_filter_compl [of "\<lambda>(_, e). ?X e" st]
    by (simp add: case_prod_unfold)
  moreover note decs_view [OF assms(2), of "map snd (sweep_victims now global overrides st)" spec]
  ultimately show ?thesis
    unfolding reg' cnt by (auto simp: expired_def Let_def split: option.splits)
qed

lemma session_sweep_exact_witness:
  "table_get (fst (snd (session_sweep 10000000 5 [''pinned'' \<mapsto> - 1]
      ([(1, \<lparr>se_spec = ''app'', se_replica = 7, se_last_seen = 0\<rparr>),
        (2, \<lparr>se_spec = ''pinned'', se_replica = 7, se_last_seen = 0\<rparr>)], [])))) 1 = None"
proof -
  let ?st = "[(1, \<lparr>se_spec = ''app'', se_replica = 7, se_last_seen = 0\<rparr>),
        (2, \<lparr>se_spec = ''pinned'', se_replica = 7, se_last_seen = 0\<rparr>)] :: session_store"
  have wf: "table_wf ?st" by (simp add: table_wf_def)
  obtain n st' reg' where e: "session_sweep 10000000 5 [''pinned'' \<mapsto> - 1] (?st, []) = (n, st', reg')"
    by (metis prod_cases3)
  from session_sweep_exact [OF wf reg_wf_Nil e, of 1] e show ?thesis
    by (simp add: table_get_def effective_ms_def)
qed

end
