(* ===== verification/Config_Rate.thy ===== *)
theory Config_Rate
  imports Rust_Text
begin

text \<open>
  The \<open>api\<close> block of a spec and its rate limit (\<open>crates/ruscker-config/src/schema.rs\<close>).
  A \<open>Duration\<close> is a number of nanoseconds.
\<close>

section \<open>The API block\<close>

record api_spec =
  api_port :: "u16 option"
  api_docs_path :: "string option"
  api_health_path :: "string option"
  api_rate_limit :: "string option"
  api_cors :: bool

definition api_default :: api_spec where
  "api_default = \<lparr>api_port = None, api_docs_path = None, api_health_path = None,
     api_rate_limit = None, api_cors = False\<rparr>"

record rate_policy =
  rp_max :: u32
  rp_window :: nat

definition secs :: "nat \<Rightarrow> nat" where
  "secs n = n * 1000000000"

definition rate_window :: "string \<Rightarrow> nat option" where
  "rate_window u =
     (if u \<in> {''s'', ''sec'', ''secs'', ''second'', ''seconds''} then Some (secs 1)
      else if u \<in> {''m'', ''min'', ''mins'', ''minute'', ''minutes''} then Some (secs 60)
      else if u \<in> {''h'', ''hr'', ''hrs'', ''hour'', ''hours''} then Some (secs 3600)
      else None)"

definition parse_rate_limit :: "string \<Rightarrow> rate_policy option" where
  "parse_rate_limit raw =
     (case split_once CHR ''/'' raw of
        None \<Rightarrow> None
      | Some (count, unit) \<Rightarrow>
          (case parse_unsigned 32 (trim count) of
             None \<Rightarrow> None
           | Some n \<Rightarrow>
               if n = 0 then None
               else map_option (\<lambda>w. \<lparr>rp_max = of_nat n, rp_window = w\<rparr>)
                      (rate_window (lowercase (trim unit)))))"

definition rate_policy_of :: "api_spec \<Rightarrow> rate_policy option" where
  "rate_policy_of a = Option.bind (api_rate_limit a) parse_rate_limit"

section \<open>What a parsed policy is\<close>

lemma rate_window_values: "rate_window u = Some w \<Longrightarrow> w \<in> {secs 1, secs 60, secs 3600}"
  by (auto simp: rate_window_def split: if_splits)

lemma parse_rate_limit_SomeD:
  assumes "parse_rate_limit raw = Some p"
  obtains count unit n where "raw = count @ CHR ''/'' # unit" "CHR ''/'' \<notin> set count"
    "parse_unsigned 32 (trim count) = Some n" "0 < n" "n < 2 ^ 32" "rp_max p = of_nat n"
    "rate_window (lowercase (trim unit)) = Some (rp_window p)"
proof -
  from assms obtain count unit n w where
    *: "split_once CHR ''/'' raw = Some (count, unit)" "parse_unsigned 32 (trim count) = Some n"
      "n \<noteq> 0" "rate_window (lowercase (trim unit)) = Some w" "p = \<lparr>rp_max = of_nat n, rp_window = w\<rparr>"
    by (auto simp: parse_rate_limit_def split: option.splits if_splits)
  with that [of count unit n] parse_unsigned_bound [of 32] show thesis
    by (auto simp: split_once_Some_iff)
qed

lemma unat_of_nat_small: "n < 2 ^ LENGTH('a) \<Longrightarrow> unat (of_nat n :: 'a::len word) = n"
  by (simp add: unsigned_of_nat take_bit_nat_eq_self)

text \<open>Every parsed policy admits something and has a whole number of seconds as its window.\<close>

definition policy_ok :: "rate_policy \<Rightarrow> bool" where
  "policy_ok p \<longleftrightarrow> 0 < unat (rp_max p) \<and> rp_window p \<in> {secs 1, secs 60, secs 3600}"

lemma parse_rate_limit_ok: "parse_rate_limit raw = Some p \<Longrightarrow> policy_ok p"
  by (erule parse_rate_limit_SomeD)
    (auto simp: policy_ok_def unat_of_nat_small dest: rate_window_values)

lemma rate_policy_of_ok: "rate_policy_of a = Some p \<Longrightarrow> policy_ok p"
  by (cases "api_rate_limit a") (auto simp: rate_policy_of_def intro: parse_rate_limit_ok)

end
