(* ===== verification/Rate_Limiter.thy ===== *)
theory Rate_Limiter
  imports Config_Rate
begin

text \<open>
  \<open>ApiRateLimiter\<close> (\<open>crates/ruscker-admin/src/ratelimit.rs\<close>). Instants are nanoseconds on
  the monotonic clock. A call of \<open>check\<close> holds the key's shard lock from its look-up to its
  decision; the model runs the calls one after the other, each reading the clock once.

  The reference semantics is the list of admissions ever made: a request is admitted exactly when
  fewer than \<open>max\<close> of its key's admissions lie within the window. The lemmas below show that the
  queues, their pruning and the idle sweep compute this.
\<close>

section \<open>The limiter\<close>

type_synonym rl_key = "string \<times> string"

datatype rate_decision = Allow | Deny nat

record limiter =
  windows :: "rl_key \<rightharpoonup> nat list"
  max_window_ms :: u64
  since_sweep :: u32

definition SWEEP_EVERY :: u32 where
  "SWEEP_EVERY = 1024"

definition rl_new :: limiter where
  "rl_new = \<lparr>windows = Map.empty, max_window_ms = 0, since_sweep = 0\<rparr>"

definition millis :: "nat \<Rightarrow> nat" where
  "millis n = n * 1000000"

definition as_millis :: "nat \<Rightarrow> nat" where
  "as_millis d = d div 1000000"

definition sweep_idle :: "nat \<Rightarrow> limiter \<Rightarrow> limiter" where
  "sweep_idle now l =
     l\<lparr>windows := map_retain (\<lambda>_ q. q \<noteq> [] \<and> now - last q \<le> millis (unat (max_window_ms l)))
        (windows l)\<rparr>"

definition prune :: "nat \<Rightarrow> nat \<Rightarrow> nat list \<Rightarrow> nat list" where
  "prune now window q = dropWhile (\<lambda>t. now - t > window) q"

definition rl_admit :: "nat \<Rightarrow> rate_policy \<Rightarrow> nat list \<Rightarrow> rate_decision \<times> nat list" where
  "rl_admit now p q0 =
     (let q = prune now (rp_window p) q0 in
      if (of_nat (length q) :: u32) < rp_max p then (Allow, q @ [now])
      else (Deny (case q of [] \<Rightarrow> 1 | oldest # _ \<Rightarrow>
              (rp_window p - (now - oldest)) div secs 1 + 1), q))"

definition rl_bookkeep :: "nat \<Rightarrow> rate_policy \<Rightarrow> limiter \<Rightarrow> limiter" where
  "rl_bookkeep now p l =
     (let l1 = l\<lparr>max_window_ms := max (max_window_ms l) (of_nat (as_millis (rp_window p)))\<rparr>;
          n = since_sweep l1 + 1
      in if n \<ge> SWEEP_EVERY then sweep_idle now (l1\<lparr>since_sweep := 0\<rparr>)
         else l1\<lparr>since_sweep := n\<rparr>)"

definition rl_check ::
    "nat \<Rightarrow> string \<Rightarrow> string \<Rightarrow> rate_policy \<Rightarrow> limiter \<Rightarrow> rate_decision \<times> limiter" where
  "rl_check now spec client p l =
     (let l1 = rl_bookkeep now p l;
          k = (spec, client);
          q0 = (case windows l1 k of None \<Rightarrow> [] | Some q \<Rightarrow> q);
          (d, q) = rl_admit now p q0
      in (d, l1\<lparr>windows := (windows l1)(k \<mapsto> q)\<rparr>))"

section \<open>The reference: the admissions of the past\<close>

type_synonym request = "nat \<times> string \<times> string"

definition admitted_in :: "nat \<Rightarrow> nat \<Rightarrow> nat list \<Rightarrow> nat" where
  "admitted_in now window log = count_if (\<lambda>t. now - t \<le> window) log"

definition ref_step :: "(string \<Rightarrow> rate_policy) \<Rightarrow> (rl_key \<Rightarrow> nat list) \<Rightarrow> request \<Rightarrow>
    bool \<times> (rl_key \<Rightarrow> nat list)" where
  "ref_step pol log req = (case req of (now, spec, client) \<Rightarrow>
     (if admitted_in now (rp_window (pol spec)) (log (spec, client)) < unat (rp_max (pol spec))
      then (True, log((spec, client) := log (spec, client) @ [now])) else (False, log)))"

fun ref_run :: "(string \<Rightarrow> rate_policy) \<Rightarrow> (rl_key \<Rightarrow> nat list) \<Rightarrow> request list \<Rightarrow> bool list" where
  "ref_run pol log [] = []"
| "ref_run pol log (r # rs) = (case ref_step pol log r of (b, log') \<Rightarrow> b # ref_run pol log' rs)"

fun rl_run :: "(string \<Rightarrow> rate_policy) \<Rightarrow> limiter \<Rightarrow> request list \<Rightarrow> rate_decision list \<times> limiter" where
  "rl_run pol l [] = ([], l)"
| "rl_run pol l ((now, spec, client) # rs) =
     (case rl_check now spec client (pol spec) l of
        (d, l') \<Rightarrow> (case rl_run pol l' rs of (ds, l'') \<Rightarrow> (d # ds, l'')))"

text \<open>The clock never runs backwards along a run.\<close>

fun clock_ok :: "nat \<Rightarrow> request list \<Rightarrow> bool" where
  "clock_ok t [] \<longleftrightarrow> True"
| "clock_ok t ((now, _, _) # rs) \<longleftrightarrow> t \<le> now \<and> clock_ok now rs"

definition whole_ms :: "rate_policy \<Rightarrow> bool" where
  "whole_ms p \<longleftrightarrow> rp_window p mod 1000000 = 0 \<and> as_millis (rp_window p) < 2 ^ 64"

lemma policy_ok_whole_ms: "policy_ok p \<Longrightarrow> whole_ms p"
  by (auto simp: policy_ok_def whole_ms_def secs_def as_millis_def)

section \<open>Queues against admissions\<close>

lemma prune_filter: "sorted q \<Longrightarrow> prune now w q = filter (\<lambda>t. now - t \<le> w) q"
proof (induction q)
  case (Cons t q)
  show ?case
  proof (cases "now - t > w")
    case False
    with Cons.prems have "\<forall>u \<in> set (t # q). now - u \<le> w"
      by (metis (no_types, opaque_lifting) diff_le_mono2 le_trans not_less set_ConsD sorted_simps(2))
    with False show ?thesis by (simp add: prune_def)
  qed (use Cons in \<open>simp add: prune_def\<close>)
qed (simp add: prune_def)

lemma sorted_prune: "sorted q \<Longrightarrow> sorted (prune now w q)"
  unfolding prune_def by (rule sorted_dropWhile)

text \<open>
  The queue of a key is what is left of its admissions after dropping some that are older than
  the window; \<open>now\<close> is the time of the last call.
\<close>

definition queue_rel :: "nat \<Rightarrow> nat \<Rightarrow> nat \<Rightarrow> nat list \<Rightarrow> nat list \<Rightarrow> bool" where
  "queue_rel now window m log q \<longleftrightarrow>
     (\<exists>old. log = old @ q \<and> (\<forall>t \<in> set old. now - t > window))
     \<and> sorted log \<and> (\<forall>t \<in> set log. t \<le> now) \<and> length q \<le> m"

lemma queue_rel_later: "queue_rel now w m log q \<Longrightarrow> now \<le> now' \<Longrightarrow> queue_rel now' w m log q"
  by (fastforce simp: queue_rel_def)

lemma queue_rel_count:
  assumes "queue_rel now w m log q"
  shows "length (prune now w q) = admitted_in now w log"
proof -
  from assms obtain old where "log = old @ q" "\<forall>t \<in> set old. now - t > w" and "sorted q"
    by (auto simp: queue_rel_def sorted_append)
  moreover from this have "filter (\<lambda>t. now - t \<le> w) old = []" by (auto simp: filter_empty_conv)
  ultimately show ?thesis by (simp add: prune_filter admitted_in_def count_if_def)
qed

lemma queue_rel_prune:
  assumes "queue_rel now w m log q"
  shows "queue_rel now w m log (prune now w q)"
proof -
  from assms obtain old where "log = old @ q" "\<forall>t \<in> set old. now - t > w"
    by (auto simp: queue_rel_def)
  moreover have "\<forall>t \<in> set (takeWhile (\<lambda>t. now - t > w) q). now - t > w"
    by (auto dest: set_takeWhileD)
  moreover have "q = takeWhile (\<lambda>t. now - t > w) q @ prune now w q" by (simp add: prune_def)
  moreover have "length (prune now w q) \<le> length q" by (simp add: prune_def length_dropWhile_le)
  ultimately have "log = (old @ takeWhile (\<lambda>t. now - t > w) q) @ prune now w q"
    and "\<forall>t \<in> set (old @ takeWhile (\<lambda>t. now - t > w) q). now - t > w"
    and "length (prune now w q) \<le> length q"
    by auto
  moreover from assms have "sorted log" "\<forall>t \<in> set log. t \<le> now" "length q \<le> m"
    by (simp_all add: queue_rel_def)
  ultimately show ?thesis unfolding queue_rel_def by (blast intro: le_trans)
qed

lemma queue_rel_push:
  "queue_rel now w m log q \<Longrightarrow> length q < m \<Longrightarrow> queue_rel now w m (log @ [now]) (q @ [now])"
  by (auto simp: queue_rel_def sorted_append)

lemma queue_rel_drop:
  "queue_rel now w m log q \<Longrightarrow> (\<And>t. t \<in> set q \<Longrightarrow> now - t > w) \<Longrightarrow> queue_rel now w m log []"
  by (auto simp: queue_rel_def)

lemma rl_admit_rel:
  assumes "queue_rel now (rp_window p) (unat (rp_max p)) log q"
  shows "case rl_admit now p q of (d, q') \<Rightarrow>
    (d = Allow \<longleftrightarrow> admitted_in now (rp_window p) log < unat (rp_max p)) \<and>
    queue_rel now (rp_window p) (unat (rp_max p)) (if d = Allow then log @ [now] else log) q'"
proof -
  let ?q = "prune now (rp_window p) q"
  have r: "queue_rel now (rp_window p) (unat (rp_max p)) log ?q"
    by (rule queue_rel_prune [OF assms])
  then have "length ?q \<le> unat (rp_max p)" by (simp add: queue_rel_def)
  moreover have "unat (rp_max p) < 2 ^ 32" using unsigned_less [of "rp_max p"] by simp
  ultimately have "unat (of_nat (length ?q) :: u32) = length ?q"
    by (simp add: unat_of_nat_small)
  then have "(of_nat (length ?q) :: u32) < rp_max p \<longleftrightarrow> length ?q < unat (rp_max p)"
    by (simp add: word_less_nat_alt)
  with r queue_rel_count [OF assms] show ?thesis
    by (simp add: rl_admit_def Let_def queue_rel_push)
qed

section \<open>The limiter refines the reference\<close>

definition queue_of :: "limiter \<Rightarrow> rl_key \<Rightarrow> nat list" where
  "queue_of l k = (case windows l k of None \<Rightarrow> [] | Some q \<Rightarrow> q)"

definition rl_rel ::
    "(string \<Rightarrow> rate_policy) \<Rightarrow> nat \<Rightarrow> (rl_key \<Rightarrow> nat list) \<Rightarrow> limiter \<Rightarrow> bool" where
  "rl_rel pol now log l \<longleftrightarrow>
     (\<forall>k. queue_rel now (rp_window (pol (fst k))) (unat (rp_max (pol (fst k)))) (log k) (queue_of l k))
     \<and> (\<forall>k q. windows l k = Some q \<longrightarrow>
          rp_window (pol (fst k)) \<le> millis (unat (max_window_ms l)))"

lemma rl_relD:
  assumes "rl_rel pol now log l"
  shows rl_rel_queue: "queue_rel now (rp_window (pol s)) (unat (rp_max (pol s))) (log (s, c)) (queue_of l (s, c))"
    and rl_rel_window: "windows l (s, c) = Some q \<Longrightarrow> rp_window (pol s) \<le> millis (unat (max_window_ms l))"
  using assms unfolding rl_rel_def by (metis fst_conv)+

lemma rl_relI:
  "(\<And>s c. queue_rel now (rp_window (pol s)) (unat (rp_max (pol s))) (log (s, c)) (queue_of l (s, c))) \<Longrightarrow>
   (\<And>s c q. windows l (s, c) = Some q \<Longrightarrow> rp_window (pol s) \<le> millis (unat (max_window_ms l))) \<Longrightarrow>
   rl_rel pol now log l"
  by (auto simp: rl_rel_def)

lemma rl_rel_new: "rl_rel pol 0 (\<lambda>_. []) rl_new"
  by (simp add: rl_rel_def queue_rel_def queue_of_def rl_new_def)

lemma rl_rel_later: "rl_rel pol now log l \<Longrightarrow> now \<le> now' \<Longrightarrow> rl_rel pol now' log l"
  by (auto simp: rl_rel_def intro: queue_rel_later)

lemma rl_rel_wider:
  "rl_rel pol now log l \<Longrightarrow> max_window_ms l \<le> m \<Longrightarrow>
     rl_rel pol now log (l\<lparr>max_window_ms := m, since_sweep := n\<rparr>)"
  by (rule rl_relI) (auto simp: queue_of_def millis_def word_le_nat_alt
      dest: rl_rel_queue rl_rel_window intro: order_trans)

lemma sweep_idle_rel:
  assumes r: "rl_rel pol now log l"
  shows "rl_rel pol now log (sweep_idle now l)"
proof (rule rl_relI)
  fix s c :: string
  let ?k = "(s, c)" and ?h = "millis (unat (max_window_ms l))"
  note q = rl_rel_queue [OF r, of s c]
  show "queue_rel now (rp_window (pol s)) (unat (rp_max (pol s))) (log ?k) (queue_of (sweep_idle now l) ?k)"
  proof (cases "windows l ?k")
    case None
    with q show ?thesis by (simp add: queue_of_def sweep_idle_def map_retain_def)
  next
    case (Some u)
    show ?thesis
    proof (cases "u \<noteq> [] \<and> now - last u \<le> ?h")
      case True
      with Some q show ?thesis by (simp add: queue_of_def sweep_idle_def map_retain_def)
    next
      case False
      have "now - t > rp_window (pol s)" if "t \<in> set u" for t
      proof -
        from q Some have "sorted u" by (auto simp: queue_of_def queue_rel_def sorted_append)
        with that have "t \<le> last u" by (simp add: sorted_le_last)
        moreover from False that have "now - last u > ?h" by auto
        ultimately show ?thesis using rl_rel_window [OF r Some] by linarith
      qed
      with q Some have "queue_rel now (rp_window (pol s)) (unat (rp_max (pol s))) (log ?k) []"
        by (intro queue_rel_drop [OF q]) (simp add: queue_of_def)
      moreover from Some False have "queue_of (sweep_idle now l) ?k = []"
        by (auto simp: queue_of_def sweep_idle_def map_retain_def)
      ultimately show ?thesis by simp
    qed
  qed
next
  fix s c q
  assume "windows (sweep_idle now l) (s, c) = Some q"
  then have "windows l (s, c) = Some q" by (simp add: sweep_idle_def map_retain_Some_iff)
  with r show "rp_window (pol s) \<le> millis (unat (max_window_ms (sweep_idle now l)))"
    by (simp add: sweep_idle_def rl_rel_window)
qed

lemma rl_bookkeep_rel:
  "rl_rel pol now log l \<Longrightarrow> rl_rel pol now log (rl_bookkeep now p l)"
  by (auto simp: rl_bookkeep_def Let_def intro!: sweep_idle_rel rl_rel_wider)

lemma rl_bookkeep_window:
  assumes "whole_ms p"
  shows "rp_window p \<le> millis (unat (max_window_ms (rl_bookkeep now p l)))"
proof -
  have m: "max_window_ms (rl_bookkeep now p l) = max (max_window_ms l) (of_nat (as_millis (rp_window p)))"
    by (simp add: rl_bookkeep_def Let_def sweep_idle_def)
  have "unat (of_nat (as_millis (rp_window p)) :: u64) = as_millis (rp_window p)"
    using assms by (simp add: whole_ms_def unat_of_nat_small)
  then have "as_millis (rp_window p) \<le> unat (max_window_ms (rl_bookkeep now p l))"
    unfolding m by (metis max.cobounded2 word_le_nat_alt)
  moreover have "rp_window p = millis (as_millis (rp_window p))"
    using assms by (auto simp: whole_ms_def as_millis_def millis_def)
  ultimately show ?thesis by (simp add: millis_def)
qed

lemma rl_check_rel:
  assumes r: "rl_rel pol t log l" and "t \<le> now" and w: "whole_ms (pol spec)"
  shows "case rl_check now spec client (pol spec) l of (d, l') \<Rightarrow>
    case ref_step pol log (now, spec, client) of (b, log') \<Rightarrow>
      (d = Allow \<longleftrightarrow> b) \<and> rl_rel pol now log' l'"
proof -
  let ?p = "pol spec" and ?k = "(spec, client)"
  let ?l = "rl_bookkeep now ?p l"
  have r': "rl_rel pol now log ?l"
    by (rule rl_bookkeep_rel [OF rl_rel_later [OF r \<open>t \<le> now\<close>]])
  obtain d q where dq: "rl_admit now ?p (queue_of ?l ?k) = (d, q)" by fastforce
  from rl_admit_rel [OF rl_rel_queue [OF r', of spec client]] dq
  have d: "d = Allow \<longleftrightarrow> admitted_in now (rp_window ?p) (log ?k) < unat (rp_max ?p)"
    and q: "queue_rel now (rp_window ?p) (unat (rp_max ?p)) (if d = Allow then log ?k @ [now] else log ?k) q"
    by auto
  have c: "rl_check now spec client ?p l = (d, ?l\<lparr>windows := (windows ?l)(?k \<mapsto> q)\<rparr>)"
    using dq by (simp add: rl_check_def queue_of_def Let_def)
  have s: "ref_step pol log (now, spec, client) =
      (d = Allow, log(?k := (if d = Allow then log ?k @ [now] else log ?k)))"
    using d by (auto simp: ref_step_def)
  have "rl_rel pol now (log(?k := (if d = Allow then log ?k @ [now] else log ?k)))
      (?l\<lparr>windows := (windows ?l)(?k \<mapsto> q)\<rparr>)" (is "rl_rel _ _ ?log' ?l'")
  proof (rule rl_relI)
    fix s c :: string
    show "queue_rel now (rp_window (pol s)) (unat (rp_max (pol s))) (?log' (s, c)) (queue_of ?l' (s, c))"
    proof (cases "(s, c) = ?k")
      case True
      then show ?thesis using q by (auto simp: queue_of_def)
    next
      case False
      then have "?log' (s, c) = log (s, c)" and "queue_of ?l' (s, c) = queue_of ?l (s, c)"
        by (auto simp: queue_of_def)
      then show ?thesis using rl_rel_queue [OF r'] by metis
    qed
    show "windows ?l' (s, c) = Some u \<Longrightarrow> rp_window (pol s) \<le> millis (unat (max_window_ms ?l'))" for u
      using rl_rel_window [OF r', of s c] rl_bookkeep_window [OF w]
      by (auto split: if_splits)
  qed
  with c s show ?thesis by simp
qed

lemma rl_run_rel:
  "rl_rel pol t log l \<Longrightarrow> clock_ok t rs \<Longrightarrow> \<forall>s. whole_ms (pol s) \<Longrightarrow>
     map (\<lambda>d. d = Allow) (fst (rl_run pol l rs)) = ref_run pol log rs"
proof (induction rs arbitrary: t log l)
  case (Cons r rs)
  obtain now spec client where r: "r = (now, spec, client)" by (cases r)
  obtain d l' where c: "rl_check now spec client (pol spec) l = (d, l')" by fastforce
  obtain b log' where s: "ref_step pol log r = (b, log')" by fastforce
  have "t \<le> now" "clock_ok now rs" using Cons.prems r by auto
  with rl_check_rel [OF Cons.prems(1), of now spec client] Cons.prems(3) c s r
  have "d = Allow \<longleftrightarrow> b" and "rl_rel pol now log' l'" by auto
  with Cons.IH [of now log' l'] \<open>clock_ok now rs\<close> Cons.prems(3) c s r show ?case
    by (auto split: prod.splits)
qed simp

lemma rl_run_reaches:
  "rl_rel pol t log l \<Longrightarrow> clock_ok t (rs @ [(now, s, c)]) \<Longrightarrow> \<forall>s. whole_ms (pol s) \<Longrightarrow>
     \<exists>log'. rl_rel pol now log' (snd (rl_run pol l rs))"
proof (induction rs arbitrary: t log l)
  case Nil
  then show ?case by (auto intro: rl_rel_later)
next
  case (Cons r rs)
  obtain now' spec client where r: "r = (now', spec, client)" by (cases r)
  obtain d l' where c: "rl_check now' spec client (pol spec) l = (d, l')" by fastforce
  obtain b log' where s: "ref_step pol log r = (b, log')" by fastforce
  have "t \<le> now'" "clock_ok now' (rs @ [(now, s, c)])" using Cons.prems r by auto
  with rl_check_rel [OF Cons.prems(1), of now' spec client] Cons.prems(3) c s r
  have "rl_rel pol now' log' l'" by auto
  from Cons.IH [OF this \<open>clock_ok now' (rs @ _)\<close> Cons.prems(3)] c r show ?case
    by (auto split: prod.splits)
qed

section \<open>The window bound on the reference\<close>

definition in_span :: "nat \<Rightarrow> nat \<Rightarrow> nat \<Rightarrow> bool" where
  "in_span a w t \<longleftrightarrow> a \<le> t \<and> t \<le> a + w"

fun admission_times :: "rl_key \<Rightarrow> request list \<Rightarrow> bool list \<Rightarrow> nat list" where
  "admission_times k ((now, s, c) # rs) (b # bs) =
     (if b \<and> (s, c) = k then [now] else []) @ admission_times k rs bs"
| "admission_times k _ _ = []"

lemma count_if_mono: "(\<And>x. x \<in> set xs \<Longrightarrow> P x \<Longrightarrow> Q x) \<Longrightarrow> count_if P xs \<le> count_if Q xs"
  by (induction xs) (auto intro: le_SucI)

lemma span_push:
  assumes "\<forall>a. count_if (in_span a w) log \<le> m" and "admitted_in now w log < m"
  shows "count_if (in_span a w) (log @ [now]) \<le> m"
proof (cases "in_span a w now")
  case True
  then have "count_if (in_span a w) log \<le> admitted_in now w log"
    unfolding admitted_in_def by (intro count_if_mono) (auto simp: in_span_def)
  with True assms(2) show ?thesis by simp
qed (use assms in simp)

lemma ref_run_span:
  "\<forall>k a. count_if (in_span a (rp_window (pol (fst k)))) (log k) \<le> unat (rp_max (pol (fst k))) \<Longrightarrow>
     count_if (in_span a (rp_window (pol s))) (log (s, c) @ admission_times (s, c) rs (ref_run pol log rs))
       \<le> unat (rp_max (pol s))"
proof (induction rs arbitrary: log)
  case Nil
  then show ?case by (metis admission_times.simps(2) append_Nil2 fst_conv ref_run.simps(1))
next
  case (Cons r rs)
  obtain now s' c' where r: "r = (now, s', c')" by (cases r)
  let ?k = "(s', c')" and ?w = "rp_window (pol s')" and ?m = "unat (rp_max (pol s'))"
  show ?case
  proof (cases "admitted_in now ?w (log ?k) < ?m")
    case True
    let ?log = "log(?k := log ?k @ [now])"
    have "\<forall>a. count_if (in_span a ?w) (log ?k) \<le> ?m" using Cons.prems by (metis fst_conv)
    then have "\<forall>a. count_if (in_span a ?w) (log ?k @ [now]) \<le> ?m"
      using span_push [OF _ True] by blast
    with Cons.prems have "\<forall>k a. count_if (in_span a (rp_window (pol (fst k)))) (?log k)
        \<le> unat (rp_max (pol (fst k)))" by simp
    from Cons.IH [of ?log, OF this] True r show ?thesis by (auto simp: ref_step_def simp del: fun_upd_apply)
      (auto simp: ref_step_def)
  next
    case False
    with Cons.IH [OF Cons.prems] r show ?thesis by (simp add: ref_step_def)
  qed
qed

section \<open>Properties\<close>

text \<open>
  C9: \<open>ApiRateLimiter\<close> implements the sliding-window limit. For every sequence of requests of any
  number of specs and clients, made at non-decreasing clock readings under policies that
  \<open>parse_rate_limit\<close> can produce, a request is allowed exactly when fewer than \<open>max\<close> earlier
  requests of the same spec and client were allowed within the window: the pruning of the queues,
  the key separation and the amortised idle sweep (which runs every 1024 calls with the largest
  window seen) never change a decision.
\<close>

theorem rate_limiter_refines_sliding_window:
  assumes "clock_ok 0 rs" and "\<forall>s. policy_ok (pol s)"
  shows "map (\<lambda>d. d = Allow) (fst (rl_run pol rl_new rs)) = ref_run pol (\<lambda>_. []) rs"
  using rl_run_rel [OF rl_rel_new assms(1)] assms(2) by (simp add: policy_ok_whole_ms)

definition rl_demo_policy :: "string \<Rightarrow> rate_policy" where
  "rl_demo_policy s = \<lparr>rp_max = 2, rp_window = secs 1\<rparr>"

definition rl_demo :: "request list" where
  "rl_demo = [(0, ''api'', ''a''), (5, ''api'', ''a''), (7, ''api'', ''b''), (9, ''api'', ''a''),
     (2000000000, ''api'', ''a'')]"

lemma rl_demo_ok: "clock_ok 0 rl_demo" "policy_ok (rl_demo_policy s)"
  by (simp_all add: rl_demo_def rl_demo_policy_def policy_ok_def)

lemma rate_limiter_refines_sliding_window_witness:
  "map (\<lambda>d. d = Allow) (fst (rl_run rl_demo_policy rl_new rl_demo)) = [True, True, True, False, True]"
  using rate_limiter_refines_sliding_window [of rl_demo rl_demo_policy] rl_demo_ok
  by (simp add: rl_demo_def ref_step_def admitted_in_def rl_demo_policy_def secs_def)

text \<open>
  C18: The bound a client is promised: in every closed interval as long as the policy's window, at
  most \<open>max\<close> requests of one client to one spec are allowed, wherever the interval lies (not only
  the windows that end at a request).
\<close>

theorem rate_limiter_window_bound:
  assumes "clock_ok 0 rs" and "\<forall>s. policy_ok (pol s)"
  shows "count_if (in_span a (rp_window (pol s)))
      (admission_times (s, c) rs (map (\<lambda>d. d = Allow) (fst (rl_run pol rl_new rs))))
    \<le> unat (rp_max (pol s))"
proof -
  have "map (\<lambda>d. d = Allow) (fst (rl_run pol rl_new rs)) = ref_run pol (\<lambda>_. []) rs"
    using rl_run_rel [OF rl_rel_new assms(1)] assms(2) by (simp add: policy_ok_whole_ms)
  then show ?thesis using ref_run_span [of pol "\<lambda>_. []" a s c rs] by simp
qed

lemma rate_limiter_window_bound_witness:
  "count_if (in_span 0 (secs 1)) (admission_times (''api'', ''a'') rl_demo
      (map (\<lambda>d. d = Allow) (fst (rl_run rl_demo_policy rl_new rl_demo)))) \<le> 2"
  using rate_limiter_window_bound [of rl_demo rl_demo_policy 0 "''api''" "''a''"] rl_demo_ok
  by (simp add: rl_demo_policy_def)

text \<open>
  C23: A denial's \<open>Retry-After\<close> is honest, to the second. In any state the limiter reaches, a denied
  client is told at least one second; if it comes back that many seconds later it is allowed, and if
  it comes back more than a second earlier than that it is denied again.
\<close>

theorem rate_limiter_retry_after:
  assumes "clock_ok 0 (rs @ [(now, s, c)])" and "\<forall>s. policy_ok (pol s)"
    and deny: "rl_check now s c (pol s) (snd (rl_run pol rl_new rs)) = (Deny n, l')"
  shows "1 \<le> n
    \<and> (now + secs n \<le> now' \<longrightarrow> fst (rl_check now' s c (pol s) l') = Allow)
    \<and> (now \<le> now' \<and> now' < now + secs (n - 1) \<longrightarrow> fst (rl_check now' s c (pol s) l') \<noteq> Allow)"
proof -
  let ?l = "snd (rl_run pol rl_new rs)" and ?p = "pol s" and ?k = "(s, c)"
  let ?w = "rp_window ?p" and ?m = "unat (rp_max ?p)"
  have w: "\<forall>s. whole_ms (pol s)" using assms(2) by (simp add: policy_ok_whole_ms)
  from rl_run_reaches [OF rl_rel_new assms(1) w] obtain log where r: "rl_rel pol now log ?l" ..
  have lg: "\<not> admitted_in now ?w (log ?k) < ?m" and r': "rl_rel pol now log l'"
    using rl_check_rel [OF r order_refl, of s c] w deny
    by (auto simp: ref_step_def split: if_splits)
  have later: "fst (rl_check now' s c ?p l') = Allow \<longleftrightarrow> admitted_in now' ?w (log ?k) < ?m"
    if "now \<le> now'"
    using rl_check_rel [OF r' that, of s c] w by (auto simp: ref_step_def split: prod.splits if_splits)
  let ?old = "queue_of (rl_bookkeep now ?p ?l) ?k"
  let ?q = "prune now ?w ?old"
  have rq: "queue_rel now ?w ?m (log ?k) ?old"
    using rl_rel_queue [OF rl_bookkeep_rel [OF r]] by simp
  from deny have "fst (rl_admit now ?p ?old) = Deny n"
    by (auto simp: rl_check_def queue_of_def Let_def split: prod.splits)
  then have n: "n = (case ?q of [] \<Rightarrow> 1 | oldest # _ \<Rightarrow> (?w - (now - oldest)) div secs 1 + 1)"
    by (auto simp: rl_admit_def Let_def split: if_splits)
  have len: "length ?q = admitted_in now ?w (log ?k)" by (rule queue_rel_count [OF rq])
  have "0 < ?m" using assms(2) by (simp add: policy_ok_def)
  with len lg obtain oldest rest where q: "?q = oldest # rest" by (cases ?q) auto
  have rp: "queue_rel now ?w ?m (log ?k) ?q" by (rule queue_rel_prune [OF rq])
  have cnt: "admitted_in now' ?w (log ?k) = length (prune now' ?w ?q)" if "now \<le> now'"
    using queue_rel_count [OF queue_rel_later [OF rp that]] by simp
  have m: "length ?q \<le> ?m" and srt: "sorted ?q" and le: "\<forall>t \<in> set ?q. t \<le> now"
    using rp by (auto simp: queue_rel_def sorted_append)
  from n q have n': "n = (?w - (now - oldest)) div secs 1 + 1" by simp
  have ol: "oldest \<le> now" using le q by simp
  have "?w - (now - oldest) < secs n" unfolding n' secs_def by (simp add: dividend_less_div_times)
  then have "now' - oldest > ?w" if "now + secs n \<le> now'" using that ol by linarith
  then have "length (prune now' ?w ?q) < length ?q" if "now + secs n \<le> now'"
    using that q by (simp add: prune_def le_imp_less_Suc length_dropWhile_le)
  moreover have "prune now' ?w ?q = ?q" if "now \<le> now'" "now' < now + secs (n - 1)"
  proof -
    have "secs (n - 1) \<le> ?w - (now - oldest)" unfolding n' secs_def by simp
    with that ol have "now' - oldest \<le> ?w" by linarith
    with q show ?thesis by (simp add: prune_def)
  qed
  ultimately have "now + secs n \<le> now' \<Longrightarrow> fst (rl_check now' s c ?p l') = Allow"
    and "now \<le> now' \<Longrightarrow> now' < now + secs (n - 1) \<Longrightarrow> fst (rl_check now' s c ?p l') \<noteq> Allow"
    using later cnt lg len m by simp_all
  with n' show ?thesis by simp
qed

definition rl_strict_policy :: "string \<Rightarrow> rate_policy" where
  "rl_strict_policy s = \<lparr>rp_max = 1, rp_window = secs 1\<rparr>"

lemma rl_strict_first:
  "rl_check 0 ''api'' ''a'' (rl_strict_policy ''api'') rl_new =
     (Allow, \<lparr>windows = [(''api'', ''a'') \<mapsto> [0]], max_window_ms = 1000, since_sweep = 1\<rparr>)"
  by (simp add: rl_strict_policy_def rl_check_def rl_new_def rl_bookkeep_def SWEEP_EVERY_def
      as_millis_def secs_def rl_admit_def prune_def Let_def word_le_nat_alt)

lemma rl_strict_second:
  "rl_check 9 ''api'' ''a'' (rl_strict_policy ''api'')
     \<lparr>windows = [(''api'', ''a'') \<mapsto> [0]], max_window_ms = 1000, since_sweep = 1\<rparr> =
     (Deny 1, \<lparr>windows = [(''api'', ''a'') \<mapsto> [0]], max_window_ms = 1000, since_sweep = 2\<rparr>)"
  by (simp add: rl_strict_policy_def rl_check_def rl_bookkeep_def SWEEP_EVERY_def
      as_millis_def secs_def rl_admit_def prune_def Let_def word_le_nat_alt)

lemma rate_limiter_retry_after_witness:
  "fst (rl_check (9 + secs 1) ''api'' ''a'' (rl_strict_policy ''api'')
     \<lparr>windows = [(''api'', ''a'') \<mapsto> [0]], max_window_ms = 1000, since_sweep = 2\<rparr>) = Allow"
proof -
  have r: "snd (rl_run rl_strict_policy rl_new [(0, ''api'', ''a'')]) =
      \<lparr>windows = [(''api'', ''a'') \<mapsto> [0]], max_window_ms = 1000, since_sweep = 1\<rparr>"
    by (simp add: rl_strict_first)
  have c: "clock_ok 0 ([(0, ''api'', ''a'')] @ [(9, ''api'', ''a'')])" by simp
  have p: "\<forall>s. policy_ok (rl_strict_policy s)" by (simp add: policy_ok_def rl_strict_policy_def)
  from rate_limiter_retry_after [OF c p, unfolded r, OF rl_strict_second] show ?thesis by simp
qed

end
