(* ===== verification/Config_Env.thy ===== *)
theory Config_Env
  imports Rust_Text
begin

text \<open>
  Environment interpolation of the YAML text (\<open>crates/ruscker-config/src/env.rs\<close>). The regular
  expression for \<open>${NAME}\<close> and \<open>${NAME:-default}\<close> is the matcher \<open>match_ref\<close>, tried at each
  position from the left; a line is cut into pieces, literal characters and references. The
  process environment is a function from names to look-up results.
\<close>

section \<open>Errors and the environment\<close>

datatype cfg_error =
    CfgIo string string
  | CfgYaml string
  | MissingEnvVar string
  | InvalidEnvRef string
  | CfgInvalid string

datatype env_lookup = Present string | NotPresent | NotUnicode

type_synonym environ = "string \<Rightarrow> env_lookup"

section \<open>References\<close>

definition is_name_start :: "char \<Rightarrow> bool" where
  "is_name_start c \<longleftrightarrow> is_lower c \<or> is_upper c \<or> c = CHR ''_''"

definition is_name_char :: "char \<Rightarrow> bool" where
  "is_name_char c \<longleftrightarrow> is_alnum c \<or> c = CHR ''_''"

datatype piece = Lit char | Ref string "string option"

definition match_ref :: "string \<Rightarrow> (string \<times> string option \<times> string) option" where
  "match_ref s =
     (case s of
        a # b # r \<Rightarrow>
          if a = CHR ''$'' \<and> b = CHR ''{'' then
            (let n = takeWhile is_name_char r; after = dropWhile is_name_char r in
             if n = [] \<or> \<not> is_name_start (hd n) then None
             else (case after of
                 c # r1 \<Rightarrow>
                   if c = CHR ''}'' then Some (n, None, r1)
                   else if c = CHR '':'' then
                     (case r1 of
                        d # r2 \<Rightarrow>
                          if d = CHR ''-'' then
                            map_option (\<lambda>(dflt, r3). (n, Some dflt, r3)) (split_once CHR ''}'' r2)
                          else None
                      | [] \<Rightarrow> None)
                   else None
               | [] \<Rightarrow> None))
          else None
      | _ \<Rightarrow> None)"

definition ref_text :: "string \<Rightarrow> string option \<Rightarrow> string" where
  "ref_text n d = ''${'' @ n @ (case d of None \<Rightarrow> [] | Some v \<Rightarrow> '':-'' @ v) @ ''}''"

lemma match_ref_Some:
  assumes "match_ref s = Some (n, d, r)"
  shows "s = ref_text n d @ r" and "n \<noteq> []"
proof -
  from assms obtain u where s: "s = CHR ''$'' # CHR ''{'' # u"
    by (auto simp: match_ref_def split: list.splits if_splits)
  let ?n = "takeWhile is_name_char u" and ?after = "dropWhile is_name_char u"
  have u: "u = ?n @ ?after" by simp
  from assms s have n: "n = ?n" "n \<noteq> []"
    by (auto simp: match_ref_def Let_def split: list.splits if_splits)
  from assms s have "?after = (case d of None \<Rightarrow> [] | Some v \<Rightarrow> '':-'' @ v) @ CHR ''}'' # r"
    by (auto simp: match_ref_def Let_def split_once_Some_iff split: list.splits if_splits)
  with s u n show "s = ref_text n d @ r" unfolding ref_text_def by (cases d) (metis append_Cons append_Nil append_assoc option.simps(4), metis append_Cons append_Nil append_assoc option.simps(5))
  show "n \<noteq> []" by (rule n(2))
qed

lemma match_ref_shorter: "match_ref s = Some (n, d, r) \<Longrightarrow> length r < length s"
  by (drule match_ref_Some(1)) (simp add: ref_text_def)

function pieces :: "string \<Rightarrow> piece list" where
  "pieces [] = []"
| "pieces (c # cs) =
     (case match_ref (c # cs) of
        Some (n, d, r) \<Rightarrow> Ref n d # pieces r
      | None \<Rightarrow> Lit c # pieces cs)"
  by pat_completeness auto
termination
  by (relation "measure length") (auto dest: match_ref_shorter)

fun piece_text :: "piece \<Rightarrow> string" where
  "piece_text (Lit c) = [c]"
| "piece_text (Ref n d) = ref_text n d"

lemma pieces_text: "concat (map piece_text (pieces s)) = s"
proof (induction s rule: pieces.induct)
  case (2 c cs)
  show ?case
  proof (cases "match_ref (c # cs)")
    case None
    with 2 show ?thesis by simp
  next
    case (Some p)
    obtain n d r where p: "p = (n, d, r)" by (cases p)
    have "c # cs = ref_text n d @ r" by (rule match_ref_Some(1)) (use Some p in simp)
    moreover have "pieces (c # cs) = Ref n d # pieces r" using Some p by simp
    moreover have "concat (map piece_text (pieces r)) = r" using 2(2) Some p by blast
    ultimately show ?thesis by (simp del: pieces.simps)
  qed
qed simp

section \<open>Interpolating one line\<close>

definition nested_note :: string where
  "nested_note = ''} '' @ [CHR 0xE2, CHR 0x80, CHR 0x94]
     @ '' a nested reference in a `:-` default is not supported''"

definition resolve_ref :: "environ \<Rightarrow> string \<Rightarrow> string option \<Rightarrow> cfg_error + string" where
  "resolve_ref env n d =
     (if (case d of None \<Rightarrow> False | Some v \<Rightarrow> contains_str ''${'' v)
      then Inl (InvalidEnvRef (ref_text n d @ nested_note))
      else (case env n of
          Present v \<Rightarrow> Inr v
        | NotPresent \<Rightarrow> (case d of Some v \<Rightarrow> Inr v | None \<Rightarrow> Inl (MissingEnvVar n))
        | NotUnicode \<Rightarrow> Inl (InvalidEnvRef n)))"

definition sum_append :: "'e + 'a list \<Rightarrow> 'e + 'a list \<Rightarrow> 'e + 'a list" where
  "sum_append a b = (case a of Inl e \<Rightarrow> Inl e
     | Inr x \<Rightarrow> (case b of Inl e \<Rightarrow> Inl e | Inr y \<Rightarrow> Inr (x @ y)))"

fun render :: "environ \<Rightarrow> piece list \<Rightarrow> cfg_error + string" where
  "render env [] = Inr []"
| "render env (Lit c # ps) = sum_append (Inr [c]) (render env ps)"
| "render env (Ref n d # ps) = sum_append (resolve_ref env n d) (render env ps)"

definition interpolate_line :: "environ \<Rightarrow> string \<Rightarrow> cfg_error + string" where
  "interpolate_line env line = render env (pieces line)"

definition interpolate_value :: "environ \<Rightarrow> string \<Rightarrow> cfg_error + string" where
  "interpolate_value env v = interpolate_line env v"

definition is_pure_env_ref :: "string \<Rightarrow> bool" where
  "is_pure_env_ref v =
     (let t = trim v in
      t \<noteq> [] \<and> trim (concat (map (\<lambda>p. case p of Lit c \<Rightarrow> [c] | Ref _ _ \<Rightarrow> []) (pieces t))) = [])"

section \<open>The text, line by line\<close>

fun inline_comment_at :: "bool \<Rightarrow> bool \<Rightarrow> bool \<Rightarrow> string \<Rightarrow> string \<times> string" where
  "inline_comment_at in_single in_double prev_ws [] = ([], [])"
| "inline_comment_at in_single in_double prev_ws (b # bs) =
     (if b = CHR ''#'' \<and> \<not> in_single \<and> \<not> in_double \<and> prev_ws then ([], b # bs)
      else (let is1 = (if b = CHR 0x27 \<and> \<not> in_double then \<not> in_single else in_single);
                id1 = (if b = CHR 0x22 \<and> \<not> in_single then \<not> in_double else in_double)
            in case inline_comment_at is1 id1 (b = CHR '' '' \<or> b = CHR 0x09) bs of
                 (code, comment) \<Rightarrow> (b # code, comment)))"

definition split_inline_comment :: "string \<Rightarrow> string \<times> string" where
  "split_inline_comment line = inline_comment_at False False True line"

fun split_inclusive :: "string \<Rightarrow> string list" where
  "split_inclusive [] = []"
| "split_inclusive (c # cs) =
     (if c = CHR 0x0A then [c] # split_inclusive cs
      else (case split_inclusive cs of [] \<Rightarrow> [[c]] | l # ls \<Rightarrow> (c # l) # ls))"

definition SECRET_KEYS :: "string list" where
  "SECRET_KEYS = [''docker-registry-password'']"

definition line_key :: "string \<Rightarrow> string" where
  "line_key trimmed = trim (dropWhile (\<lambda>c. c = CHR ''-'') (hd (split_on CHR '':'' trimmed)))"

text \<open>What the loop does with a line: keep it verbatim, or interpolate its code part.\<close>

definition line_class :: "nat option \<Rightarrow> string \<Rightarrow> bool \<times> nat option" where
  "line_class block line =
     (let content = (case strip_suffix [CHR 0x0A] line of None \<Rightarrow> line | Some c \<Rightarrow> c);
          trimmed = trim_start content;
          indent = length content - length trimmed
      in if trimmed = [] \<or> hd trimmed = CHR ''#'' then (False, block)
         else (let block1 = (case block of Some bi \<Rightarrow> if indent \<le> bi then None else Some bi | None \<Rightarrow> None)
               in if block1 \<noteq> None then (False, block1)
                  else if line_key trimmed = ''container-env''
                  then (let dash_prefix = length trimmed
                          - length (trim_start (dropWhile (\<lambda>c. c = CHR ''-'') trimmed))
                        in (False, Some (indent + dash_prefix)))
                  else if line_key trimmed \<in> set SECRET_KEYS then (False, block1)
                  else (True, block1)))"

fun interpolate_lines :: "environ \<Rightarrow> nat option \<Rightarrow> string list \<Rightarrow> cfg_error + string" where
  "interpolate_lines env block [] = Inr []"
| "interpolate_lines env block (line # ls) =
     (case line_class block line of
        (False, block') \<Rightarrow> sum_append (Inr line) (interpolate_lines env block' ls)
      | (True, block') \<Rightarrow>
          (case split_inline_comment line of (code, comment) \<Rightarrow>
             sum_append (interpolate_line env code)
               (sum_append (Inr comment) (interpolate_lines env block' ls))))"

definition interpolate :: "environ \<Rightarrow> string \<Rightarrow> cfg_error + string" where
  "interpolate env input = interpolate_lines env None (split_inclusive input)"

section \<open>Cutting and joining lines\<close>

lemma concat_split_inclusive: "concat (split_inclusive s) = s"
proof (induction s)
  case (Cons c cs)
  then show ?case by (cases "split_inclusive cs") auto
qed simp

lemma inline_comment_append: "inline_comment_at a b w s = (code, comment) \<Longrightarrow> s = code @ comment"
  by (induction a b w s arbitrary: code comment rule: inline_comment_at.induct)
    (auto split: if_splits prod.splits)

lemma inline_comment_hash: "inline_comment_at a b w s = (code, comment) \<Longrightarrow>
    comment = [] \<or> hd comment = CHR ''#''"
  by (induction a b w s arbitrary: code comment rule: inline_comment_at.induct)
    (auto split: if_splits prod.splits)

text \<open>Whether a position is outside quotes, counted from the left with the other kind masked.\<close>

fun quotes_after :: "bool \<Rightarrow> bool \<Rightarrow> string \<Rightarrow> bool \<times> bool" where
  "quotes_after s d [] = (s, d)"
| "quotes_after s d (b # bs) =
     quotes_after (if b = CHR 0x27 \<and> \<not> d then \<not> s else s) (if b = CHR 0x22 \<and> \<not> s then \<not> d else d) bs"

lemma inline_comment_outside:
  "inline_comment_at a b w s = (code, comment) \<Longrightarrow> comment \<noteq> [] \<Longrightarrow>
     quotes_after a b code = (False, False)
     \<and> (if code = [] then w else last code = CHR '' '' \<or> last code = CHR 0x09)"
proof (induction a b w s arbitrary: code comment rule: inline_comment_at.induct)
  case (2 a b w c cs)
  show ?case
  proof (cases "c = CHR ''#'' \<and> \<not> a \<and> \<not> b \<and> w")
    case True
    with 2 show ?thesis by auto
  next
    case False
    let ?a = "if c = CHR 0x27 \<and> \<not> b then \<not> a else a" and ?b = "if c = CHR 0x22 \<and> \<not> a then \<not> b else b"
    let ?w = "c = CHR '' '' \<or> c = CHR 0x09"
    obtain code' where r: "inline_comment_at ?a ?b ?w cs = (code', comment)" "code = c # code'"
      using 2(2) False by (auto simp: Let_def split: prod.splits)
    from 2(1) [OF False refl refl, of code' comment] r 2(3) False show ?thesis
      by (auto split: if_splits)
  qed
qed simp

section \<open>What a line's references decide\<close>

fun ref_names :: "piece list \<Rightarrow> string set" where
  "ref_names [] = {}"
| "ref_names (Lit c # ps) = ref_names ps"
| "ref_names (Ref n d # ps) = insert n (ref_names ps)"

lemma resolve_ref_cong: "env n = env' n \<Longrightarrow> resolve_ref env n d = resolve_ref env' n d"
  by (simp add: resolve_ref_def)

lemma render_cong: "\<forall>n \<in> ref_names ps. env n = env' n \<Longrightarrow> render env ps = render env' ps"
proof (induction ps)
  case (Cons p ps)
  then show ?case by (cases p) (simp_all add: resolve_ref_cong [of env _ env'])
qed simp

text \<open>The names the environment is asked for: those in the code part of the lines that are not
  kept verbatim.\<close>

fun live_refs :: "nat option \<Rightarrow> string list \<Rightarrow> string set" where
  "live_refs block [] = {}"
| "live_refs block (line # ls) =
     (case line_class block line of
        (False, block') \<Rightarrow> live_refs block' ls
      | (True, block') \<Rightarrow> ref_names (pieces (fst (split_inline_comment line))) \<union> live_refs block' ls)"

lemma interpolate_lines_cong:
  "\<forall>n \<in> live_refs block ls. env n = env' n \<Longrightarrow>
     interpolate_lines env block ls = interpolate_lines env' block ls"
proof (induction ls arbitrary: block)
  case (Cons line ls)
  obtain live block' where c: "line_class block line = (live, block')" by fastforce
  obtain code comment where s: "split_inline_comment line = (code, comment)" by fastforce
  show ?case
  proof (cases live)
    case True
    with Cons.prems c s have "\<forall>n \<in> ref_names (pieces code). env n = env' n" "\<forall>n \<in> live_refs block' ls. env n = env' n"
      by auto
    with Cons.IH [of block'] c s True show ?thesis
      by (simp add: interpolate_line_def render_cong [of "pieces code" env env'])
  next
    case False
    with Cons.prems c have "\<forall>n \<in> live_refs block' ls. env n = env' n" by auto
    with Cons.IH [of block'] c False show ?thesis by simp
  qed
qed simp

lemma sum_append_Inr_iff:
  "sum_append a b = Inr z \<longleftrightarrow> (\<exists>x y. a = Inr x \<and> b = Inr y \<and> z = x @ y)"
  by (auto simp: sum_append_def split: sum.splits)

lemma render_no_refs: "ref_names ps = {} \<Longrightarrow> render env ps = Inr (concat (map piece_text ps))"
  by (induction env ps rule: render.induct) (auto simp: sum_append_def)

lemma sum_append_isl: "isl (sum_append a b) \<longleftrightarrow> isl a \<or> isl b"
  by (auto simp: sum_append_def split: sum.splits)

lemma interpolate_lines_no_refs:
  "live_refs block ls = {} \<Longrightarrow> interpolate_lines env block ls = Inr (concat ls)"
proof (induction ls arbitrary: block)
  case (Cons line ls)
  obtain live block' where c: "line_class block line = (live, block')" by fastforce
  obtain code comment where s: "split_inline_comment line = (code, comment)" by fastforce
  then have l: "line = code @ comment"
    by (simp add: split_inline_comment_def inline_comment_append)
  show ?case
  proof (cases live)
    case True
    with Cons.prems c s have "ref_names (pieces code) = {}" "live_refs block' ls = {}" by auto
    with Cons.IH [of block'] c s True l show ?thesis
      by (simp add: interpolate_line_def render_no_refs pieces_text sum_append_def)
  next
    case False
    with Cons.prems Cons.IH [of block'] c show ?thesis by (simp add: sum_append_def)
  qed
qed (simp add: sum_append_def)

section \<open>The first failing reference\<close>

fun refs_of :: "piece list \<Rightarrow> (string \<times> string option) list" where
  "refs_of [] = []"
| "refs_of (Lit c # ps) = refs_of ps"
| "refs_of (Ref n d # ps) = (n, d) # refs_of ps"

fun live_ref_list :: "nat option \<Rightarrow> string list \<Rightarrow> (string \<times> string option) list" where
  "live_ref_list block [] = []"
| "live_ref_list block (line # ls) =
     (case line_class block line of
        (False, block') \<Rightarrow> live_ref_list block' ls
      | (True, block') \<Rightarrow> refs_of (pieces (fst (split_inline_comment line))) @ live_ref_list block' ls)"

definition first_error :: "environ \<Rightarrow> (string \<times> string option) list \<Rightarrow> cfg_error option" where
  "first_error env rs =
     (case List.find (\<lambda>(n, d). isl (resolve_ref env n d)) rs of
        None \<Rightarrow> None | Some (n, d) \<Rightarrow> Some (projl (resolve_ref env n d)))"

definition error_of :: "'e + 'a \<Rightarrow> 'e option" where
  "error_of r = (case r of Inl e \<Rightarrow> Some e | Inr _ \<Rightarrow> None)"

lemma error_of_simps [simp]: "error_of (Inl e) = Some e" "error_of (Inr x) = None"
  by (simp_all add: error_of_def)

lemma error_of_append:
  "error_of (sum_append a b) = (case error_of a of Some e \<Rightarrow> Some e | None \<Rightarrow> error_of b)"
  by (simp add: sum_append_def error_of_def split: sum.splits)

lemma first_error_Nil [simp]: "first_error env [] = None"
  by (simp add: first_error_def)

lemma first_error_Cons:
  "first_error env ((n, d) # rs) =
     (case error_of (resolve_ref env n d) of Some e \<Rightarrow> Some e | None \<Rightarrow> first_error env rs)"
  by (cases "resolve_ref env n d") (simp_all add: first_error_def)

lemma first_error_append:
  "first_error env (rs @ rs') = (case first_error env rs of Some e \<Rightarrow> Some e | None \<Rightarrow> first_error env rs')"
proof (induction rs)
  case (Cons r rs)
  then show ?case by (cases r) (simp add: first_error_Cons split: option.splits)
qed simp

lemma render_error: "error_of (render env ps) = first_error env (refs_of ps)"
proof (induction ps)
  case (Cons p ps)
  then show ?case by (cases p) (simp_all add: error_of_append first_error_Cons split: option.split)
qed simp

lemma interpolate_lines_error:
  "error_of (interpolate_lines env block ls) = first_error env (live_ref_list block ls)"
proof (induction ls arbitrary: block)
  case (Cons line ls)
  obtain live block' where c: "line_class block line = (live, block')" by fastforce
  obtain code comment where s: "split_inline_comment line = (code, comment)" by fastforce
  show ?case
    using Cons.IH [of block'] c s
    by (cases live) (simp_all add: error_of_append interpolate_line_def render_error first_error_append
        split: option.splits)
qed simp

section \<open>Outputs aligned with the lines\<close>

definition line_content :: "string \<Rightarrow> string" where
  "line_content line = (case strip_suffix [CHR 0x0A] line of None \<Rightarrow> line | Some c \<Rightarrow> c)"

definition secret_line :: "string \<Rightarrow> bool" where
  "secret_line line \<longleftrightarrow> line_key (trim_start (line_content line)) \<in> set SECRET_KEYS"

lemma secret_line_class: "secret_line line \<Longrightarrow> \<not> fst (line_class block line)"
  by (simp add: secret_line_def line_class_def line_content_def Let_def)

lemma interpolate_lines_aligned:
  "interpolate_lines env block ls = Inr out \<Longrightarrow>
     \<exists>outs. out = concat outs \<and> list_all2 (\<lambda>line o'. secret_line line \<longrightarrow> o' = line) ls outs"
proof (induction ls arbitrary: block out)
  case (Cons line ls)
  obtain live block' where c: "line_class block line = (live, block')" by fastforce
  obtain code comment where s: "split_inline_comment line = (code, comment)" by fastforce
  have "\<exists>o1 o2. out = o1 @ o2 \<and> interpolate_lines env block' ls = Inr o2 \<and> (secret_line line \<longrightarrow> o1 = line)"
  proof (cases live)
    case True
    with Cons.prems c s have "\<not> secret_line line" using secret_line_class [of line block] by auto
    moreover from Cons.prems c s True obtain x y where "interpolate_lines env block' ls = Inr y"
      "out = (x @ comment) @ y" by (auto simp: sum_append_Inr_iff)
    ultimately show ?thesis by blast
  next
    case False
    with Cons.prems c show ?thesis by (auto simp: sum_append_Inr_iff)
  qed
  then obtain o1 o2 where o: "out = o1 @ o2" "interpolate_lines env block' ls = Inr o2"
    "secret_line line \<longrightarrow> o1 = line" by blast
  from Cons.IH [OF o(2)] obtain outs where
    "o2 = concat outs" "list_all2 (\<lambda>line o'. secret_line line \<longrightarrow> o' = line) ls outs" by blast
  with o show ?case by (intro exI [of _ "o1 # outs"]) simp
qed simp

section \<open>Properties\<close>


definition demo_yaml :: string where
  "demo_yaml = ''a: ${A} # ${C}'' @ [CHR 0x0A] @ ''docker-registry-password: ${P}'' @ [CHR 0x0A]"


text \<open>
  Interpolation fails exactly at the first unresolvable live reference, with that reference's
  own error: a nested default, a variable that is not set and has no default, or a value that is not
  Unicode. In particular a missing variable never turns into an empty value.
\<close>

theorem interpolate_first_error:
  "error_of (interpolate env input) = first_error env (live_ref_list None (split_inclusive input))"
  by (simp add: interpolate_def interpolate_lines_error)

text \<open>
  C26: A value counts as a pure environment reference, and is then stored verbatim, exactly when it
  contains a reference and every character outside its references is white space: a literal secret
  such as \<open>abc${def\<close> or \<open>${A}tail\<close> never does.
\<close>

theorem is_pure_env_ref_iff:
  "is_pure_env_ref v \<longleftrightarrow>
     (\<exists>n d. Ref n d \<in> set (pieces (trim v))) \<and> (\<forall>c. Lit c \<in> set (pieces (trim v)) \<longrightarrow> is_ws c)"
proof -
  let ?ps = "pieces (trim v)"
  let ?lits = "concat (map (\<lambda>p. case p of Lit c \<Rightarrow> [c] | Ref _ _ \<Rightarrow> []) ?ps)"
  have lits: "c \<in> set ?lits \<longleftrightarrow> Lit c \<in> set ?ps" for c
    by (force split: piece.splits)
  have ws: "trim s = [] \<longleftrightarrow> (\<forall>c \<in> set s. is_ws c)" for s
    by (auto simp: trim_def trim_start_def trim_end_def dropWhile_eq_Nil_conv dest: set_dropWhileD)
      (metis set_takeWhileD takeWhile_dropWhile_id Un_iff set_append)
  have "\<not> (\<forall>c \<in> set (trim v). is_ws c)" if "trim v \<noteq> []"
    using ws [of "trim v"] that by simp
  moreover have "\<forall>c \<in> set (trim v). is_ws c"
    if nr: "\<forall>n d. Ref n d \<notin> set ?ps" and l: "\<forall>c. Lit c \<in> set ?ps \<longrightarrow> is_ws c"
  proof
    fix c assume "c \<in> set (trim v)"
    then have "c \<in> set (concat (map piece_text ?ps))" by (simp only: pieces_text)
    then obtain p where "p \<in> set ?ps" "c \<in> set (piece_text p)" by auto
    with nr l show "is_ws c" by (cases p) auto
  qed
  moreover have "trim v \<noteq> []" if "Ref n d \<in> set ?ps" for n d
    using that by auto
  ultimately show ?thesis
    unfolding is_pure_env_ref_def Let_def ws Ball_def lits by metis
qed

text \<open>
  Cutting an inline comment loses nothing and cuts only at a comment: the two parts concatenate
  to the line, and a comment part starts with a hash that is outside single and double quotes and
  at the start of the line or after a blank.
\<close>

theorem split_inline_comment_sound:
  assumes "split_inline_comment line = (code, comment)"
  shows "line = code @ comment
    \<and> (comment \<noteq> [] \<longrightarrow> hd comment = CHR ''#'' \<and> quotes_after False False code = (False, False)
         \<and> (code \<noteq> [] \<longrightarrow> last code = CHR '' '' \<or> last code = CHR 0x09))"
  using assms inline_comment_append [of False False True line code comment]
    inline_comment_hash [of False False True line code comment]
    inline_comment_outside [of False False True line code comment]
  by (auto simp: split_inline_comment_def split: if_splits)

lemma split_inline_comment_sound_witness:
  "split_inline_comment ''port: 3838 # uses ${VAR}'' = (''port: 3838 '', ''# uses ${VAR}'')
   \<and> quotes_after False False ''port: 3838 '' = (False, False)"
proof -
  have e: "split_inline_comment ''port: 3838 # uses ${VAR}'' = (''port: 3838 '', ''# uses ${VAR}'')"
    by code_simp
  from split_inline_comment_sound [OF e] e show ?thesis by simp
qed

lemma is_pure_env_ref_iff_witness:
  "is_pure_env_ref '' ${A} ${B:-x} '' \<and> \<not> is_pure_env_ref ''abc${def''"
proof -
  have a: "pieces (trim '' ${A} ${B:-x} '') = [Ref ''A'' None, Lit CHR '' '', Ref ''B'' (Some ''x'')]"
    by code_simp
  have b: "pieces (trim ''abc${def'') = map Lit ''abc${def''" by code_simp
  show ?thesis
    unfolding is_pure_env_ref_iff [of "'' ${A} ${B:-x} ''"] is_pure_env_ref_iff [of "''abc${def''"] a b
    by (auto simp: is_ws_def)
qed

end
