(* ===== verification/Rust_F64.thy ===== *)
theory Rust_F64
  imports Complex_Main Rust_Text
begin

text \<open>
  Rust's \<open>f64\<close> as far as the code uses it: IEEE binary64 values as rationals with the
  infinities and NaN, every operation the exact result rounded to the nearest value, ties to even.
  The two zeros are one value, which no comparison or cast of the code distinguishes.
\<close>

section \<open>Values and rounding\<close>

datatype f64 = Fin rat | PInf | NInf | NaN

fun floor_log2 :: "nat \<Rightarrow> nat" where
  "floor_log2 n = (if n < 2 then 0 else Suc (floor_log2 (n div 2)))"

declare floor_log2.simps [simp del]

definition round_half_even :: "rat \<Rightarrow> int" where
  "round_half_even q =
     (let f = \<lfloor>q\<rfloor>; d = q - of_int f in
      if d < 1 / 2 then f else if d > 1 / 2 then f + 1 else if even f then f else f + 1)"

definition binary_exponent :: "rat \<Rightarrow> int" where
  "binary_exponent q =
     (case quotient_of q of (n, d) \<Rightarrow>
       let e = int (floor_log2 (nat n)) - int (floor_log2 (nat d))
       in if 2 powi e \<le> q then e else e - 1)"

definition f64_round :: "rat \<Rightarrow> f64" where
  "f64_round q =
     (if q = 0 then Fin 0
      else let p = max (binary_exponent \<bar>q\<bar> - 52) (- 1074);
               r = of_int (round_half_even (\<bar>q\<bar> / 2 powi p)) * 2 powi p
           in if r \<ge> 2 ^ 1024 then (if q < 0 then NInf else PInf)
              else Fin (if q < 0 then - r else r))"

fun is_finite :: "f64 \<Rightarrow> bool" where
  "is_finite (Fin _) = True" | "is_finite _ = False"

fun f64_lt :: "f64 \<Rightarrow> f64 \<Rightarrow> bool" where
  "f64_lt (Fin a) (Fin b) = (a < b)"
| "f64_lt NaN _ = False" | "f64_lt _ NaN = False"
| "f64_lt PInf _ = False" | "f64_lt _ NInf = False"
| "f64_lt NInf _ = True" | "f64_lt _ PInf = True"

definition f64_of_nat :: "nat \<Rightarrow> f64" where
  "f64_of_nat n = f64_round (of_nat n)"

text \<open>Multiplication by a positive finite value, and division by one: all the code needs.\<close>

fun f64_mul_pos :: "f64 \<Rightarrow> rat \<Rightarrow> f64" where
  "f64_mul_pos (Fin a) b = f64_round (a * b)" | "f64_mul_pos x b = x"

fun f64_div_pos :: "f64 \<Rightarrow> rat \<Rightarrow> f64" where
  "f64_div_pos (Fin a) b = f64_round (a / b)" | "f64_div_pos x b = x"

text \<open>The cast \<open>as i64\<close>: truncated, saturating, NaN to zero.\<close>

fun f64_to_i64 :: "f64 \<Rightarrow> int" where
  "f64_to_i64 (Fin q) =
     (let t = (if q < 0 then - \<lfloor>- q\<rfloor> else \<lfloor>q\<rfloor>) in max (- (2 ^ 63)) (min (2 ^ 63 - 1) t))"
| "f64_to_i64 PInf = 2 ^ 63 - 1"
| "f64_to_i64 NInf = - (2 ^ 63)"
| "f64_to_i64 NaN = 0"

section \<open>\<open>str::parse::<f64>\<close>\<close>

definition parse_sign :: "string \<Rightarrow> bool \<times> string" where
  "parse_sign s = (case s of [] \<Rightarrow> (False, [])
     | c # cs \<Rightarrow> if c = CHR ''-'' then (True, cs) else if c = CHR ''+'' then (False, cs) else (False, s))"

definition parse_exponent :: "string \<Rightarrow> int option" where
  "parse_exponent s = (case parse_sign s of (neg, ds) \<Rightarrow>
     if ds \<noteq> [] \<and> list_all is_digit ds
     then Some (if neg then - int (dec_val ds) else int (dec_val ds)) else None)"

definition parse_mantissa :: "string \<Rightarrow> (nat \<times> nat) option" where
  "parse_mantissa s =
     (let (ip, fp) = (case split_once CHR ''.'' s of None \<Rightarrow> (s, []) | Some p \<Rightarrow> p)
      in if (ip \<noteq> [] \<or> fp \<noteq> []) \<and> list_all is_digit ip \<and> list_all is_digit fp
         then Some (dec_val (ip @ fp), length fp) else None)"

definition decimal_value :: "string \<Rightarrow> rat option" where
  "decimal_value s =
     (let (ms, es) = (case split_once CHR ''e'' s of None \<Rightarrow> (s, None) | Some (a, b) \<Rightarrow> (a, Some b))
      in case parse_mantissa ms of None \<Rightarrow> None
         | Some (n, k) \<Rightarrow>
             (case es of None \<Rightarrow> Some (of_nat n * 10 powi (- int k))
              | Some e \<Rightarrow> map_option (\<lambda>x. of_nat n * 10 powi (x - int k)) (parse_exponent e)))"

definition parse_f64 :: "string \<Rightarrow> f64 option" where
  "parse_f64 s = (case parse_sign (lowercase s) of (neg, u) \<Rightarrow>
     if u = ''inf'' \<or> u = ''infinity'' then Some (if neg then NInf else PInf)
     else if u = ''nan'' then Some NaN
     else map_option (\<lambda>q. f64_round (if neg then - q else q)) (decimal_value u))"

section \<open>Rounding is exact on 53-bit numbers\<close>

lemma floor_log2_bounds: "0 < n \<Longrightarrow> 2 ^ floor_log2 n \<le> n \<and> n < 2 ^ Suc (floor_log2 n)"
proof (induction n rule: floor_log2.induct)
  case (1 n)
  show ?case
  proof (cases "n < 2")
    case True
    with 1 show ?thesis by (subst (1 2) floor_log2.simps) (auto simp: less_2_cases_iff)
  next
    case False
    with 1 have "2 ^ floor_log2 (n div 2) \<le> n div 2 \<and> n div 2 < 2 ^ Suc (floor_log2 (n div 2))" by simp
    then have "2 * 2 ^ floor_log2 (n div 2) \<le> n" and "n < 2 * 2 ^ Suc (floor_log2 (n div 2))" by linarith+
    with False show ?thesis by (subst (1 2) floor_log2.simps) simp
  qed
qed

lemma round_half_even_int [simp]: "round_half_even (of_int k) = k"
  by (simp add: round_half_even_def)

lemma powi_le: "a \<le> b \<Longrightarrow> (2::rat) powi a \<le> 2 powi b"
  by (rule power_int_increasing) simp_all

lemma powi_pos: "(0::rat) < 2 powi e"
  by simp

lemma binary_exponent_bounds:
  assumes "0 < q"
  shows "2 powi binary_exponent q \<le> q \<and> q < 2 powi (binary_exponent q + 1)"
proof -
  obtain n d where nd: "quotient_of q = (n, d)" by fastforce
  have d: "0 < d" using quotient_of_denom_pos [OF nd] .
  have q: "q = of_int n / of_int d" by (rule quotient_of_div [OF nd])
  with assms d have n: "0 < n" by (simp add: zero_less_divide_iff)
  let ?a = "floor_log2 (nat n)" and ?b = "floor_log2 (nat d)"
  have N: "2 ^ ?a \<le> nat n" "nat n < 2 ^ Suc ?a" and D: "2 ^ ?b \<le> nat d" "nat d < 2 ^ Suc ?b"
    using floor_log2_bounds [of "nat n"] floor_log2_bounds [of "nat d"] n d by auto
  have cast: "(of_nat (nat k) :: rat) = of_int k" if "0 < k" for k using that by simp
  have n1: "(2::rat) ^ ?a \<le> of_int n" using N(1) cast [OF n]
    by (metis of_nat_le_iff of_nat_numeral of_nat_power)
  have n2: "(of_int n :: rat) < 2 ^ Suc ?a" using N(2) cast [OF n]
    by (metis of_nat_less_iff of_nat_numeral of_nat_power)
  have d1: "(2::rat) ^ ?b \<le> of_int d" using D(1) cast [OF d]
    by (metis of_nat_le_iff of_nat_numeral of_nat_power)
  have d2: "(of_int d :: rat) < 2 ^ Suc ?b" using D(2) cast [OF d]
    by (metis of_nat_less_iff of_nat_numeral of_nat_power)
  let ?e = "int ?a - int ?b"
  have e: "(2::rat) powi ?e = 2 ^ ?a / 2 ^ ?b" by (simp add: power_int_diff)
  have "q < 2 ^ Suc ?a / 2 ^ ?b"
    unfolding q using n2 d1 d n by (intro frac_less) auto
  then have up: "q < 2 powi (?e + 1)" using e by (simp add: power_int_add_1 mult.commute)
  have "2 ^ ?a / 2 ^ Suc ?b < q"
    unfolding q using n1 d2 d n by (intro frac_less2) auto
  then have lo: "2 powi (?e - 1) < q" using e by (simp add: power_int_diff)
  have "binary_exponent q = (if 2 powi ?e \<le> q then ?e else ?e - 1)"
    by (simp add: binary_exponent_def nd Let_def)
  with up lo show ?thesis by auto
qed

lemma f64_round_exact:
  assumes m: "m < 2 ^ 53" and v: "(of_nat m :: rat) * 2 ^ p < 2 ^ 1024"
  shows "f64_round (of_nat m * 2 ^ p) = Fin (of_nat m * 2 ^ p)"
proof (cases "m = 0")
  case False
  let ?q = "(of_nat m :: rat) * 2 ^ p"
  from False have pos: "0 < ?q" by simp
  let ?e = "binary_exponent ?q"
  have "2 powi ?e \<le> ?q" using binary_exponent_bounds [OF pos] by simp
  also have "?q < 2 powi (53 + int p)"
    using m by (simp add: power_int_add)
  finally have lt: "(2::rat) powi ?e < 2 powi (53 + int p)" .
  have "?e < 53 + int p"
  proof (rule ccontr)
    assume "\<not> ?e < 53 + int p"
    then have "(2::rat) powi (53 + int p) \<le> 2 powi ?e" by (intro powi_le) simp
    with lt show False by simp
  qed
  then have "0 \<le> int p - max (?e - 52) (- 1074)" by simp
  then obtain j where j: "int p = max (?e - 52) (- 1074) + int j"
    by (metis add_diff_cancel_left' diff_add_cancel add.commute zero_le_imp_eq_int)
  let ?p = "max (?e - 52) (- 1074)"
  have "(2::rat) ^ p = 2 powi ?p * 2 ^ j"
    using j by (metis power_int_add power_int_of_nat zero_neq_numeral)
  then have "?q = of_int (int m * 2 ^ j) * 2 powi ?p" by (simp add: mult_ac)
  then have k: "?q / 2 powi ?p = of_int (int m * 2 ^ j)"
    by (metis nonzero_mult_div_cancel_right powi_pos less_irrefl)
  then have "of_int (round_half_even (?q / 2 powi ?p)) * 2 powi ?p = ?q"
    by (metis nonzero_divide_eq_eq powi_pos less_irrefl round_half_even_int)
  moreover have "\<not> ?q < 0" "\<bar>?q\<bar> = ?q" using pos by simp_all
  ultimately show ?thesis using pos v by (simp add: f64_round_def Let_def)
qed (simp add: f64_round_def)

lemma f64_of_nat_exact: "n < 2 ^ 53 \<Longrightarrow> f64_of_nat n = Fin (of_nat n)"
proof -
  assume n: "n < 2 ^ 53"
  then have "(of_nat n :: rat) < of_nat (2 ^ 53)" by (rule of_nat_less_iff [THEN iffD2])
  then have "(of_nat n :: rat) * 2 ^ 0 < 2 ^ 1024" by simp
  from f64_round_exact [OF n this] show ?thesis by (simp add: f64_of_nat_def)
qed

end
