(* ===== verification/Config_Schema.thy ===== *)
theory Config_Schema
  imports Config_Rate Config_Env Rust_F64 Core_Types
begin

text \<open>
  The configuration schema and the effective values the rest of the program reads
  (\<open>crates/ruscker-config/src/schema.rs\<close>). A \<open>BTreeMap\<close> is its rows in key order. A value of the
  free-form \<open>template-properties\<close> (a YAML value) is seen only as a string or not a string.
\<close>

section \<open>The server block\<close>

record session_config =
  sc_timeout :: "u64 option"

record servlet_config =
  svc_session :: "session_config option"

record server =
  srv_use_forward_headers :: bool
  srv_forward_headers_strategy :: "string option"
  srv_secure_cookies :: bool
  srv_servlet :: "servlet_config option"
  srv_flat_servlet_session_timeout :: "u64 option"
  srv_context_path :: "string option"
  srv_flat_servlet_context_path :: "string option"
  srv_timezone :: "string option"

definition normalize_base_path :: "string \<Rightarrow> string" where
  "normalize_base_path raw =
     (let t = trim_matches (\<lambda>c. c = CHR ''/'') (trim raw) in if t = [] then [] else CHR ''/'' # t)"

definition or_option :: "'a option \<Rightarrow> 'a option \<Rightarrow> 'a option" where
  "or_option a b = (case a of None \<Rightarrow> b | Some x \<Rightarrow> Some x)"

definition effective_base_path :: "server \<Rightarrow> string" where
  "effective_base_path s =
     normalize_base_path
       (case or_option (srv_context_path s) (srv_flat_servlet_context_path s) of None \<Rightarrow> [] | Some p \<Rightarrow> p)"

text \<open>The IANA database is a parameter: the zone a name denotes, if any.\<close>

definition effective_timezone :: "(string \<Rightarrow> 'tz option) \<Rightarrow> 'tz \<Rightarrow> server \<Rightarrow> 'tz" where
  "effective_timezone parse_tz utc s =
     (case map_option trim (srv_timezone s) of
        None \<Rightarrow> utc
      | Some n \<Rightarrow> if n = [] then utc else (case parse_tz n of None \<Rightarrow> utc | Some z \<Rightarrow> z))"

definition session_timeout_secs :: "server \<Rightarrow> u64 option" where
  "session_timeout_secs s =
     or_option (Option.bind (Option.bind (srv_servlet s) svc_session) sc_timeout)
       (srv_flat_servlet_session_timeout s)"

section \<open>Hosts and specs\<close>

record host_tls =
  tls_ca :: string
  tls_cert :: string
  tls_key :: string

record host =
  host_id :: string
  host_address :: string
  host_tls_opt :: "host_tls option"
  host_max_containers :: "u32 option"
  host_weight :: "u32 option"

datatype auth_scheme = AuthNone | OpenId | Ldap | Saml | Simple

datatype identity_claim = Email | Setor

datatype kind_override = KShiny | KApp | KStreamlit | KDash | KVoila | KApi | KExternal

datatype spec_kind = Shiny | InteractiveApp | Api | External

datatype routing_strategy = LeastConnections | RoundRobin | WeightedRandom | ResourceAware

datatype yaml_value = YStr string | YOther

type_synonym template_properties = "string \<rightharpoonup> yaml_value"

definition tp_get_str :: "template_properties \<Rightarrow> string \<Rightarrow> string option" where
  "tp_get_str tp k = (case tp k of Some (YStr s) \<Rightarrow> Some s | _ \<Rightarrow> None)"

definition tp_set_str :: "string \<Rightarrow> string \<Rightarrow> template_properties \<Rightarrow> template_properties" where
  "tp_set_str k v tp = tp(k \<mapsto> YStr v)"

definition tp_remove :: "string \<Rightarrow> template_properties \<Rightarrow> template_properties" where
  "tp_remove k tp = tp(k := None)"

definition tp_type_field :: "template_properties \<Rightarrow> string option" where
  "tp_type_field tp = tp_get_str tp ''type''"

definition tp_state :: "template_properties \<Rightarrow> string" where
  "tp_state tp = (case tp_get_str tp ''state'' of None \<Rightarrow> ''active'' | Some s \<Rightarrow> s)"

definition tp_is_active :: "template_properties \<Rightarrow> bool" where
  "tp_is_active tp \<longleftrightarrow> tp_state tp = ''active''"

record spec =
  sp_id :: string
  sp_display_name :: "string option"
  sp_description :: "string option"
  sp_featured :: "bool option"
  sp_container_image :: "string option"
  sp_container_port :: "u16 option"
  sp_platform :: "string option"
  sp_seats_per_container :: "u32 option"
  sp_max_lifetime :: "u64 option"
  sp_container_lifetime :: "u64 option"
  sp_heartbeat_timeout :: "int option"
  sp_container_wait_time :: "u64 option"
  sp_stop_on_logout :: "bool option"
  sp_docker_registry_username :: "string option"
  sp_docker_registry_password :: "string option"
  sp_docker_registry_domain :: "string option"
  sp_docker_registry_credential :: "string option"
  sp_container_cpu_limit :: "f64 option"
  sp_container_cpu_request :: "f64 option"
  sp_container_memory_limit :: "string option"
  sp_container_memory_request :: "string option"
  sp_max_body_size :: "string option"
  sp_volumes :: "string list option"
  sp_container_env :: "(string \<times> string) list option"
  sp_container_cmd :: "string list option"
  sp_container_network :: "string option"
  sp_labels :: "(string \<times> string) list option"
  sp_access_groups :: "string list option"
  sp_access_users :: "string list option"
  sp_require_mfa :: "bool option"
  sp_mfa_validity_days :: "u16 option"
  sp_add_default_http_headers :: "bool option"
  sp_identity_claims :: "string list option"
  sp_template_properties :: template_properties
  sp_kind_override :: "kind_override option"
  sp_api :: "api_spec option"
  sp_min_replicas :: "u32 option"
  sp_max_replicas :: "u32 option"
  sp_scale_up_threshold :: "f64 option"
  sp_scale_down_threshold :: "f64 option"
  sp_scale_down_grace :: "u64 option"
  sp_scale_down_cooldown_secs :: "u64 option"
  sp_drain_timeout :: "u64 option"
  sp_routing_strategy :: "routing_strategy option"
  sp_concurrent_requests_per_replica :: "u32 option"
  sp_placement :: "placement option"
  sp_anti_affinity :: "bool option"
  sp_inject_base_href :: "bool option"

definition blank_spec :: "string \<Rightarrow> spec" where
  "blank_spec i = \<lparr>sp_id = i, sp_display_name = None, sp_description = None, sp_featured = None,
     sp_container_image = None, sp_container_port = None, sp_platform = None,
     sp_seats_per_container = None, sp_max_lifetime = None, sp_container_lifetime = None,
     sp_heartbeat_timeout = None, sp_container_wait_time = None, sp_stop_on_logout = None,
     sp_docker_registry_username = None, sp_docker_registry_password = None,
     sp_docker_registry_domain = None, sp_docker_registry_credential = None,
     sp_container_cpu_limit = None, sp_container_cpu_request = None,
     sp_container_memory_limit = None, sp_container_memory_request = None,
     sp_max_body_size = None, sp_volumes = None, sp_container_env = None, sp_container_cmd = None,
     sp_container_network = None, sp_labels = None, sp_access_groups = None,
     sp_access_users = None, sp_require_mfa = None, sp_mfa_validity_days = None,
     sp_add_default_http_headers = None, sp_identity_claims = None,
     sp_template_properties = Map.empty, sp_kind_override = None, sp_api = None,
     sp_min_replicas = None, sp_max_replicas = None, sp_scale_up_threshold = None,
     sp_scale_down_threshold = None, sp_scale_down_grace = None,
     sp_scale_down_cooldown_secs = None, sp_drain_timeout = None, sp_routing_strategy = None,
     sp_concurrent_requests_per_replica = None, sp_placement = None, sp_anti_affinity = None,
     sp_inject_base_href = None\<rparr>"

record proxy_config =
  px_title :: string
  px_landing_page :: string
  px_hide_navbar :: bool
  px_heartbeat_rate :: u64
  px_heartbeat_timeout :: int
  px_container_wait_time :: u64
  px_shutdown_grace_ms :: u64
  px_metrics_interval_secs :: u64
  px_max_body_size :: "string option"
  px_container_log_path :: "string option"
  px_port :: u16
  px_bind_address :: string
  px_authentication :: auth_scheme
  px_specs :: "spec list"
  px_metrics_enabled :: bool
  px_hosts :: "host list"

definition proxy_default :: proxy_config where
  "proxy_default = \<lparr>px_title = ''Ruscker'', px_landing_page = ''/'', px_hide_navbar = False,
     px_heartbeat_rate = 10000, px_heartbeat_timeout = 3600000, px_container_wait_time = 60000,
     px_shutdown_grace_ms = 30000, px_metrics_interval_secs = 0, px_max_body_size = None,
     px_container_log_path = None, px_port = 8080, px_bind_address = ''0.0.0.0'',
     px_authentication = AuthNone, px_specs = [], px_metrics_enabled = False, px_hosts = []\<rparr>"

section \<open>Memory sizes\<close>

definition parse_memory_string :: "string \<Rightarrow> int option" where
  "parse_memory_string s0 =
     (let s = trim s0 in
      if s = [] then None
      else (let l = lower_char (last s) in
        if l \<noteq> CHR ''b'' \<and> l \<noteq> CHR ''k'' \<and> l \<noteq> CHR ''m'' \<and> l \<noteq> CHR ''g'' \<and> is_lower l then None
        else (let suffixed = is_lower l;
                  num_part = (if suffixed then butlast s else s);
                  multiplier = (if l = CHR ''k'' then 1024 else if l = CHR ''m'' then 1024 * 1024
                                else if l = CHR ''g'' then 1024 * 1024 * 1024 else 1)
              in case parse_f64 (trim num_part) of
                   None \<Rightarrow> None
                 | Some n \<Rightarrow>
                     if \<not> is_finite n \<or> f64_lt n (Fin 0) then None
                     else (let bytes = f64_to_i64 (f64_mul_pos n multiplier)
                           in if bytes \<ge> 0 then Some bytes else None))))"

definition is_valid_memory_size :: "string \<Rightarrow> bool" where
  "is_valid_memory_size s \<longleftrightarrow> parse_memory_string s \<noteq> None"

section \<open>Effective values\<close>

definition effective_metrics_interval_secs :: "proxy_config \<Rightarrow> u64" where
  "effective_metrics_interval_secs p =
     (if px_metrics_interval_secs p = 0 then 5 else px_metrics_interval_secs p)"

definition max_body_bytes :: "proxy_config \<Rightarrow> int option" where
  "max_body_bytes p = Option.bind (px_max_body_size p) parse_memory_string"

definition DEFAULT_MAX_REPLICAS :: u32 where "DEFAULT_MAX_REPLICAS = 5"
definition DEFAULT_SCALE_DOWN_COOLDOWN_SECS :: u64 where "DEFAULT_SCALE_DOWN_COOLDOWN_SECS = 60"
definition DEFAULT_SEATS_PER_APP :: u32 where "DEFAULT_SEATS_PER_APP = 10"
definition DEFAULT_MFA_VALIDITY_DAYS :: u16 where "DEFAULT_MFA_VALIDITY_DAYS = 7"
definition MAX_MFA_VALIDITY_DAYS :: u16 where "MAX_MFA_VALIDITY_DAYS = 30"

definition env_pairs :: "spec \<Rightarrow> string list" where
  "env_pairs sp =
     (case sp_container_env sp of None \<Rightarrow> [] | Some m \<Rightarrow> map (\<lambda>(k, v). k @ ''='' @ v) m)"

fun collect_results :: "('e + 'a) list \<Rightarrow> 'e + 'a list" where
  "collect_results [] = Inr []"
| "collect_results (Inl e # rs) = Inl e"
| "collect_results (Inr x # rs) = (case collect_results rs of Inl e \<Rightarrow> Inl e | Inr xs \<Rightarrow> Inr (x # xs))"

definition resolved_env_pairs :: "environ \<Rightarrow> spec \<Rightarrow> cfg_error + string list" where
  "resolved_env_pairs env sp =
     collect_results (map (\<lambda>kv. case split_once CHR ''='' kv of
         Some (k, v) \<Rightarrow> (case interpolate_value env v of Inl e \<Rightarrow> Inl e | Inr r \<Rightarrow> Inr (k @ ''='' @ r))
       | None \<Rightarrow> Inr kv) (env_pairs sp))"

definition spec_kind_of :: "spec \<Rightarrow> spec_kind" where
  "spec_kind_of sp =
     (case sp_kind_override sp of
        Some KApi \<Rightarrow> Api
      | Some KShiny \<Rightarrow> Shiny
      | Some KApp \<Rightarrow> InteractiveApp
      | Some KStreamlit \<Rightarrow> InteractiveApp
      | Some KDash \<Rightarrow> InteractiveApp
      | Some KVoila \<Rightarrow> InteractiveApp
      | Some KExternal \<Rightarrow> External
      | None \<Rightarrow> if sp_container_image sp \<noteq> None then Shiny else External)"

definition unwrap_or :: "'a \<Rightarrow> 'a option \<Rightarrow> 'a" where
  "unwrap_or d x = (case x of None \<Rightarrow> d | Some v \<Rightarrow> v)"

lemma unwrap_or_simps [simp]: "unwrap_or d None = d" "unwrap_or d (Some v) = v"
  by (simp_all add: unwrap_or_def)

definition effective_seats :: "spec \<Rightarrow> u32" where
  "effective_seats sp =
     (case sp_seats_per_container sp of Some n \<Rightarrow> n
      | None \<Rightarrow> (case spec_kind_of sp of Api \<Rightarrow> 100 | Shiny \<Rightarrow> DEFAULT_SEATS_PER_APP
          | InteractiveApp \<Rightarrow> DEFAULT_SEATS_PER_APP | External \<Rightarrow> 0))"

definition is_open :: "spec \<Rightarrow> bool" where
  "is_open sp \<longleftrightarrow> unwrap_or [] (sp_access_groups sp) = [] \<and> unwrap_or [] (sp_access_users sp) = []"

definition effective_require_mfa :: "spec \<Rightarrow> bool" where
  "effective_require_mfa sp = unwrap_or False (sp_require_mfa sp)"

definition effective_mfa_validity_days :: "spec \<Rightarrow> u16" where
  "effective_mfa_validity_days sp =
     min (unwrap_or DEFAULT_MFA_VALIDITY_DAYS (sp_mfa_validity_days sp)) MAX_MFA_VALIDITY_DAYS"

definition effective_add_default_http_headers :: "spec \<Rightarrow> bool" where
  "effective_add_default_http_headers sp = unwrap_or False (sp_add_default_http_headers sp)"

definition claim_of_name :: "string \<Rightarrow> identity_claim option" where
  "claim_of_name n =
     (if trim n = ''email'' then Some Email else if trim n = ''setor'' then Some Setor else None)"

definition effective_identity_claims :: "spec \<Rightarrow> identity_claim list" where
  "effective_identity_claims sp =
     foldl (\<lambda>claims name. case claim_of_name name of None \<Rightarrow> claims
        | Some c \<Rightarrow> if c \<in> set claims then claims else claims @ [c])
       [] (unwrap_or [] (sp_identity_claims sp))"

definition shows_lock_badge :: "spec \<Rightarrow> bool" where
  "shows_lock_badge sp \<longleftrightarrow>
     tp_get_str (sp_template_properties sp) ''locked'' \<in> Some ` {''true'', ''on'', ''1'', ''yes''}"

definition access_allows :: "spec \<Rightarrow> bool \<Rightarrow> string option \<Rightarrow> string list \<Rightarrow> bool" where
  "access_allows sp is_admin username groups =
     (if is_admin \<or> is_open sp then True
      else if (case username of None \<Rightarrow> False
               | Some name \<Rightarrow> (case sp_access_users sp of None \<Rightarrow> False
                   | Some us \<Rightarrow> list_ex (\<lambda>u. u = name) us))
      then True
      else (case sp_access_groups sp of None \<Rightarrow> False
            | Some gs \<Rightarrow> list_ex (\<lambda>g. list_ex (\<lambda>h. h = g) groups) gs))"

definition is_featured :: "spec \<Rightarrow> bool" where
  "is_featured sp = unwrap_or False (sp_featured sp)"

definition effective_min_replicas :: "spec \<Rightarrow> u32" where
  "effective_min_replicas sp = unwrap_or 0 (sp_min_replicas sp)"

definition effective_max_replicas :: "spec \<Rightarrow> u32" where
  "effective_max_replicas sp =
     (case sp_max_replicas sp of Some n \<Rightarrow> n
      | None \<Rightarrow> (case spec_kind_of sp of External \<Rightarrow> 0
          | _ \<Rightarrow> max (effective_min_replicas sp) DEFAULT_MAX_REPLICAS))"

definition i64_clamp :: "int \<Rightarrow> int" where
  "i64_clamp n = max (- (2 ^ 63)) (min (2 ^ 63 - 1) n)"

definition effective_max_lifetime_secs :: "spec \<Rightarrow> int option" where
  "effective_max_lifetime_secs sp = map_option (\<lambda>m. i64_clamp (sint m * 60)) (sp_max_lifetime sp)"

definition effective_container_lifetime_secs :: "spec \<Rightarrow> int option" where
  "effective_container_lifetime_secs sp =
     map_option (\<lambda>m. i64_clamp (sint m * 60)) (sp_container_lifetime sp)"

definition effective_drain_timeout_secs :: "spec \<Rightarrow> int" where
  "effective_drain_timeout_secs sp = unwrap_or 60 (map_option sint (sp_drain_timeout sp))"

definition effective_scale_up_threshold :: "spec \<Rightarrow> f64 option" where
  "effective_scale_up_threshold sp = sp_scale_up_threshold sp"

definition effective_scale_down_threshold :: "spec \<Rightarrow> f64 option" where
  "effective_scale_down_threshold sp = sp_scale_down_threshold sp"

definition effective_scale_down_cooldown_secs :: "spec \<Rightarrow> u64" where
  "effective_scale_down_cooldown_secs sp =
     unwrap_or DEFAULT_SCALE_DOWN_COOLDOWN_SECS (sp_scale_down_cooldown_secs sp)"

definition effective_stop_on_logout :: "spec \<Rightarrow> bool" where
  "effective_stop_on_logout sp = unwrap_or False (sp_stop_on_logout sp)"

definition effective_concurrent_requests_per_replica :: "spec \<Rightarrow> u32" where
  "effective_concurrent_requests_per_replica sp = unwrap_or 100 (sp_concurrent_requests_per_replica sp)"

definition effective_placement :: "spec \<Rightarrow> placement" where
  "effective_placement sp = unwrap_or Spread (sp_placement sp)"

definition effective_anti_affinity :: "spec \<Rightarrow> bool" where
  "effective_anti_affinity sp = unwrap_or False (sp_anti_affinity sp)"

definition nonempty :: "string \<Rightarrow> string option" where
  "nonempty s = (if s = [] then None else Some s)"

definition effective_container_network :: "spec \<Rightarrow> string option" where
  "effective_container_network sp = Option.bind (map_option trim (sp_container_network sp)) nonempty"

definition effective_labels :: "spec \<Rightarrow> (string \<times> string) list" where
  "effective_labels sp =
     (case sp_labels sp of None \<Rightarrow> []
      | Some m \<Rightarrow> filter (\<lambda>(k, _). k \<noteq> []) (map (\<lambda>(k, v). (trim k, v)) m))"

definition effective_routing :: "spec \<Rightarrow> routing_strategy" where
  "effective_routing sp =
     (case sp_routing_strategy sp of Some r \<Rightarrow> r
      | None \<Rightarrow> (case spec_kind_of sp of Api \<Rightarrow> RoundRobin | _ \<Rightarrow> LeastConnections))"

definition needs_sticky_sessions :: "spec \<Rightarrow> bool" where
  "needs_sticky_sessions sp \<longleftrightarrow> spec_kind_of sp = Shiny \<or> spec_kind_of sp = InteractiveApp"

definition effective_memory_limit_bytes :: "spec \<Rightarrow> int option" where
  "effective_memory_limit_bytes sp = Option.bind (sp_container_memory_limit sp) parse_memory_string"

definition effective_memory_request_bytes :: "spec \<Rightarrow> int option" where
  "effective_memory_request_bytes sp = Option.bind (sp_container_memory_request sp) parse_memory_string"

definition effective_max_body_bytes :: "spec \<Rightarrow> int option \<Rightarrow> int option" where
  "effective_max_body_bytes sp global =
     or_option (Option.bind (sp_max_body_size sp) parse_memory_string) global"

definition effective_inject_base_href :: "spec \<Rightarrow> bool" where
  "effective_inject_base_href sp = unwrap_or True (sp_inject_base_href sp)"

definition effective_inner_port :: "spec \<Rightarrow> u16 option" where
  "effective_inner_port sp =
     or_option (or_option (or_option (sp_container_port sp) (Option.bind (sp_api sp) api_port))
        (case sp_kind_override sp of Some KStreamlit \<Rightarrow> Some 8501 | Some KDash \<Rightarrow> Some 8050
           | Some KVoila \<Rightarrow> Some 8866 | _ \<Rightarrow> None))
       (case spec_kind_of sp of Api \<Rightarrow> Some 8080 | _ \<Rightarrow> None)"

section \<open>Lemmas on sizes and limits\<close>

lemma digit_not: "is_digit c \<Longrightarrow> lower_char c = c \<and> c \<noteq> CHR ''e'' \<and> c \<noteq> CHR ''.'' \<and> c \<noteq> CHR ''-''
    \<and> c \<noteq> CHR ''+'' \<and> c \<noteq> CHR ''i'' \<and> c \<noteq> CHR ''n'' \<and> \<not> is_lower c \<and> \<not> is_ws c"
  by (auto simp: is_digit_def lower_char_def is_upper_def is_lower_def is_ws_def)

lemma lowercase_digits: "list_all is_digit s \<Longrightarrow> lowercase s = s"
  unfolding lowercase_def by (rule map_idI) (auto simp: list_all_iff digit_not)

lemma parse_f64_digits:
  assumes s: "list_all is_digit s" "s \<noteq> []"
  shows "parse_f64 s = Some (f64_round (of_nat (dec_val s)))"
proof -
  obtain c cs where c: "s = c # cs" "is_digit c" using s by (cases s) auto
  have e: "CHR ''e'' \<notin> set s" "CHR ''.'' \<notin> set s" using s by (auto simp: list_all_iff dest: digit_not)
  have sign: "parse_sign s = (False, s)" using c digit_not [of c] by (simp add: parse_sign_def)
  have "split_once CHR ''e'' s = None" "split_once CHR ''.'' s = None"
    using e by (simp_all add: split_once_None_iff)
  then have "decimal_value s = Some (of_nat (dec_val s))"
    using s by (simp add: decimal_value_def parse_mantissa_def)
  moreover have "s \<noteq> ''inf''" "s \<noteq> ''infinity''" "s \<noteq> ''nan''" using c digit_not [of c] by auto
  ultimately show ?thesis using s sign by (simp add: parse_f64_def lowercase_digits)
qed

definition size_multiplier :: "char \<Rightarrow> nat" where
  "size_multiplier c =
     (let l = lower_char c in if l = CHR ''k'' then 1024 else if l = CHR ''m'' then 1024 * 1024
      else if l = CHR ''g'' then 1024 * 1024 * 1024 else 1)"

lemma trim_no_ws: "\<forall>c \<in> set s. \<not> is_ws c \<Longrightarrow> trim s = s"
  unfolding trim_eq_trim_matches by (rule trim_matches_id) auto

lemma size_bytes:
  assumes n: "n < 2 ^ 53"
  shows "f64_to_i64 (f64_mul_pos (f64_round (of_nat n)) (of_nat (size_multiplier c)))
    = min (int n * int (size_multiplier c)) (2 ^ 63 - 1)"
proof -
  obtain p where p: "size_multiplier c = 2 ^ p" "p \<le> 30"
  proof -
    have "size_multiplier c \<in> {2 ^ 0, 2 ^ 10, 2 ^ 20, 2 ^ 30}" by (simp add: size_multiplier_def Let_def)
    with that [of 0] that [of 10] that [of 20] that [of 30] show thesis by fastforce
  qed
  have r: "f64_round (of_nat n) = Fin (of_nat n)" using f64_of_nat_exact [OF n] by (simp add: f64_of_nat_def)
  have "(of_nat n :: rat) < of_nat (2 ^ 53)" using n by (rule of_nat_less_iff [THEN iffD2])
  moreover have "(2::rat) ^ p \<le> 2 ^ 30" using p(2) by (rule power_increasing) simp
  ultimately have "(of_nat n :: rat) * 2 ^ p < 2 ^ 53 * 2 ^ 30"
    by (intro mult_less_le_imp_less) simp_all
  then have "(of_nat n :: rat) * 2 ^ p < 2 ^ 1024" by (rule less_trans) simp
  from f64_round_exact [OF n this] r p
  have "f64_mul_pos (f64_round (of_nat n)) (of_nat (size_multiplier c)) = Fin (of_int (int n * 2 ^ p))"
    by simp
  moreover have "\<not> (of_int (int n * 2 ^ p) :: rat) < 0" by (simp add: not_less)
  ultimately show ?thesis using p
    by (simp add: Let_def del: of_int_mult of_int_power of_int_of_nat_eq)
qed

section \<open>Properties\<close>

text \<open>
  C18: The access rule shared by the landing page and the \<open>/app\<close> and \<open>/api\<close> guard: a viewer may reach a
  spec exactly when the viewer is an administrator, the spec lists neither users nor groups, the
  viewer's name is listed, or one of the viewer's groups is listed. An anonymous viewer (no name, no
  groups) reaches exactly the open specs.
\<close>

theorem access_allows_iff:
  "(access_allows sp is_admin username groups \<longleftrightarrow>
      is_admin \<or> is_open sp \<or> (\<exists>name. username = Some name \<and> name \<in> set (unwrap_or [] (sp_access_users sp)))
      \<or> (\<exists>g. g \<in> set groups \<and> g \<in> set (unwrap_or [] (sp_access_groups sp))))
   \<and> (access_allows sp False None [] \<longleftrightarrow> is_open sp)"
  by (cases username; cases "sp_access_users sp"; cases "sp_access_groups sp")
    (auto simp: access_allows_def list_ex_iff)

text \<open>
  C31: A memory or body size written as a number below \<open>2^53\<close> with an optional one-letter suffix in
  either case is read exactly: the number times the binary multiplier, capped at the largest 64-bit
  signed integer; the detour through floating point loses nothing.
\<close>

theorem parse_memory_string_exact:
  assumes "n < 2 ^ 53" and "sfx = [] \<or> (\<exists>c. sfx = [c] \<and> lower_char c \<in> {CHR ''b'', CHR ''k'', CHR ''m'', CHR ''g''})"
  shows "parse_memory_string (show_nat n @ sfx) =
      Some (min (int n * int (case sfx of [] \<Rightarrow> 1 | c # _ \<Rightarrow> size_multiplier c)) (2 ^ 63 - 1))"
proof -
  let ?d = "show_nat n"
  note dig = show_nat_digits [of n]
  have nws: "\<forall>c \<in> set ?d. \<not> is_ws c" using dig by (auto simp: list_all_iff dest: digit_not)
  have f: "parse_f64 ?d = Some (f64_round (of_nat n))" using parse_f64_digits [OF dig] by simp
  have fin: "f64_round (of_nat n) = Fin (of_nat n)"
    using f64_of_nat_exact [OF assms(1)] by (simp add: f64_of_nat_def)
  show ?thesis
  proof (cases sfx)
    case Nil
    have last: "is_digit (last ?d)" using dig by (simp add: list_all_iff)
    then have l: "lower_char (last ?d) = last ?d" "\<not> is_lower (last ?d)" using digit_not by blast+
    then have m: "size_multiplier (last ?d) = 1"
      by (auto simp: size_multiplier_def Let_def is_lower_def)
    have "last ?d \<noteq> CHR ''b''" "last ?d \<noteq> CHR ''k''" "last ?d \<noteq> CHR ''m''" "last ?d \<noteq> CHR ''g''"
      using l(2) by (auto simp: is_lower_def)
    with size_bytes [OF assms(1), of "last ?d"] Nil l m f fin trim_no_ws [OF nws] show ?thesis
      by (simp add: parse_memory_string_def Let_def)
  next
    case (Cons c cs)
    with assms(2) have c: "sfx = [c]" "lower_char c \<in> {CHR ''b'', CHR ''k'', CHR ''m'', CHR ''g''}" by auto
    have "\<not> is_ws c" using c(2) by (auto simp: is_ws_def lower_char_def is_upper_def split: if_splits)
    with nws have t: "trim (?d @ [c]) = ?d @ [c]" by (intro trim_no_ws) auto
    have low: "is_lower (lower_char c)" using c(2) by (auto simp: is_lower_def)
    have "of_nat (size_multiplier c) = (if lower_char c = CHR ''k'' then 1024 else if lower_char c = CHR ''m''
        then 1024 * 1024 else if lower_char c = CHR ''g'' then 1024 * 1024 * 1024 else (1::rat))"
      by (simp add: size_multiplier_def Let_def)
    with size_bytes [OF assms(1), of c] c t low f fin trim_no_ws [OF nws] show ?thesis
      by (auto simp: parse_memory_string_def Let_def)
  qed
qed

lemma parse_memory_string_exact_witness: "parse_memory_string ''512M'' = Some 536870912"
proof -
  have s: "show_nat 512 = ''512''" by code_simp
  have l: "lower_char CHR ''M'' = CHR ''m''" by code_simp
  from parse_memory_string_exact [of 512 "''M''"] s l show ?thesis
    by (simp add: size_multiplier_def Let_def)
qed

definition rate_units :: "string list" where
  "rate_units = [''s'', ''sec'', ''secs'', ''second'', ''seconds'', ''m'', ''min'', ''mins'', ''minute'',
     ''minutes'', ''h'', ''hr'', ''hrs'', ''hour'', ''hours'']"

lemma rate_window_plain:
  assumes "rate_window u = Some w"
  shows "\<forall>c \<in> set u. \<not> is_ws c \<and> lower_char c = c"
proof -
  have "list_all (list_all (\<lambda>c. \<not> is_ws c \<and> lower_char c = c)) rate_units" by code_simp
  moreover have "u \<in> set rate_units"
  proof (rule ccontr)
    assume "u \<notin> set rate_units"
    then have "rate_window u = None" unfolding rate_units_def rate_window_def
      by (simp only: list.set insert_iff empty_iff de_Morgan_disj if_False simp_thms)
    with assms show False by simp
  qed
  ultimately show ?thesis by (simp add: list_all_iff)
qed

text \<open>
  A rate limit prints and parses back: a positive 32-bit count, a slash and a unit name give that
  count over that unit's window, and nothing that parses has a zero count or another window.
\<close>

theorem rate_limit_roundtrip:
  assumes "0 < n" and "n < 2 ^ 32" and "rate_window unit = Some w"
  shows "parse_rate_limit (show_nat n @ ''/'' @ unit) = Some \<lparr>rp_max = of_nat n, rp_window = w\<rparr>
    \<and> (\<forall>raw p. parse_rate_limit raw = Some p \<longrightarrow> policy_ok p)"
proof -
  have "CHR ''/'' \<notin> set (show_nat n)" and nws: "\<forall>c \<in> set (show_nat n). \<not> is_ws c"
    using show_nat_digits [of n] by (auto simp: list_all_iff is_digit_def is_ws_def)
  then have sp: "split_once CHR ''/'' (show_nat n @ ''/'' @ unit) = Some (show_nat n, unit)"
    by (simp add: split_once_Some_iff)
  have u: "\<forall>c \<in> set unit. \<not> is_ws c \<and> lower_char c = c"
    by (rule rate_window_plain [OF assms(3)])
  then have "lowercase (trim unit) = unit" using trim_no_ws [of unit]
    by (simp add: lowercase_def map_idI)
  with sp assms trim_no_ws [OF nws] parse_show [OF assms(2)] parse_rate_limit_ok show ?thesis
    by (auto simp: parse_rate_limit_def)
qed

lemma rate_limit_roundtrip_witness:
  "parse_rate_limit ''100/min'' = Some \<lparr>rp_max = 100, rp_window = secs 60\<rparr>"
proof -
  have s: "show_nat 100 = ''100''" by code_simp
  from rate_limit_roundtrip [of 100 "''min''" "secs 60"] s show ?thesis by (simp add: rate_window_def)
qed

text \<open>
  The portal's base path is canonical: empty for the root, or one leading slash, no trailing slash
  and no doubled leading slash; and shaping a path that contains no white space a second time (the
  command line and the YAML both do) changes nothing.
\<close>

theorem base_path_canonical:
  "(normalize_base_path raw = [] \<or>
     (\<exists>q. normalize_base_path raw = CHR ''/'' # q \<and> q \<noteq> [] \<and> hd q \<noteq> CHR ''/'' \<and> last q \<noteq> CHR ''/''))
   \<and> (list_all (\<lambda>c. \<not> is_ws c) raw \<longrightarrow>
        normalize_base_path (normalize_base_path raw) = normalize_base_path raw)"
proof -
  let ?sl = "\<lambda>c. c = CHR ''/''"
  let ?t = "trim_matches ?sl (trim raw)"
  have ends: "?t = [] \<or> (hd ?t \<noteq> CHR ''/'' \<and> last ?t \<noteq> CHR ''/'')"
    using trim_matches_ends [of ?t ?sl "trim raw"] by blast
  have "normalize_base_path (CHR ''/'' # ?t) = CHR ''/'' # ?t"
    if "list_all (\<lambda>c. \<not> is_ws c) raw" "?t \<noteq> []"
  proof -
    have "set ?t \<subseteq> set raw"
      using set_trim_matches [of ?sl "trim raw"] set_trim_matches [of is_ws raw]
      by (auto simp: trim_eq_trim_matches)
    with that(1) have "\<forall>c \<in> set (CHR ''/'' # ?t). \<not> is_ws c"
      by (auto simp: list_all_iff is_ws_def)
    then have 1: "trim (CHR ''/'' # ?t) = CHR ''/'' # ?t" by (rule trim_no_ws)
    have "trim_matches ?sl (CHR ''/'' # ?t) = trim_matches ?sl ?t" by (simp add: trim_matches_def)
    also have "\<dots> = ?t" by simp
    finally show ?thesis using 1 that(2) by (simp add: normalize_base_path_def)
  qed
  moreover have "normalize_base_path [] = []" by (simp add: normalize_base_path_def trim_matches_def)
  ultimately show ?thesis using ends by (auto simp: normalize_base_path_def Let_def)
qed

lemma base_path_canonical_witness:
  "normalize_base_path (normalize_base_path ''/box/'') = normalize_base_path ''/box/''"
  using base_path_canonical [of "''/box/''"] by (simp add: is_ws_def)

text \<open>
  The identity claims forwarded to an app are exactly the recognised names it opted in to, each
  once: an unknown claim name discloses nothing.
\<close>

theorem identity_claims_exact:
  "distinct (effective_identity_claims sp)
   \<and> set (effective_identity_claims sp) =
       {c. \<exists>name. name \<in> set (unwrap_or [] (sp_identity_claims sp)) \<and> claim_of_name name = Some c}"
proof -
  define step where "step = (\<lambda>claims name. case claim_of_name name of None \<Rightarrow> claims
      | Some c \<Rightarrow> if c \<in> set claims then claims else claims @ [c])"
  have "distinct acc \<Longrightarrow> distinct (foldl step acc ns) \<and>
      set (foldl step acc ns) = set acc \<union> {c. \<exists>name. name \<in> set ns \<and> claim_of_name name = Some c}" for acc ns
  proof (induction ns arbitrary: acc)
    case (Cons n ns)
    then have "distinct (step acc n)" "set (step acc n) = set acc \<union> {c. claim_of_name n = Some c}"
      by (auto simp: step_def split: option.splits)
    with Cons.IH [of "step acc n"] show ?case by auto
  qed simp
  from this [of "[]" "unwrap_or [] (sp_identity_claims sp)"] show ?thesis
    by (simp add: effective_identity_claims_def step_def)
qed

lemma collect_results_Inr:
  "collect_results rs = Inr xs \<longleftrightarrow> rs = map Inr xs"
proof
  show "collect_results rs = Inr xs \<Longrightarrow> rs = map Inr xs"
    by (induction rs arbitrary: xs rule: collect_results.induct) (auto split: sum.splits)
  show "rs = map Inr xs \<Longrightarrow> collect_results rs = Inr xs"
    by (induction xs arbitrary: rs) auto
qed

text \<open>
  The container environment handed to a spawn lists the authored variables in order, each name
  unchanged and each value resolved by interpolation at that moment; if any value cannot be resolved
  there is no list at all but an error.
\<close>

theorem resolved_env_pairs_spec:
  assumes "sp_container_env sp = Some m" and "\<forall>(k, v) \<in> set m. CHR ''='' \<notin> set k"
  shows "resolved_env_pairs env sp = Inr out \<longleftrightarrow>
    list_all2 (\<lambda>(k, v) o'. \<exists>r. interpolate_value env v = Inr r \<and> o' = k @ ''='' @ r) m out"
proof -
  have "map (\<lambda>kv. case split_once CHR ''='' kv of
         Some (k, v) \<Rightarrow> (case interpolate_value env v of Inl e \<Rightarrow> Inl e | Inr r \<Rightarrow> Inr (k @ ''='' @ r))
       | None \<Rightarrow> Inr kv) (env_pairs sp) =
     map (\<lambda>(k, v). case interpolate_value env v of Inl e \<Rightarrow> Inl e | Inr r \<Rightarrow> Inr (k @ ''='' @ r)) m"
    using assms by (auto simp: env_pairs_def split_once_Some_iff [THEN iffD2])
  then have "resolved_env_pairs env sp = Inr out \<longleftrightarrow>
     map (\<lambda>(k, v). case interpolate_value env v of Inl e \<Rightarrow> Inl e | Inr r \<Rightarrow> Inr (k @ ''='' @ r)) m = map Inr out"
    by (simp add: resolved_env_pairs_def collect_results_Inr)
  also have "\<dots> \<longleftrightarrow>
    list_all2 (\<lambda>(k, v) o'. \<exists>r. interpolate_value env v = Inr r \<and> o' = k @ ''='' @ r) m out"
  proof (induction m arbitrary: out)
    case (Cons kv m)
    then show ?case by (cases out; cases kv) (auto split: sum.splits)
  qed simp
  finally show ?thesis .
qed

lemma resolved_env_pairs_spec_witness:
  "resolved_env_pairs (\<lambda>_. NotPresent) ((blank_spec ''a'')\<lparr>sp_container_env := Some [(''TZ'', ''UTC'')]\<rparr>)
     = Inr [''TZ=UTC'']"
proof -
  have v: "interpolate_value (\<lambda>_. NotPresent) ''UTC'' = Inr ''UTC''" by code_simp
  show ?thesis
    using resolved_env_pairs_spec [of "(blank_spec ''a'')\<lparr>sp_container_env := Some [(''TZ'', ''UTC'')]\<rparr>"
        "[(''TZ'', ''UTC'')]" "\<lambda>_. NotPresent" "[''TZ=UTC'']"] v
    by simp
qed

end
