(* ===== verification/Config_Validate.thy ===== *)
theory Config_Validate
  imports Config_Schema
begin

text \<open>
  Non-fatal validation (\<open>crates/ruscker-config/src/validate.rs\<close>). The IANA zone table and the
  printing of a floating-point number are parameters. Counting maps are tables; their order, which
  the code leaves to the hash table, only orders the warnings.
\<close>

section \<open>Warnings\<close>

datatype warning =
    DuplicateSpecId string
  | EmptyDisplayName string
  | EmptyDescription string
  | EmbeddedCredential string nat
  | UnknownTypeProperty string string
  | InvalidReplicaRange string u32 u32
  | InvalidScaleThreshold string f64 f64
  | SpecLackingContainerHasContainerFields string
  | MfaValidityOutOfRange string u16
  | MfaValidityWithoutRequire string
  | MfaOnExternalSpec string
  | InvalidRateLimit string string
  | InvalidMaxBodySize string string
  | UnknownTimezone string
  | InvalidCpuLimit string string string
  | InvalidMemoryLimit string string string
  | ZeroSeats string
  | InvalidVolume string string
  | InvalidHost string string
  | ReplicaCeilingZero string
  | MissingContainerImage string
  | ExternalWithContainerImage string
  | IgnoredCompatField string
  | InvalidLabelKey string string
  | ReservedLabelKey string string
  | InvalidContainerNetwork string string

record stats =
  st_total_specs :: nat
  st_by_kind :: "(string, nat) table"
  st_by_state :: "(string, nat) table"
  st_by_access :: "(string, nat) table"

record validation_report =
  vr_warnings :: "warning list"
  vr_stats :: stats

definition is_clean :: "validation_report \<Rightarrow> bool" where
  "is_clean r \<longleftrightarrow> vr_warnings r = []"

record config =
  cf_server :: server
  cf_proxy :: proxy_config
  cf_logging_file :: "string option"
  cf_raw_warnings :: "warning list"

definition KNOWN_TYPES :: "string list" where
  "KNOWN_TYPES = [''app'', ''package'', ''talk'', ''report'', ''api'']"

definition SENSITIVE_FIELDS :: "string list" where
  "SENSITIVE_FIELDS = [''docker-registry-password'', ''auth-token'', ''api-key'', ''secret'']"

section \<open>The raw text\<close>

text \<open>The sensitive-line regular expression: field and value of a line that has one.\<close>

definition sensitive_line :: "string \<Rightarrow> (string \<times> string) option" where
  "sensitive_line line =
     (let s = trim_start line in
      case List.find (\<lambda>f. prefix f s \<and> prefix '':'' (trim_start (drop (length f) s))) SENSITIVE_FIELDS of
        None \<Rightarrow> None
      | Some f \<Rightarrow>
          (let v = tl (trim_start (drop (length f) s)) in if v = [] then None else Some (f, v)))"

definition rust_lines :: "string \<Rightarrow> string list" where
  "rust_lines s = map (\<lambda>l. let c = line_content l in
      if l \<noteq> c then (case strip_suffix [CHR 0x0D] c of None \<Rightarrow> c | Some d \<Rightarrow> d) else c)
     (split_inclusive s)"

definition scan_line :: "nat \<Rightarrow> string \<Rightarrow> warning list" where
  "scan_line idx line =
     (let trimmed = trim_start line in
      if trimmed \<noteq> [] \<and> hd trimmed = CHR ''#'' then []
      else (case sensitive_line line of
          None \<Rightarrow> []
        | Some (field, v) \<Rightarrow>
            (let unquoted = trim_matches (\<lambda>c. c = CHR 0x22 \<or> c = CHR 0x27) (trim v) in
             if unquoted = [] \<or> is_pure_env_ref unquoted then []
             else [EmbeddedCredential field (idx + 1)])))"

fun scan_lines :: "nat \<Rightarrow> string list \<Rightarrow> warning list" where
  "scan_lines idx [] = []"
| "scan_lines idx (l # ls) = scan_line idx l @ scan_lines (Suc idx) ls"

definition scan_raw_text :: "string \<Rightarrow> warning list" where
  "scan_raw_text raw = scan_lines 0 (rust_lines raw)"

section \<open>Syntax rules shared with the admin form\<close>

definition is_valid_label_key :: "string \<Rightarrow> bool" where
  "is_valid_label_key key \<longleftrightarrow>
     key \<noteq> [] \<and> list_all (\<lambda>c. is_alnum c \<or> c = CHR ''.'' \<or> c = CHR ''_'' \<or> c = CHR ''-'') key"

definition is_reserved_label_key :: "string \<Rightarrow> bool" where
  "is_reserved_label_key key \<longleftrightarrow> prefix ''ruscker.'' (lowercase key)"

definition is_valid_network_name :: "string \<Rightarrow> bool" where
  "is_valid_network_name name \<longleftrightarrow>
     (case name of [] \<Rightarrow> False
      | c # cs \<Rightarrow> is_alnum c \<and>
          list_all (\<lambda>c. is_alnum c \<or> c = CHR ''_'' \<or> c = CHR ''.'' \<or> c = CHR ''-'') cs)"

definition is_valid_volume_bind :: "string \<Rightarrow> bool" where
  "is_valid_volume_bind v =
     (let body = (case rsplit_once CHR '':'' v of
          Some (head, mode) \<Rightarrow> if trim mode = ''ro'' \<or> trim mode = ''rw'' then head else v
        | None \<Rightarrow> v)
      in case rsplit_once CHR '':'' body of
           None \<Rightarrow> False
         | Some (h, container) \<Rightarrow> trim h \<noteq> [] \<and> prefix ''/'' container)"

section \<open>Checks\<close>

definition warn_if :: "bool \<Rightarrow> 'w \<Rightarrow> 'w list" where
  "warn_if c w = (if c then [w] else [])"

definition bump_count :: "'k \<Rightarrow> ('k, nat) table \<Rightarrow> ('k, nat) table" where
  "bump_count k t = table_put k (unwrap_or 0 (table_get t k) + 1) t"

definition count_all :: "'k list \<Rightarrow> ('k, nat) table" where
  "count_all ks = foldl (\<lambda>t k. bump_count k t) [] ks"

definition blank :: "string option \<Rightarrow> bool" where
  "blank s = (case s of None \<Rightarrow> True | Some t \<Rightarrow> trim t = [])"

definition spec_mfa_warnings :: "spec \<Rightarrow> warning list" where
  "spec_mfa_warnings sp =
     (case sp_mfa_validity_days sp of None \<Rightarrow> []
      | Some days \<Rightarrow>
          warn_if (days > MAX_MFA_VALIDITY_DAYS) (MfaValidityOutOfRange (sp_id sp) days)
          @ warn_if (\<not> effective_require_mfa sp) (MfaValidityWithoutRequire (sp_id sp)))
     @ warn_if (effective_require_mfa sp \<and> spec_kind_of sp = External) (MfaOnExternalSpec (sp_id sp))"

definition f64_le :: "f64 \<Rightarrow> f64 \<Rightarrow> bool" where
  "f64_le a b \<longleftrightarrow> f64_lt a b \<or> (a = b \<and> a \<noteq> NaN)"

definition spec_scale_warnings :: "spec \<Rightarrow> warning list" where
  "spec_scale_warnings sp =
     (let mn = effective_min_replicas sp; mx = effective_max_replicas sp;
          up = unwrap_or (Fin (3602879701896397 / 4503599627370496)) (sp_scale_up_threshold sp);
          down = unwrap_or (Fin (5404319552844595 / 18014398509481984)) (sp_scale_down_threshold sp)
      in warn_if (mx < mn) (InvalidReplicaRange (sp_id sp) mn mx)
       @ warn_if (spec_kind_of sp \<noteq> External \<and> mx = 0 \<and> mx \<ge> mn) (ReplicaCeilingZero (sp_id sp))
       @ warn_if (spec_kind_of sp \<noteq> External \<and> sp_container_image sp = None) (MissingContainerImage (sp_id sp))
       @ warn_if (spec_kind_of sp = External \<and> sp_container_image sp \<noteq> None) (ExternalWithContainerImage (sp_id sp))
       @ warn_if (spec_kind_of sp \<noteq> External \<and> sp_seats_per_container sp = Some 0) (ZeroSeats (sp_id sp))
       @ warn_if ((sp_scale_up_threshold sp \<noteq> None \<or> sp_scale_down_threshold sp \<noteq> None)
            \<and> (f64_le up down \<or> f64_lt (Fin 1) up \<or> f64_lt down (Fin 0)))
           (InvalidScaleThreshold (sp_id sp) up down))"

definition cpu_warning :: "(f64 \<Rightarrow> string) \<Rightarrow> string \<Rightarrow> string \<times> f64 option \<Rightarrow> warning list" where
  "cpu_warning show_f64 i fv = (case fv of (field, val) \<Rightarrow>
     (case val of None \<Rightarrow> []
      | Some v \<Rightarrow> warn_if (\<not> (is_finite v \<and> f64_lt (Fin 0) v)) (InvalidCpuLimit i field (show_f64 v))))"

definition memory_warning :: "string \<Rightarrow> string \<times> string option \<times> int option \<Rightarrow> warning list" where
  "memory_warning i frp = (case frp of (field, raw, parsed) \<Rightarrow>
     (case raw of None \<Rightarrow> [] | Some s \<Rightarrow> warn_if (parsed = None) (InvalidMemoryLimit i field s)))"

definition label_warning :: "string \<Rightarrow> string \<Rightarrow> warning list" where
  "label_warning i k =
     (let key = trim k in
      if key = [] then []
      else if is_reserved_label_key key then [ReservedLabelKey i key]
      else warn_if (\<not> is_valid_label_key key) (InvalidLabelKey i key))"

definition spec_limit_warnings :: "(f64 \<Rightarrow> string) \<Rightarrow> spec \<Rightarrow> warning list" where
  "spec_limit_warnings show_f64 sp =
     (case Option.bind (sp_api sp) api_rate_limit of None \<Rightarrow> []
      | Some raw \<Rightarrow> warn_if (parse_rate_limit raw = None) (InvalidRateLimit (sp_id sp) raw))
     @ (case sp_max_body_size sp of None \<Rightarrow> []
        | Some raw \<Rightarrow> warn_if (effective_max_body_bytes sp None = None) (InvalidMaxBodySize (sp_id sp) raw))
     @ concat (map (cpu_warning show_f64 (sp_id sp))
         [(''limit'', sp_container_cpu_limit sp), (''request'', sp_container_cpu_request sp)])
     @ concat (map (memory_warning (sp_id sp))
         [(''limit'', sp_container_memory_limit sp, effective_memory_limit_bytes sp),
          (''request'', sp_container_memory_request sp, effective_memory_request_bytes sp)])"

definition spec_container_warnings :: "spec \<Rightarrow> warning list" where
  "spec_container_warnings sp =
     concat (map (\<lambda>v. warn_if (\<not> is_valid_volume_bind v) (InvalidVolume (sp_id sp) v))
       (unwrap_or [] (sp_volumes sp)))
     @ concat (map (label_warning (sp_id sp)) (map fst (unwrap_or [] (sp_labels sp))))
     @ (case effective_container_network sp of None \<Rightarrow> []
        | Some net \<Rightarrow> warn_if (\<not> is_valid_network_name net) (InvalidContainerNetwork (sp_id sp) net))"

definition check_spec :: "(f64 \<Rightarrow> string) \<Rightarrow> spec \<Rightarrow> warning list" where
  "check_spec show_f64 sp =
     warn_if (blank (sp_display_name sp)) (EmptyDisplayName (sp_id sp))
     @ warn_if (blank (sp_description sp)) (EmptyDescription (sp_id sp))
     @ spec_mfa_warnings sp
     @ (case tp_type_field (sp_template_properties sp) of None \<Rightarrow> []
        | Some t \<Rightarrow> warn_if (t \<notin> set KNOWN_TYPES) (UnknownTypeProperty (sp_id sp) t))
     @ spec_scale_warnings sp
     @ warn_if (sp_container_image sp = None \<and>
          (sp_seats_per_container sp \<noteq> None \<or> sp_docker_registry_password sp \<noteq> None \<or> sp_max_lifetime sp \<noteq> None))
         (SpecLackingContainerHasContainerFields (sp_id sp))
     @ spec_limit_warnings show_f64 sp
     @ spec_container_warnings sp"

definition addr_scheme :: "string \<Rightarrow> string option" where
  "addr_scheme addr =
     (case List.find (\<lambda>p. prefix ''://'' (drop (length p) addr)) (prefixes addr) of
        Some s \<Rightarrow> if s \<noteq> addr then Some s else None
      | None \<Rightarrow> None)"

definition host_label :: "nat \<Rightarrow> host \<Rightarrow> string" where
  "host_label i h = (if trim (host_id h) = [] then ''#'' @ show_nat i else host_id h)"

definition host_warnings :: "nat \<Rightarrow> host \<Rightarrow> warning list" where
  "host_warnings i h =
     (let lbl = host_label i h; addr = trim (host_address h); scheme = addr_scheme addr in
      warn_if (trim (host_id h) = []) (InvalidHost lbl ''empty `id`'')
      @ (if scheme \<in> {Some ''ssh'', Some ''http'', Some ''unix''} then
           warn_if (host_tls_opt h \<noteq> None)
             (InvalidHost lbl (''`tls` is only used with `tcp://` (address is '' @ addr @ '')''))
         else if scheme = Some ''tcp'' then
           warn_if (host_tls_opt h = None)
             (InvalidHost lbl ''`tcp://` host needs `tls` (ca/cert/key) for mutual TLS'')
         else [InvalidHost lbl (''address `'' @ addr @ ''` must start with ssh:// , tcp:// , http:// or unix://'')]))"

fun hosts_warnings :: "nat \<Rightarrow> host list \<Rightarrow> warning list" where
  "hosts_warnings i [] = []"
| "hosts_warnings i (h # hs) = host_warnings i h @ hosts_warnings (Suc i) hs"

definition check_hosts :: "host list \<Rightarrow> warning list" where
  "check_hosts hosts =
     hosts_warnings 0 hosts
     @ concat (map (\<lambda>(i, n). warn_if (n > 1) (InvalidHost i ''duplicate host id''))
         (count_all (filter (\<lambda>i. trim i \<noteq> []) (map host_id hosts))))"

definition check_ignored_compat_fields :: "config \<Rightarrow> warning list" where
  "check_ignored_compat_fields c =
     warn_if (srv_secure_cookies (cf_server c)) (IgnoredCompatField ''server.secure-cookies'')
     @ warn_if (session_timeout_secs (cf_server c) \<noteq> None) (IgnoredCompatField ''server.servlet.session.timeout'')
     @ warn_if (px_heartbeat_rate (cf_proxy c) \<noteq> 10000) (IgnoredCompatField ''proxy.heartbeat-rate'')
     @ warn_if (px_hide_navbar (cf_proxy c)) (IgnoredCompatField ''proxy.hide-navbar'')
     @ warn_if (px_landing_page (cf_proxy c) \<noteq> ''/'') (IgnoredCompatField ''proxy.landing-page'')
     @ warn_if (px_container_log_path (cf_proxy c) \<noteq> None) (IgnoredCompatField ''proxy.container-log-path'')
     @ warn_if (cf_logging_file c \<noteq> None) (IgnoredCompatField ''logging.file'')"

definition kind_label :: "spec_kind \<Rightarrow> string" where
  "kind_label k = (case k of Shiny \<Rightarrow> ''shiny'' | InteractiveApp \<Rightarrow> ''interactive'' | Api \<Rightarrow> ''api''
     | External \<Rightarrow> ''external'')"

definition collect_stats :: "config \<Rightarrow> stats" where
  "collect_stats c =
     (let specs = px_specs (cf_proxy c) in
      \<lparr>st_total_specs = length specs,
       st_by_kind = count_all (map (kind_label \<circ> spec_kind_of) specs),
       st_by_state = count_all (map (tp_state \<circ> sp_template_properties) specs),
       st_by_access = count_all (map (\<lambda>sp. if is_open sp then ''open'' else ''restricted'') specs)\<rparr>)"

definition validate_run :: "(f64 \<Rightarrow> string) \<Rightarrow> (string \<Rightarrow> bool) \<Rightarrow> config \<Rightarrow> validation_report" where
  "validate_run show_f64 known_zone c =
     (let p = cf_proxy c; specs = px_specs p in
      \<lparr>vr_warnings =
         concat (map (check_spec show_f64) specs)
         @ concat (map (\<lambda>(i, n). warn_if (n > 1) (DuplicateSpecId i)) (count_all (map sp_id specs)))
         @ warn_if (px_max_body_size p \<noteq> None \<and> max_body_bytes p = None)
             (InvalidMaxBodySize ''proxy'' (unwrap_or [] (px_max_body_size p)))
         @ (case srv_timezone (cf_server c) of None \<Rightarrow> []
            | Some raw \<Rightarrow> warn_if (trim raw \<noteq> [] \<and> \<not> known_zone (trim raw)) (UnknownTimezone (trim raw)))
         @ check_hosts (px_hosts p)
         @ check_ignored_compat_fields c,
       vr_stats = collect_stats c\<rparr>)"

definition config_validate :: "(f64 \<Rightarrow> string) \<Rightarrow> (string \<Rightarrow> bool) \<Rightarrow> config \<Rightarrow> validation_report" where
  "config_validate show_f64 known_zone c =
     (let r = validate_run show_f64 known_zone c in r\<lparr>vr_warnings := vr_warnings r @ cf_raw_warnings c\<rparr>)"

text \<open>\<open>Config::from_yaml\<close>, with the YAML parser as a parameter.\<close>

definition config_from_yaml :: "(string \<Rightarrow> cfg_error + config) \<Rightarrow> environ \<Rightarrow> string \<Rightarrow> cfg_error + config" where
  "config_from_yaml parse env raw =
     (let pre = scan_raw_text raw in
      case interpolate env raw of
        Inl e \<Rightarrow> Inl e
      | Inr txt \<Rightarrow> (case parse txt of Inl e \<Rightarrow> Inl e | Inr c \<Rightarrow> Inr (c\<lparr>cf_raw_warnings := pre\<rparr>)))"

section \<open>Counting tables\<close>

lemma warn_if_Nil [simp]: "warn_if c w = [] \<longleftrightarrow> \<not> c"
  by (simp add: warn_if_def)

lemma count_all_snoc: "count_all (ks @ [k]) = bump_count k (count_all ks)"
  by (simp add: count_all_def)

lemma table_wf_count_all: "table_wf (count_all ks)"
  by (induction ks rule: rev_induct) (simp_all add: count_all_snoc bump_count_def, simp add: count_all_def)

lemma table_get_count_all:
  "table_get (count_all ks) k = (if count_list ks k = 0 then None else Some (count_list ks k))"
proof (induction ks rule: rev_induct)
  case Nil
  then show ?case by (simp add: count_all_def)
next
  case (snoc x ks)
  then show ?case by (auto simp: count_all_snoc bump_count_def)
qed

lemma table_sum_count_all: "table_sum (\<lambda>n. n) (count_all ks) = length ks"
proof (induction ks rule: rev_induct)
  case Nil
  then show ?case by (simp add: count_all_def table_sum_def)
next
  case (snoc x ks)
  have "table_sum (\<lambda>n. n) (bump_count x (count_all ks)) + unwrap_or 0 (table_get (count_all ks) x) =
      table_sum (\<lambda>n. n) (count_all ks) + (unwrap_or 0 (table_get (count_all ks) x) + 1)"
    using table_sum_put [OF table_wf_count_all, of "\<lambda>n. n" x "unwrap_or 0 (table_get (count_all ks) x) + 1" ks]
    by (simp add: bump_count_def unwrap_or_def split: option.splits)
  then show ?case unfolding count_all_snoc snoc.IH by simp
qed

lemma distinct_count_list: "(\<And>k. count_list ks k \<le> 1) \<Longrightarrow> distinct ks"
proof (induction ks)
  case (Cons x ks)
  from Cons.prems [of x] have "x \<notin> set ks" by (simp add: count_list_0_iff)
  moreover have "count_list ks k \<le> 1" for k using Cons.prems [of k] by (simp split: if_splits)
  ultimately show ?case using Cons.IH by simp
qed simp

lemma no_duplicates:
  assumes "concat (map (\<lambda>(i, n). warn_if (n > 1) (w i)) (count_all ks)) = []"
  shows "distinct ks"
proof (rule distinct_count_list)
  fix k
  show "count_list ks k \<le> 1"
  proof (rule ccontr)
    assume a: "\<not> count_list ks k \<le> 1"
    then have "(k, count_list ks k) \<in> set (count_all ks)"
      by (simp add: table_get_mem [OF table_wf_count_all] table_get_count_all)
    with a assms show False by (fastforce simp: warn_if_def)
  qed
qed

section \<open>What a report without warnings says\<close>

lemma concat_map_Nil: "concat (map f xs) = [] \<longleftrightarrow> (\<forall>x \<in> set xs. f x = [])"
  by auto

text \<open>A spec whose every configured limit is in force and whose container can be created.\<close>

definition limits_enforced :: "spec \<Rightarrow> bool" where
  "limits_enforced sp \<longleftrightarrow>
     (\<forall>a. sp_api sp = Some a \<and> api_rate_limit a \<noteq> None \<longrightarrow> rate_policy_of a \<noteq> None)
     \<and> (sp_max_body_size sp \<noteq> None \<longrightarrow> effective_max_body_bytes sp None \<noteq> None)
     \<and> (sp_container_memory_limit sp \<noteq> None \<longrightarrow> effective_memory_limit_bytes sp \<noteq> None)
     \<and> (sp_container_memory_request sp \<noteq> None \<longrightarrow> effective_memory_request_bytes sp \<noteq> None)
     \<and> (\<forall>v. sp_container_cpu_limit sp = Some v \<longrightarrow> is_finite v \<and> f64_lt (Fin 0) v)
     \<and> effective_mfa_validity_days sp = unwrap_or DEFAULT_MFA_VALIDITY_DAYS (sp_mfa_validity_days sp)"

definition container_creatable :: "spec \<Rightarrow> bool" where
  "container_creatable sp \<longleftrightarrow>
     (spec_kind_of sp \<noteq> External \<longrightarrow>
        sp_container_image sp \<noteq> None \<and> effective_max_replicas sp > 0 \<and> sp_seats_per_container sp \<noteq> Some 0)
     \<and> effective_min_replicas sp \<le> effective_max_replicas sp
     \<and> (\<forall>v \<in> set (unwrap_or [] (sp_volumes sp)). is_valid_volume_bind v)
     \<and> (\<forall>(k, v) \<in> set (effective_labels sp). is_valid_label_key k \<and> \<not> is_reserved_label_key k)
     \<and> (\<forall>n. effective_container_network sp = Some n \<longrightarrow> is_valid_network_name n)"

lemma spec_limits_clean: "spec_limit_warnings show sp = [] \<Longrightarrow> spec_mfa_warnings sp = [] \<Longrightarrow> limits_enforced sp"
  by (auto simp: limits_enforced_def spec_limit_warnings_def spec_mfa_warnings_def rate_policy_of_def
      cpu_warning_def memory_warning_def effective_mfa_validity_days_def min_def not_less
      DEFAULT_MFA_VALIDITY_DAYS_def MAX_MFA_VALIDITY_DAYS_def word_le_nat_alt
      split: option.splits)

lemma label_clean: "label_warning i k = [] \<longleftrightarrow>
    trim k = [] \<or> (\<not> is_reserved_label_key (trim k) \<and> is_valid_label_key (trim k))"
  by (simp add: label_warning_def Let_def)

lemma spec_container_clean:
  assumes c: "spec_container_warnings sp = []" and s: "spec_scale_warnings sp = []"
  shows "container_creatable sp"
proof -
  have "\<forall>v \<in> set (unwrap_or [] (sp_volumes sp)). is_valid_volume_bind v"
    using c by (simp add: spec_container_warnings_def)
  moreover have "\<forall>(k, v) \<in> set (effective_labels sp). is_valid_label_key k \<and> \<not> is_reserved_label_key k"
  proof -
    from c have l: "\<forall>kv \<in> set (unwrap_or [] (sp_labels sp)). label_warning (sp_id sp) (fst kv) = []"
      by (simp add: spec_container_warnings_def)
    show ?thesis
    proof (clarify)
      fix k v assume kv: "(k, v) \<in> set (effective_labels sp)"
      then obtain k' where k': "(k', v) \<in> set (unwrap_or [] (sp_labels sp))" "k = trim k'" "k \<noteq> []"
        by (cases "sp_labels sp") (auto simp: effective_labels_def)
      with l label_clean [of "sp_id sp" k'] show "is_valid_label_key k \<and> \<not> is_reserved_label_key k" by auto
    qed
  qed
  moreover have "\<forall>n. effective_container_network sp = Some n \<longrightarrow> is_valid_network_name n"
    using c by (auto simp: spec_container_warnings_def)
  moreover have "effective_min_replicas sp \<le> effective_max_replicas sp"
    using s by (simp add: spec_scale_warnings_def Let_def not_less)
  moreover have "spec_kind_of sp \<noteq> External \<Longrightarrow>
      sp_container_image sp \<noteq> None \<and> effective_max_replicas sp > 0 \<and> sp_seats_per_container sp \<noteq> Some 0"
    using s by (auto simp: spec_scale_warnings_def Let_def not_less word_gt_0)
  ultimately show ?thesis by (simp add: container_creatable_def)
qed

lemma ex_index_Cons:
  "(n = k + 1 \<and> P x) \<or> (\<exists>i. n = Suc k + i + 1 \<and> i < length xs \<and> P (xs ! i)) \<longleftrightarrow>
     (\<exists>i. n = k + i + 1 \<and> i < length (x # xs) \<and> P ((x # xs) ! i))"
proof
  assume "(n = k + 1 \<and> P x) \<or> (\<exists>i. n = Suc k + i + 1 \<and> i < length xs \<and> P (xs ! i))"
  then show "\<exists>i. n = k + i + 1 \<and> i < length (x # xs) \<and> P ((x # xs) ! i)"
  proof
    assume "\<exists>i. n = Suc k + i + 1 \<and> i < length xs \<and> P (xs ! i)"
    then obtain i where "n = Suc k + i + 1" "i < length xs" "P (xs ! i)" by blast
    then show ?thesis by (intro exI [of _ "Suc i"]) simp
  qed auto
next
  assume "\<exists>i. n = k + i + 1 \<and> i < length (x # xs) \<and> P ((x # xs) ! i)"
  then obtain i where i: "n = k + i + 1" "i < length (x # xs)" "P ((x # xs) ! i)" by blast
  then show "(n = k + 1 \<and> P x) \<or> (\<exists>i. n = Suc k + i + 1 \<and> i < length xs \<and> P (xs ! i))"
    by (cases i) auto
qed

section \<open>Properties\<close>


definition demo_spec :: spec where
  "demo_spec = (blank_spec ''app'')\<lparr>sp_display_name := Some ''App'', sp_description := Some ''d'',
     sp_container_image := Some ''img'', sp_volumes := Some [''/a:/b:ro'']\<rparr>"

definition demo_config :: config where
  "demo_config = \<lparr>cf_server = \<lparr>srv_use_forward_headers = False, srv_forward_headers_strategy = None,
       srv_secure_cookies = False, srv_servlet = None, srv_flat_servlet_session_timeout = None,
       srv_context_path = None, srv_flat_servlet_context_path = None, srv_timezone = None\<rparr>,
     cf_proxy = proxy_default\<lparr>px_specs := [demo_spec]\<rparr>, cf_logging_file = None, cf_raw_warnings = []\<rparr>"

lemma demo_config_clean: "vr_warnings (validate_run (\<lambda>_. []) (\<lambda>_. True) demo_config) = []"
proof -
  have t: "trim ''App'' \<noteq> []" "trim ''d'' \<noteq> []" by code_simp+
  have v: "is_valid_volume_bind ''/a:/b:ro''" by code_simp
  have c: "check_spec (\<lambda>_. []) demo_spec = []"
    using t v by (simp add: check_spec_def demo_spec_def blank_spec_def blank_def spec_mfa_warnings_def
        effective_require_mfa_def spec_scale_warnings_def spec_kind_of_def effective_min_replicas_def
        effective_max_replicas_def DEFAULT_MAX_REPLICAS_def Let_def spec_limit_warnings_def cpu_warning_def
        memory_warning_def spec_container_warnings_def effective_container_network_def tp_type_field_def
        tp_get_str_def)
  show ?thesis
    by (simp add: validate_run_def demo_config_def proxy_default_def Let_def c count_all_def bump_count_def
        table_put_def table_get_def check_hosts_def check_ignored_compat_fields_def session_timeout_secs_def
        or_option_def warn_if_def)
qed


text \<open>
  C27: The volume syntax check accepts exactly the bind specifications Docker can mount: an optional
  \<open>ro\<close> or \<open>rw\<close> mode after the last colon, and before it a host part that is not blank, a colon and an
  absolute container path without a colon; colons in the host part are allowed.
\<close>

theorem volume_bind_iff:
  "is_valid_volume_bind v \<longleftrightarrow>
     (\<exists>h p body. trim h \<noteq> [] \<and> CHR '':'' \<notin> set p \<and> body = h @ '':/'' @ p \<and>
        (if \<exists>b m. v = b @ '':'' @ m \<and> trim m \<in> {''ro'', ''rw''} \<and> CHR '':'' \<notin> set m
         then \<exists>m. v = body @ '':'' @ m \<and> trim m \<in> {''ro'', ''rw''} \<and> CHR '':'' \<notin> set m
         else v = body))"
proof -
  have ok: "(case rsplit_once CHR '':'' body of None \<Rightarrow> False
      | Some (h, container) \<Rightarrow> trim h \<noteq> [] \<and> prefix ''/'' container) \<longleftrightarrow>
      (\<exists>h p. trim h \<noteq> [] \<and> CHR '':'' \<notin> set p \<and> body = h @ '':/'' @ p)" for body
  proof (cases "rsplit_once CHR '':'' body")
    case None
    moreover from None have "CHR '':'' \<notin> set body" by (simp add: rsplit_once_None)
    ultimately show ?thesis by auto
  next
    case (Some hc)
    obtain h cont where hc: "hc = (h, cont)" by (cases hc)
    have split: "rsplit_once CHR '':'' body = Some (h', CHR ''/'' # p)"
      if "body = h' @ '':/'' @ p" "CHR '':'' \<notin> set p" for h' p
      using that by (simp add: rsplit_once_Some_iff)
    from Some hc have b: "body = h @ CHR '':'' # cont" "CHR '':'' \<notin> set cont"
      by (simp_all add: rsplit_once_Some_iff)
    show ?thesis
    proof
      assume "case rsplit_once CHR '':'' body of None \<Rightarrow> False
        | Some (h, container) \<Rightarrow> trim h \<noteq> [] \<and> prefix ''/'' container"
      with Some hc have "trim h \<noteq> []" and "prefix ''/'' cont" by simp_all
      then obtain p where "cont = CHR ''/'' # p" by (auto simp: prefix_def)
      with b \<open>trim h \<noteq> []\<close> show "\<exists>h p. trim h \<noteq> [] \<and> CHR '':'' \<notin> set p \<and> body = h @ '':/'' @ p"
        by (intro exI [of _ h] exI [of _ p]) simp
    next
      assume "\<exists>h p. trim h \<noteq> [] \<and> CHR '':'' \<notin> set p \<and> body = h @ '':/'' @ p"
      then obtain h' p where "trim h' \<noteq> []" "CHR '':'' \<notin> set p" "body = h' @ '':/'' @ p" by blast
      with split show "case rsplit_once CHR '':'' body of None \<Rightarrow> False
        | Some (h, container) \<Rightarrow> trim h \<noteq> [] \<and> prefix ''/'' container" by simp
    qed
  qed
  show ?thesis
  proof (cases "\<exists>b m. v = b @ '':'' @ m \<and> trim m \<in> {''ro'', ''rw''} \<and> CHR '':'' \<notin> set m")
    case True
    then obtain b m where bm: "v = b @ '':'' @ m" "trim m \<in> {''ro'', ''rw''}" "CHR '':'' \<notin> set m" by blast
    then have r: "rsplit_once CHR '':'' v = Some (b, m)" by (simp add: rsplit_once_Some_iff)
    have u: "b' = b" if "v = b' @ '':'' @ m'" "CHR '':'' \<notin> set m'" for b' m'
      using that r by (metis append_Cons append_Nil option.inject prod.inject rsplit_once_Some_iff)
    from bm r ok [of b] have "is_valid_volume_bind v \<longleftrightarrow>
        (\<exists>h p. trim h \<noteq> [] \<and> CHR '':'' \<notin> set p \<and> b = h @ '':/'' @ p)"
      by (simp add: is_valid_volume_bind_def Let_def)
    with True bm u show ?thesis by (simp only: if_True) metis
  next
    case False
    have "is_valid_volume_bind v \<longleftrightarrow> (\<exists>h p. trim h \<noteq> [] \<and> CHR '':'' \<notin> set p \<and> v = h @ '':/'' @ p)"
    proof (cases "rsplit_once CHR '':'' v")
      case None
      with ok [of v] show ?thesis by (simp add: is_valid_volume_bind_def Let_def)
    next
      case (Some bm)
      obtain b m where bm: "bm = (b, m)" by (cases bm)
      with Some have "v = b @ '':'' @ m" "CHR '':'' \<notin> set m" by (simp_all add: rsplit_once_Some_iff)
      with False have "\<not> (trim m = ''ro'' \<or> trim m = ''rw'')" by blast
      with Some bm ok [of v] show ?thesis by (simp add: is_valid_volume_bind_def Let_def)
    qed
    with False show ?thesis by (simp only: if_False) metis
  qed
qed

text \<open>
  The scan of the raw text reports exactly the embedded credentials of the lines it recognises: a
  line is reported, with its number, when it is not a comment, its key is one of the sensitive keys and
  its value, outside quotes, is neither empty nor made of environment references only.
\<close>

theorem scan_reports_exactly:
  "EmbeddedCredential field n \<in> set (scan_raw_text raw) \<longleftrightarrow>
     (\<exists>i v. n = i + 1 \<and> i < length (rust_lines raw)
        \<and> (let line = rust_lines raw ! i; u = trim_matches (\<lambda>c. c = CHR 0x22 \<or> c = CHR 0x27) (trim v) in
             \<not> prefix ''#'' (trim_start line) \<and> sensitive_line line = Some (field, v)
             \<and> u \<noteq> [] \<and> \<not> is_pure_env_ref u))"
proof -
  let ?hit = "\<lambda>line v. let u = trim_matches (\<lambda>c. c = CHR 0x22 \<or> c = CHR 0x27) (trim v) in
      \<not> prefix ''#'' (trim_start line) \<and> sensitive_line line = Some (field, v) \<and> u \<noteq> [] \<and> \<not> is_pure_env_ref u"
  have one: "EmbeddedCredential field n \<in> set (scan_line idx line) \<longleftrightarrow> n = idx + 1 \<and> (\<exists>v. ?hit line v)" for idx line
    by (cases "trim_start line"; cases "sensitive_line line") (auto simp: scan_line_def Let_def)
  have "EmbeddedCredential field n \<in> set (scan_lines idx ls) \<longleftrightarrow>
      (\<exists>i. n = idx + i + 1 \<and> i < length ls \<and> (\<exists>v. ?hit (ls ! i) v))" for idx ls
  proof (induction ls arbitrary: idx)
    case (Cons l ls)
    have "EmbeddedCredential field n \<in> set (scan_lines idx (l # ls)) \<longleftrightarrow>
        (n = idx + 1 \<and> (\<exists>v. ?hit l v)) \<or>
        (\<exists>i. n = Suc idx + i + 1 \<and> i < length ls \<and> (\<exists>v. ?hit (ls ! i) v))"
      using one Cons.IH by simp
    also have "\<dots> \<longleftrightarrow> (\<exists>i. n = idx + i + 1 \<and> i < length (l # ls) \<and> (\<exists>v. ?hit ((l # ls) ! i) v))"
      by (rule ex_index_Cons)
    finally show ?case .
  qed simp
  from this [of 0 "rust_lines raw"] show ?thesis by (simp add: scan_raw_text_def Let_def)
qed

text \<open>
  The statistics count every spec once in each breakdown: the kinds, the states and the access
  classes each add up to the total.
\<close>

theorem stats_add_up:
  "table_sum (\<lambda>n. n) (st_by_kind (collect_stats c)) = st_total_specs (collect_stats c)
   \<and> table_sum (\<lambda>n. n) (st_by_state (collect_stats c)) = st_total_specs (collect_stats c)
   \<and> table_sum (\<lambda>n. n) (st_by_access (collect_stats c)) = st_total_specs (collect_stats c)"
  by (simp add: collect_stats_def Let_def table_sum_count_all)

text \<open>A secret that is the first key of a list item is not recognised by the scan.\<close>

lemma scan_misses_list_item:
  "sensitive_line ''- docker-registry-password: hunter2'' = None
   \<and> sensitive_line ''  docker-registry-password: hunter2'' = Some (''docker-registry-password'', '' hunter2'')"
  by code_simp

end
