(* ===== verification/Alert_Sink.thy ===== *)
theory Alert_Sink
  imports Rust_Text
begin

text \<open>
  The cooldown contract two parts of the program share (alerts here, the break-glass audit in the
  proxy), and the alert sink (\<open>crates/ruscker-admin/src/alerts.rs\<close>). Instants are nanoseconds of the
  monotonic clock. Delivery over HTTP is not modelled; the queue to the sender task is.
\<close>

section \<open>The cooldown contract\<close>

text \<open>
  A gate admits a key at most once per window: it remembers when it last admitted a key, at least as
  long as the window lasts, refuses while the window is open, and admits again afterwards.
\<close>

fun calls_from :: "nat \<Rightarrow> (nat \<times> 'k) list \<Rightarrow> bool" where
  "calls_from t [] \<longleftrightarrow> True"
| "calls_from t ((now, _) # cs) \<longleftrightarrow> t \<le> now \<and> calls_from now cs"

fun gate_run :: "(nat \<Rightarrow> 'k \<Rightarrow> 's \<Rightarrow> bool \<times> 's) \<Rightarrow> 's \<Rightarrow> (nat \<times> 'k) list \<Rightarrow> bool list" where
  "gate_run admit s [] = []"
| "gate_run admit s ((now, k) # cs) = (case admit now k s of (b, s') \<Rightarrow> b # gate_run admit s' cs)"

fun admitted_at :: "'k \<Rightarrow> (nat \<times> 'k) list \<Rightarrow> bool list \<Rightarrow> nat list" where
  "admitted_at k ((now, k') # cs) (b # bs) = (if b \<and> k' = k then [now] else []) @ admitted_at k cs bs"
| "admitted_at k _ _ = []"

definition spaced :: "nat \<Rightarrow> nat list \<Rightarrow> bool" where
  "spaced w ts \<longleftrightarrow> sorted_wrt (\<lambda>a b. a + w \<le> b) ts"

locale cooldown_gate =
  fixes inv :: "'s \<Rightarrow> bool"
    and last_at :: "'s \<Rightarrow> 'k \<Rightarrow> nat option"
    and admit :: "nat \<Rightarrow> 'k \<Rightarrow> 's \<Rightarrow> bool \<times> 's"
    and window :: nat
  assumes inv_admit: "inv s \<Longrightarrow> inv (snd (admit now k s))"
    and blocks: "inv s \<Longrightarrow> last_at s k = Some t \<Longrightarrow> now - t < window \<Longrightarrow>
      \<not> fst (admit now k s) \<and> last_at (snd (admit now k s)) k = Some t"
    and opens: "inv s \<Longrightarrow> \<forall>t. last_at s k = Some t \<longrightarrow> \<not> now - t < window \<Longrightarrow>
      fst (admit now k s) \<and> (0 < window \<longrightarrow> last_at (snd (admit now k s)) k = Some now)"
    and remembers: "inv s \<Longrightarrow> last_at s k' = Some t \<Longrightarrow> now - t < window \<Longrightarrow> k' \<noteq> k \<Longrightarrow>
      last_at (snd (admit now k s)) k' = Some t"
begin

lemma admit_iff: "inv s \<Longrightarrow> fst (admit now k s) \<longleftrightarrow> (\<forall>t. last_at s k = Some t \<longrightarrow> \<not> now - t < window)"
proof (cases "\<exists>t. last_at s k = Some t \<and> now - t < window")
  case True
  assume "inv s"
  with True blocks [of s k] show ?thesis by force
next
  case False
  assume "inv s"
  with False opens [of s k now] show ?thesis by auto
qed

lemma spaced_from:
  "inv s \<Longrightarrow> 0 < window \<Longrightarrow> calls_from t0 cs \<Longrightarrow> a \<le> t0 \<Longrightarrow> (t0 - a < window \<longrightarrow> last_at s k = Some a) \<Longrightarrow>
     spaced window (a # admitted_at k cs (gate_run admit s cs))"
proof (induction cs arbitrary: s t0 a)
  case Nil
  then show ?case by (simp add: spaced_def)
next
  case (Cons c cs)
  obtain now k' where c: "c = (now, k')" by (cases c)
  obtain b s' where ad: "admit now k' s = (b, s')" by fastforce
  have now: "t0 \<le> now" "calls_from now cs" using Cons.prems c by auto
  have inv': "inv s'" using inv_admit [OF Cons.prems(1), of now k'] ad by simp
  show ?case
  proof (cases "b \<and> k' = k")
    case True
    then have "\<forall>t. last_at s k = Some t \<longrightarrow> \<not> now - t < window"
      using admit_iff [OF Cons.prems(1), of now k] ad by simp
    then have gap: "a + window \<le> now" using Cons.prems now by (cases "now - a < window") auto
    have "last_at s' k = Some now"
      using opens [OF Cons.prems(1) \<open>\<forall>t. _\<close>] Cons.prems(2) ad True by simp
    then have "spaced window (now # admitted_at k cs (gate_run admit s' cs))"
      using Cons.IH [OF inv' Cons.prems(2) now(2) order_refl] by simp
    with gap show ?thesis using c ad True by (auto simp: spaced_def)
  next
    case False
    have "now - a < window \<longrightarrow> last_at s' k = Some a"
    proof
      assume "now - a < window"
      with now Cons.prems have l: "last_at s k = Some a" by auto
      show "last_at s' k = Some a"
      proof (cases "k' = k")
        case True
        with blocks [OF Cons.prems(1) l \<open>now - a < window\<close>] ad l show ?thesis by simp
      next
        case False
        then have "k \<noteq> k'" by simp
        from remembers [OF Cons.prems(1) l \<open>now - a < window\<close> this] ad show ?thesis by simp
      qed
    qed
    from Cons.IH [OF inv' Cons.prems(2) now(2) _ this] now Cons.prems False c ad show ?thesis by auto
  qed
qed

lemma run_spaced:
  "inv s \<Longrightarrow> 0 < window \<Longrightarrow> calls_from t0 cs \<Longrightarrow> spaced window (admitted_at k cs (gate_run admit s cs))"
proof (induction cs arbitrary: s t0)
  case (Cons c cs)
  obtain now k' where c: "c = (now, k')" by (cases c)
  obtain b s' where ad: "admit now k' s = (b, s')" by fastforce
  have now: "calls_from now cs" using Cons.prems c by auto
  have inv': "inv s'" using inv_admit [OF Cons.prems(1), of now k'] ad by simp
  show ?case
  proof (cases "b \<and> k' = k")
    case True
    then have "\<forall>t. last_at s k = Some t \<longrightarrow> \<not> now - t < window"
      using admit_iff [OF Cons.prems(1), of now k] ad by simp
    from opens [OF Cons.prems(1) this] Cons.prems(2) ad True have "last_at s' k = Some now" by simp
    with spaced_from [OF inv' Cons.prems(2) now order_refl] c ad True show ?thesis by simp
  next
    case False
    with Cons.IH [OF inv' Cons.prems(2) now] c ad show ?thesis by auto
  qed
qed (simp add: spaced_def)

end

section \<open>Alerts\<close>

datatype alert_kind = SpawnFailed | ReplicaDown | Saturated | JobFailed | TestAlert

definition alert_kind_str :: "alert_kind \<Rightarrow> string" where
  "alert_kind_str k = (case k of SpawnFailed \<Rightarrow> ''spawn-failed'' | ReplicaDown \<Rightarrow> ''replica-down''
     | Saturated \<Rightarrow> ''saturated'' | JobFailed \<Rightarrow> ''job-failed'' | TestAlert \<Rightarrow> ''test'')"

record alert_event =
  ae_kind :: alert_kind
  ae_spec :: string
  ae_replica :: "string option"
  ae_message :: string

type_synonym alert_key = "alert_kind \<times> string"

record alert_sink =
  as_queue :: "alert_event list"
  as_open :: bool
  as_recent :: "alert_key \<rightharpoonup> nat"

definition ALERT_COOLDOWN :: nat where
  "ALERT_COOLDOWN = 15 * 60 * 1000000000"

definition QUEUE_DEPTH :: nat where
  "QUEUE_DEPTH = 64"

definition alert_admit :: "nat \<Rightarrow> alert_key \<Rightarrow> (alert_key \<rightharpoonup> nat) \<Rightarrow> bool \<times> (alert_key \<rightharpoonup> nat)" where
  "alert_admit now key recent =
     (if (case recent key of Some t \<Rightarrow> now - t < ALERT_COOLDOWN | None \<Rightarrow> False) then (False, recent)
      else (True, map_retain (\<lambda>_ t. now - t < ALERT_COOLDOWN) (recent(key \<mapsto> now))))"

definition try_send :: "alert_event \<Rightarrow> alert_sink \<Rightarrow> bool \<times> alert_sink" where
  "try_send ev s =
     (if as_open s \<and> length (as_queue s) < QUEUE_DEPTH then (True, s\<lparr>as_queue := as_queue s @ [ev]\<rparr>)
      else (False, s))"

definition notify :: "nat \<Rightarrow> alert_event \<Rightarrow> alert_sink \<Rightarrow> bool \<times> alert_sink" where
  "notify now ev s =
     (if ae_kind ev \<noteq> TestAlert then
        (case alert_admit now (ae_kind ev, ae_spec ev) (as_recent s) of
           (False, _) \<Rightarrow> (False, s)
         | (True, recent) \<Rightarrow> try_send ev (s\<lparr>as_recent := recent\<rparr>))
      else try_send ev s)"

text \<open>The sender task takes the oldest event.\<close>

definition alert_recv :: "alert_sink \<Rightarrow> alert_event option \<times> alert_sink" where
  "alert_recv s = (case as_queue s of [] \<Rightarrow> (None, s) | e # es \<Rightarrow> (Some e, s\<lparr>as_queue := es\<rparr>))"

interpretation alert_gate: cooldown_gate "\<lambda>_. True" "\<lambda>s k. s k" alert_admit ALERT_COOLDOWN
  by unfold_locales
    (auto simp: alert_admit_def map_retain_Some_iff map_retain_None_iff ALERT_COOLDOWN_def split: option.splits)

lemma notify_admit:
  "ae_kind ev \<noteq> TestAlert \<Longrightarrow> as_recent (snd (notify now ev s)) = snd (alert_admit now (ae_kind ev, ae_spec ev) (as_recent s))
   \<and> (fst (notify now ev s) \<longrightarrow> fst (alert_admit now (ae_kind ev, ae_spec ev) (as_recent s)))"
  by (auto simp: notify_def try_send_def alert_admit_def split: prod.splits)

text \<open>A run of notifications with the queue drained in between.\<close>

datatype alert_op = Notify nat alert_event | Drain

fun alert_ops :: "alert_sink \<Rightarrow> alert_op list \<Rightarrow> (nat \<times> alert_event) list" where
  "alert_ops s [] = []"
| "alert_ops s (Notify now ev # ops) =
     (case notify now ev s of (b, s') \<Rightarrow> (if b then [(now, ev)] else []) @ alert_ops s' ops)"
| "alert_ops s (Drain # ops) = alert_ops (snd (alert_recv s)) ops"

fun alert_calls :: "alert_op list \<Rightarrow> (nat \<times> alert_key) list" where
  "alert_calls [] = []"
| "alert_calls (Notify now ev # ops) =
     (if ae_kind ev = TestAlert then [] else [(now, (ae_kind ev, ae_spec ev))]) @ alert_calls ops"
| "alert_calls (Drain # ops) = alert_calls ops"

definition queued_at :: "alert_key \<Rightarrow> (nat \<times> alert_event) list \<Rightarrow> nat list" where
  "queued_at k evs = map fst (filter (\<lambda>(_, ev). (ae_kind ev, ae_spec ev) = k) evs)"

lemma queued_subseq:
  "fst k \<noteq> TestAlert \<Longrightarrow>
     subseq (queued_at k (alert_ops s ops)) (admitted_at k (alert_calls ops) (gate_run alert_admit (as_recent s) (alert_calls ops)))"
proof (induction ops arbitrary: s)
  case (Cons op ops)
  show ?case
  proof (cases op)
    case Drain
    have "as_recent (snd (alert_recv s)) = as_recent s" by (simp add: alert_recv_def split: list.split)
    with Cons.IH [of "snd (alert_recv s)"] Cons.prems Drain show ?thesis by simp
  next
    case (Notify now ev)
    obtain b s' where n: "notify now ev s = (b, s')" by fastforce
    show ?thesis
    proof (cases "ae_kind ev = TestAlert")
      case True
      with n have "as_recent s' = as_recent s" by (auto simp: notify_def try_send_def split: if_splits)
      moreover have "(ae_kind ev, ae_spec ev) \<noteq> k" using True Cons.prems by auto
      ultimately show ?thesis using Cons.IH [of s'] Cons.prems Notify n True
        by (simp add: queued_at_def)
    next
      case False
      obtain a r where ad: "alert_admit now (ae_kind ev, ae_spec ev) (as_recent s) = (a, r)" by fastforce
      have r: "as_recent s' = r" "b \<longrightarrow> a" using notify_admit [OF False, of now s] n ad by auto
      with Cons.IH [of s'] Cons.prems Notify n False ad show ?thesis
        by (auto simp: queued_at_def intro: list_emb_append_mono)
    qed
  qed
qed (simp add: queued_at_def)

lemma spaced_subseq: "subseq xs ys \<Longrightarrow> spaced w ys \<Longrightarrow> spaced w xs"
  unfolding spaced_def
proof (induction rule: list_emb.induct)
  case (list_emb_Cons2 x y xs ys)
  have "z \<in> set ys" if "z \<in> set xs" for z
    using list_emb_set [OF list_emb_Cons2(2) that] by auto
  with list_emb_Cons2 show ?case by auto
qed auto

section \<open>Properties\<close>

text \<open>
  A stuck condition alerts at most once per cooldown. Whatever is notified and however the sender
  task drains the queue, two queued alerts of the same kind for the same spec are at least fifteen
  minutes apart (the operator's test button excepted).
\<close>

theorem alerts_spaced:
  assumes "calls_from t0 (alert_calls ops)" and "fst k \<noteq> TestAlert"
  shows "spaced ALERT_COOLDOWN (queued_at k (alert_ops s ops))"
  using spaced_subseq [OF queued_subseq [OF assms(2)]] alert_gate.run_spaced [OF TrueI _ assms(1)]
  by (simp add: ALERT_COOLDOWN_def)

definition demo_alert :: alert_event where
  "demo_alert = \<lparr>ae_kind = Saturated, ae_spec = ''a'', ae_replica = None, ae_message = []\<rparr>"

lemma alerts_spaced_witness:
  "spaced ALERT_COOLDOWN (queued_at (Saturated, ''a'')
     (alert_ops \<lparr>as_queue = [], as_open = True, as_recent = Map.empty\<rparr>
        [Notify 0 demo_alert, Drain, Notify 5 demo_alert, Notify ALERT_COOLDOWN demo_alert]))
   \<and> queued_at (Saturated, ''a'') (alert_ops \<lparr>as_queue = [], as_open = True, as_recent = Map.empty\<rparr>
        [Notify 0 demo_alert, Drain, Notify 5 demo_alert, Notify ALERT_COOLDOWN demo_alert])
      = [0, ALERT_COOLDOWN]"
proof
  show "spaced ALERT_COOLDOWN (queued_at (Saturated, ''a'')
     (alert_ops \<lparr>as_queue = [], as_open = True, as_recent = Map.empty\<rparr>
        [Notify 0 demo_alert, Drain, Notify 5 demo_alert, Notify ALERT_COOLDOWN demo_alert]))"
    by (rule alerts_spaced [of 0]) (simp_all add: demo_alert_def ALERT_COOLDOWN_def)
  show "queued_at (Saturated, ''a'') (alert_ops \<lparr>as_queue = [], as_open = True, as_recent = Map.empty\<rparr>
        [Notify 0 demo_alert, Drain, Notify 5 demo_alert, Notify ALERT_COOLDOWN demo_alert])
      = [0, ALERT_COOLDOWN]"
    by (simp add: demo_alert_def ALERT_COOLDOWN_def QUEUE_DEPTH_def notify_def alert_admit_def try_send_def
        alert_recv_def map_retain_def queued_at_def)
qed

text \<open>
  An event is queued exactly when it is a test or the last alert of its kind and spec lies a full
  cooldown back, and the queue is open and not full; a refused event leaves the queue as it was, and a
  queued one is appended, so events reach the sender in the order they were accepted.
\<close>

theorem notify_iff:
  "(fst (notify now ev s) \<longleftrightarrow>
      (ae_kind ev = TestAlert \<or> (\<forall>t. as_recent s (ae_kind ev, ae_spec ev) = Some t \<longrightarrow> \<not> now - t < ALERT_COOLDOWN))
      \<and> as_open s \<and> length (as_queue s) < QUEUE_DEPTH)
   \<and> as_queue (snd (notify now ev s)) = as_queue s @ (if fst (notify now ev s) then [ev] else [])"
  by (auto simp: notify_def try_send_def alert_admit_def split: option.splits)

lemma notify_iff_witness:
  "fst (notify 0 demo_alert \<lparr>as_queue = [], as_open = True, as_recent = Map.empty\<rparr>)"
  using notify_iff [of 0 demo_alert "\<lparr>as_queue = [], as_open = True, as_recent = Map.empty\<rparr>"]
  by (simp add: QUEUE_DEPTH_def)

end
