(* ===== verification/Access_Counter.thy ===== *)
theory Access_Counter
  imports Rust_Text
begin

text \<open>
  The buffered access counter (\<open>crates/ruscker-admin/src/access_counter.rs\<close>). The lock is held for a
  bump, for taking the buffer and for merging it back, but not while the deltas are written, so a
  flush is split into the steps between which bumps can happen. The database applies a delta or
  reports an error and applies nothing.
\<close>

section \<open>The buffer\<close>

type_synonym bucket = "string \<times> string"

record access_counter =
  ac_pending :: "(bucket, int) table"
  ac_dropped :: u64
  ac_flush_failures :: u64

definition ac_new :: access_counter where
  "ac_new = \<lparr>ac_pending = [], ac_dropped = 0, ac_flush_failures = 0\<rparr>"

definition MAX_PENDING_KEYS :: nat where
  "MAX_PENDING_KEYS = 4096"

definition delta_of :: "(bucket, int) table \<Rightarrow> bucket \<Rightarrow> int" where
  "delta_of t k = (case table_get t k of None \<Rightarrow> 0 | Some d \<Rightarrow> d)"

definition bump_refused :: "bucket \<Rightarrow> access_counter \<Rightarrow> bool" where
  "bump_refused k ac \<longleftrightarrow> length (ac_pending ac) \<ge> MAX_PENDING_KEYS \<and> table_get (ac_pending ac) k = None"

definition ac_bump :: "string \<Rightarrow> string \<Rightarrow> access_counter \<Rightarrow> access_counter" where
  "ac_bump today spec_id ac =
     (let k = (spec_id, today) in
      if bump_refused k ac then ac\<lparr>ac_dropped := ac_dropped ac + 1\<rparr>
      else ac\<lparr>ac_pending := table_put k (delta_of (ac_pending ac) k + 1) (ac_pending ac)\<rparr>)"

definition merge_row :: "(bucket, int) table \<Rightarrow> bucket \<times> int \<Rightarrow> (bucket, int) table" where
  "merge_row t row = (case row of (k, d) \<Rightarrow> table_put k (delta_of t k + d) t)"

definition merge_back :: "(bucket, int) table \<Rightarrow> access_counter \<Rightarrow> access_counter" where
  "merge_back deltas ac = ac\<lparr>ac_pending := foldl merge_row (ac_pending ac) deltas\<rparr>"

definition ac_take :: "access_counter \<Rightarrow> (bucket, int) table \<times> access_counter" where
  "ac_take ac = (ac_pending ac, ac\<lparr>ac_pending := []\<rparr>)"

fun flush_rows :: "(bucket \<Rightarrow> int \<Rightarrow> 'db \<Rightarrow> 'db option) \<Rightarrow> (bucket, int) table \<Rightarrow> 'db \<Rightarrow>
    (bucket, int) table \<times> 'db" where
  "flush_rows write [] db = ([], db)"
| "flush_rows write ((k, d) # rows) db =
     (case write k d db of None \<Rightarrow> ((k, d) # rows, db) | Some db' \<Rightarrow> flush_rows write rows db')"

text \<open>A whole flush with no bump in between.\<close>

definition ac_flush :: "(bucket \<Rightarrow> int \<Rightarrow> 'db \<Rightarrow> 'db option) \<Rightarrow> access_counter \<times> 'db \<Rightarrow>
    nat option \<times> access_counter \<times> 'db" where
  "ac_flush write s = (case s of (ac, db) \<Rightarrow>
     (let (entries, ac1) = ac_take ac in
      if entries = [] then (Some 0, ac1, db)
      else (case flush_rows write entries db of (rest, db') \<Rightarrow>
        if rest = [] then (Some (length entries), ac1, db')
        else (let ac2 = merge_back rest ac1
              in (None, ac2\<lparr>ac_flush_failures := ac_flush_failures ac2 + 1\<rparr>, db')))))"

definition flush_interval :: nat where "flush_interval = 2"
definition max_backoff :: nat where "max_backoff = 60"

definition next_wait :: "bool \<Rightarrow> nat \<Rightarrow> nat" where
  "next_wait flushed wait = (if flushed then flush_interval else min (wait * 2) max_backoff)"

lemma next_wait_bounds: "2 \<le> w \<Longrightarrow> 2 \<le> next_wait b w \<and> next_wait b w \<le> 60"
  by (simp add: next_wait_def flush_interval_def max_backoff_def)

section \<open>The drain task and the bumps, interleaved\<close>

record counter_state =
  ct_ac :: access_counter
  ct_flight :: "(bucket, int) table"
  ct_db :: "bucket \<Rightarrow> int"

datatype counter_event = CBump string string | CTake | CWritten | CFailed

definition counter_step :: "counter_event \<Rightarrow> counter_state \<Rightarrow> counter_state" where
  "counter_step ev s = (case ev of
     CBump today sp \<Rightarrow> s\<lparr>ct_ac := ac_bump today sp (ct_ac s)\<rparr>
   | CTake \<Rightarrow> (case ac_take (ct_ac s) of (entries, ac) \<Rightarrow> s\<lparr>ct_ac := ac, ct_flight := entries\<rparr>)
   | CWritten \<Rightarrow> (case ct_flight s of [] \<Rightarrow> s
       | (k, d) # rows \<Rightarrow> s\<lparr>ct_db := (ct_db s)(k := ct_db s k + d), ct_flight := rows\<rparr>)
   | CFailed \<Rightarrow> (let ac = merge_back (ct_flight s) (ct_ac s)
       in s\<lparr>ct_ac := ac\<lparr>ac_flush_failures := ac_flush_failures ac + 1\<rparr>, ct_flight := []\<rparr>))"

text \<open>There is one drain task: it takes the buffer only when its last flush is over.\<close>

definition counter_ok :: "counter_state \<Rightarrow> counter_event \<Rightarrow> bool" where
  "counter_ok s ev \<longleftrightarrow> (case ev of CTake \<Rightarrow> ct_flight s = [] | _ \<Rightarrow> True)"

definition counter_wf :: "counter_state \<Rightarrow> bool" where
  "counter_wf s \<longleftrightarrow> table_wf (ac_pending (ct_ac s)) \<and> table_wf (ct_flight s)"

text \<open>Everything counted for a bucket: persisted, in flight and waiting.\<close>

definition counted :: "bucket \<Rightarrow> counter_state \<Rightarrow> int" where
  "counted k s = ct_db s k + delta_of (ct_flight s) k + delta_of (ac_pending (ct_ac s)) k"

lemma delta_of_put: "delta_of (table_put k d t) k' = (if k' = k then d else delta_of t k')"
  by (simp add: delta_of_def)

lemma delta_of_Cons:
  "table_wf ((k, d) # t) \<Longrightarrow> delta_of ((k, d) # t) k' = (if k' = k then d + delta_of t k' else delta_of t k')"
  by (auto simp: delta_of_def table_get_def table_wf_def map_of_eq_None_iff split: option.splits)
    (metis fst_conv image_eqI map_of_SomeD)

lemma delta_of_Nil [simp]: "delta_of [] k = 0"
  by (simp add: delta_of_def)

lemma merge_rows:
  "table_wf rows \<Longrightarrow> table_wf t \<Longrightarrow>
     table_wf (foldl merge_row t rows) \<and> delta_of (foldl merge_row t rows) k = delta_of t k + delta_of rows k"
proof (induction rows arbitrary: t)
  case (Cons r rows)
  obtain k' d where r: "r = (k', d)" by (cases r)
  have wf: "table_wf rows" "table_wf (merge_row t r)"
    using Cons.prems r by (auto simp: merge_row_def)
  have "delta_of (merge_row t r) k = delta_of t k + (if k = k' then d else 0)"
    by (auto simp: merge_row_def r delta_of_put)
  with Cons.IH [OF wf] delta_of_Cons [of k' d rows k] Cons.prems(1) r show ?case by auto
qed simp

lemma counter_step_wf: "counter_wf s \<Longrightarrow> counter_ok s ev \<Longrightarrow> counter_wf (counter_step ev s)"
  using merge_rows [of "ct_flight s" "ac_pending (ct_ac s)"]
  by (cases ev)
    (auto simp: counter_wf_def counter_step_def ac_bump_def ac_take_def merge_back_def Let_def
      split: list.splits)

definition accepts :: "bucket \<Rightarrow> counter_state \<Rightarrow> counter_event \<Rightarrow> nat" where
  "accepts k s ev = (case ev of
     CBump today sp \<Rightarrow> of_bool ((sp, today) = k \<and> \<not> bump_refused k (ct_ac s)) | _ \<Rightarrow> 0)"

lemma counter_step_counted:
  assumes wf: "counter_wf s" and ok: "counter_ok s ev"
  shows "counted k (counter_step ev s) = counted k s + int (accepts k s ev)"
proof (cases ev)
  case (CBump today sp)
  then show ?thesis
    by (auto simp: counted_def counter_step_def ac_bump_def Let_def delta_of_put accepts_def)
next
  case CTake
  with ok show ?thesis
    by (simp add: counted_def counter_step_def ac_take_def accepts_def counter_ok_def)
next
  case CWritten
  show ?thesis
  proof (cases "ct_flight s")
    case (Cons r rows)
    obtain k' d where r: "r = (k', d)" by (cases r)
    have "table_wf ((k', d) # rows)" using wf Cons r by (simp add: counter_wf_def)
    from delta_of_Cons [OF this] CWritten Cons r show ?thesis
      by (simp add: counted_def counter_step_def accepts_def)
  qed (simp add: CWritten counter_step_def accepts_def)
next
  case CFailed
  have "delta_of (foldl merge_row (ac_pending (ct_ac s)) (ct_flight s)) k =
      delta_of (ac_pending (ct_ac s)) k + delta_of (ct_flight s) k"
    using wf merge_rows [of "ct_flight s" "ac_pending (ct_ac s)" k] by (simp add: counter_wf_def)
  with CFailed show ?thesis
    by (simp add: counted_def counter_step_def merge_back_def Let_def accepts_def)
qed

fun accepted :: "bucket \<Rightarrow> counter_state \<Rightarrow> counter_event list \<Rightarrow> nat" where
  "accepted k s [] = 0"
| "accepted k s (ev # evs) = accepts k s ev + accepted k (counter_step ev s) evs"

interpretation counter: guarded_machine counter_ok counter_step counter_wf
  by unfold_locales (rule counter_step_wf)

lemma run_counted:
  "counter_wf s \<Longrightarrow> guarded counter_ok counter_step s evs \<Longrightarrow>
     counted k (run_steps counter_step s evs) = counted k s + int (accepted k s evs)"
proof (induction evs arbitrary: s)
  case (Cons ev evs)
  then have ok: "counter_ok s ev" "guarded counter_ok counter_step (counter_step ev s) evs" by auto
  from Cons.IH [OF counter_step_wf [OF Cons.prems(1) ok(1)] ok(2)]
    counter_step_counted [OF Cons.prems(1) ok(1), of k] show ?case by simp
qed simp

section \<open>Properties\<close>

definition counter_init :: counter_state where
  "counter_init = \<lparr>ct_ac = ac_new, ct_flight = [], ct_db = (\<lambda>_. 0)\<rparr>"

lemma counter_init_wf: "counter_wf counter_init"
  by (simp add: counter_wf_def counter_init_def ac_new_def)

text \<open>
  C21: No access is lost or counted twice. Under every interleaving of requests with the drain task,
  with writes that succeed and writes that fail, what the database holds for a bucket plus what is in
  flight plus what is buffered is exactly the number of accesses accepted for it; so once the buffer
  and the flight are empty the database is exact.
\<close>

theorem accesses_conserved:
  assumes "guarded counter_ok counter_step counter_init evs"
  shows "ct_db (run_steps counter_step counter_init evs) k
      + delta_of (ct_flight (run_steps counter_step counter_init evs)) k
      + delta_of (ac_pending (ct_ac (run_steps counter_step counter_init evs))) k
    = int (accepted k counter_init evs)"
  using run_counted [OF counter_init_wf assms, of k]
  by (simp add: counted_def counter_init_def ac_new_def)

definition demo_counts :: "counter_event list" where
  "demo_counts = [CBump ''d'' ''a'', CBump ''d'' ''a'', CTake, CBump ''d'' ''a'', CFailed, CTake, CWritten]"

lemma accesses_conserved_witness:
  "ct_db (run_steps counter_step counter_init demo_counts) (''a'', ''d'') = 3"
proof -
  have ok: "guarded counter_ok counter_step counter_init demo_counts"
    by (simp add: demo_counts_def counter_ok_def counter_step_def counter_init_def ac_new_def ac_bump_def
        ac_take_def bump_refused_def MAX_PENDING_KEYS_def merge_back_def merge_row_def Let_def
        table_put_def table_get_def delta_of_def)
  have "ct_flight (run_steps counter_step counter_init demo_counts) = []"
    "ac_pending (ct_ac (run_steps counter_step counter_init demo_counts)) = []"
    "accepted (''a'', ''d'') counter_init demo_counts = 3"
    by (simp_all add: demo_counts_def counter_step_def counter_init_def ac_new_def ac_bump_def
        ac_take_def bump_refused_def MAX_PENDING_KEYS_def merge_back_def merge_row_def Let_def
        table_put_def table_get_def delta_of_def accepts_def)
  with accesses_conserved [OF ok, of "(''a'', ''d'')"] show ?thesis by simp
qed

end
