(* ===== verification/Safe_Redirect.thy ===== *)
theory Safe_Redirect
  imports Rust_Text
begin

text \<open>
  Where a redirect may send a browser (\<open>crates/ruscker-admin/src/routes/mod.rs\<close>): the path kept of a
  \<open>Referer\<close>, and the explicit \<open>next\<close> destination. The percent-encoder is a parameter.
\<close>

section \<open>The functions\<close>

definition split_str :: "string \<Rightarrow> string \<Rightarrow> (string \<times> string) option" where
  "split_str sep s =
     map_option (\<lambda>p. (p, drop (length p + length sep) s))
       (List.find (\<lambda>p. prefix sep (drop (length p) s)) (prefixes s))"

definition from_first_slash :: "string \<Rightarrow> string option" where
  "from_first_slash s = (case dropWhile (\<lambda>c. c \<noteq> CHR ''/'') s of [] \<Rightarrow> None | r \<Rightarrow> Some r)"

definition looks_cross_origin :: "string \<Rightarrow> bool" where
  "looks_cross_origin p \<longleftrightarrow>
     \<not> prefix ''/'' p \<or> prefix ''//'' p \<or> (2 \<le> length p \<and> p ! 0 = CHR ''/'' \<and> p ! 1 = CHR 0x5C)"

definition same_origin_path :: "string option \<Rightarrow> string \<Rightarrow> string" where
  "same_origin_path referer fallback =
     (case referer of None \<Rightarrow> fallback
      | Some ref \<Rightarrow>
          (let after_authority = (case split_str ''://'' ref of
               Some (_, rest) \<Rightarrow> from_first_slash rest
             | None \<Rightarrow> Some ref)
           in case after_authority of None \<Rightarrow> fallback
              | Some p \<Rightarrow> if looks_cross_origin p then fallback else p))"

definition local_next_path :: "string option \<Rightarrow> string option" where
  "local_next_path value =
     (case value of None \<Rightarrow> None
      | Some v \<Rightarrow>
          if prefix ''/'' v \<and> \<not> prefix ''//'' v \<and> CHR 0x5C \<notin> set v
             \<and> \<not> list_ex (\<lambda>b. byte b < (32::nat) \<or> byte b = (127::nat)) v
          then Some v else None)"

definition with_next_query :: "(string \<Rightarrow> string) \<Rightarrow> string \<Rightarrow> string \<Rightarrow> string" where
  "with_next_query encode path nxt =
     path @ (if CHR ''?'' \<in> set path then ''&'' else ''?'') @ ''next='' @ encode nxt"

section \<open>Properties\<close>

text \<open>A destination a browser resolves on this origin: one slash, then neither slash nor backslash.\<close>

definition same_origin :: "string \<Rightarrow> bool" where
  "same_origin p \<longleftrightarrow> (\<exists>r. p = CHR ''/'' # r \<and> (r = [] \<or> (hd r \<noteq> CHR ''/'' \<and> hd r \<noteq> CHR 0x5C)))"

lemma not_cross_origin: "\<not> looks_cross_origin p \<longleftrightarrow> same_origin p"
proof (cases p)
  case Nil
  then show ?thesis by (simp add: looks_cross_origin_def same_origin_def)
next
  case (Cons c r)
  then show ?thesis
    by (cases r) (auto simp: looks_cross_origin_def same_origin_def)
qed

text \<open>
  C14: There is no open redirect. Whatever a browser sends as its referer, the path kept of it is the
  fixed fallback or a path on this origin (one slash, not followed by a slash or a backslash); a \<open>next\<close>
  parameter is accepted only when it already is such a path with no backslash and no control character
  anywhere, and is then used unchanged.
\<close>

theorem redirects_stay_local:
  "(same_origin_path referer fallback = fallback \<or> same_origin (same_origin_path referer fallback))
   \<and> (local_next_path value = Some v \<longleftrightarrow>
        value = Some v \<and> same_origin v \<and> CHR 0x5C \<notin> set v
        \<and> (\<forall>b. b \<in> set v \<longrightarrow> 32 \<le> (byte b :: nat) \<and> (byte b :: nat) \<noteq> 127))"
proof
  show "same_origin_path referer fallback = fallback \<or> same_origin (same_origin_path referer fallback)"
    by (auto simp: same_origin_path_def Let_def simp flip: not_cross_origin split: option.splits)
  have "prefix ''/'' v \<and> \<not> prefix ''//'' v \<and> CHR 0x5C \<notin> set v \<longleftrightarrow> same_origin v \<and> CHR 0x5C \<notin> set v"
  proof (cases v)
    case (Cons c r)
    then show ?thesis by (cases r) (auto simp: same_origin_def)
  qed (simp add: same_origin_def)
  then show "local_next_path value = Some v \<longleftrightarrow>
        value = Some v \<and> same_origin v \<and> CHR 0x5C \<notin> set v
        \<and> (\<forall>b. b \<in> set v \<longrightarrow> 32 \<le> (byte b :: nat) \<and> (byte b :: nat) \<noteq> 127)"
    by (auto simp: local_next_path_def list_ex_iff not_less split: option.splits)
qed

lemma redirects_stay_local_witness:
  "local_next_path (Some ''/app/x'') = Some ''/app/x''"
proof -
  have "\<forall>b. b \<in> set ''/app/x'' \<longrightarrow> 32 \<le> (byte b :: nat) \<and> (byte b :: nat) \<noteq> 127" by simp
  with redirects_stay_local [of None "[]" "Some ''/app/x''" "''/app/x''"] show ?thesis
    by (simp add: same_origin_def)
qed

end
