(* ===== verification/Sticky_Cookie.thy ===== *)
theory Sticky_Cookie
  imports Core_Types
begin

text \<open>
  The signed sticky-session cookie (\<open>crates/ruscker-proxy/src/sticky.rs\<close>). Base64, JSON and the
  HMAC come from libraries and are parameters: \<open>base\<close> and \<open>unbase\<close>, \<open>to_json\<close> and \<open>of_json\<close>, and
  \<open>sign\<close>, which maps a key and a payload to a 32-byte tag. Bytes are 8-bit words.
\<close>

section \<open>Sessions and the cookie name\<close>

definition COOKIE_NAME :: string where
  "COOKIE_NAME = ''__ruscker_session''"

definition cookie_name :: "string \<Rightarrow> string" where
  "cookie_name spec_id = COOKIE_NAME @ ''_'' @ spec_id"

definition TAG_LEN :: nat where
  "TAG_LEN = 16"

record sticky_session =
  ssn_id :: uuid
  ssn_spec :: string
  ssn_replica :: replica_id

datatype sticky_error = BadEncoding | TooShort | BadSignature | MalformedPayload | SerializeFailed

section \<open>Comparing tags\<close>

definition ct_eq :: "u8 list \<Rightarrow> u8 list \<Rightarrow> bool" where
  "ct_eq a b =
     (if length a \<noteq> length b then False
      else foldl (\<lambda>diff (x, y). or diff (xor x y)) 0 (zip a b) = 0)"

section \<open>Encoding and decoding\<close>

definition sticky_encode :: "(sticky_session \<Rightarrow> u8 list option) \<Rightarrow> ('k \<Rightarrow> u8 list \<Rightarrow> u8 list) \<Rightarrow>
    (u8 list \<Rightarrow> string) \<Rightarrow> 'k \<Rightarrow> sticky_session \<Rightarrow> sticky_error + string" where
  "sticky_encode to_json sign base key session =
     (case to_json session of
        None \<Rightarrow> Inl SerializeFailed
      | Some payload \<Rightarrow> Inr (base (payload @ take TAG_LEN (sign key payload))))"

definition sticky_decode :: "(u8 list \<Rightarrow> sticky_session option) \<Rightarrow> ('k \<Rightarrow> u8 list \<Rightarrow> u8 list) \<Rightarrow>
    (string \<Rightarrow> u8 list option) \<Rightarrow> 'k \<Rightarrow> string \<Rightarrow> sticky_error + sticky_session" where
  "sticky_decode of_json sign unbase key cookie =
     (case unbase cookie of
        None \<Rightarrow> Inl BadEncoding
      | Some raw \<Rightarrow>
          if length raw < TAG_LEN + 2 then Inl TooShort
          else (let payload = take (length raw - TAG_LEN) raw; tag = drop (length raw - TAG_LEN) raw in
            if \<not> ct_eq (take TAG_LEN (sign key payload)) tag then Inl BadSignature
            else (case of_json payload of None \<Rightarrow> Inl MalformedPayload | Some s \<Rightarrow> Inr s)))"

section \<open>The key\<close>

definition hex_val :: "char \<Rightarrow> nat option" where
  "hex_val c =
     (if is_digit c then Some (byte c - 48)
      else if 97 \<le> (byte c :: nat) \<and> (byte c :: nat) \<le> 102 then Some (byte c - 87)
      else if 65 \<le> (byte c :: nat) \<and> (byte c :: nat) \<le> 70 then Some (byte c - 55) else None)"

definition is_hexdigit :: "char \<Rightarrow> bool" where
  "is_hexdigit c \<longleftrightarrow> hex_val c \<noteq> None"

text \<open>\<open>u8::from_str_radix\<close> on two characters, the first of which may be a plus sign.\<close>

definition hex_byte :: "char \<Rightarrow> char \<Rightarrow> u8 option" where
  "hex_byte a b =
     (case hex_val b of None \<Rightarrow> None
      | Some y \<Rightarrow> if a = CHR ''+'' then Some (of_nat y)
          else map_option (\<lambda>x. of_nat (16 * x + y)) (hex_val a))"

fun decode_hex :: "string \<Rightarrow> u8 list option" where
  "decode_hex [] = Some []"
| "decode_hex [c] = None"
| "decode_hex (a # b # cs) =
     (case hex_byte a b of None \<Rightarrow> None | Some x \<Rightarrow> map_option ((#) x) (decode_hex cs))"

definition key_of_bytes :: "u8 list \<Rightarrow> u8 list option" where
  "key_of_bytes bs = (if length bs = 32 then Some bs else None)"

definition cookie_key_parse ::
    "(string \<Rightarrow> u8 list option) \<Rightarrow> (string \<Rightarrow> u8 list option) \<Rightarrow> string \<Rightarrow> u8 list option" where
  "cookie_key_parse b64_std b64_no_pad raw0 =
     (let raw = trim raw0 in
      if length raw = 64 \<and> list_all is_hexdigit raw then Option.bind (decode_hex raw) key_of_bytes
      else (case b64_std raw of Some b \<Rightarrow> key_of_bytes b
        | None \<Rightarrow> (case b64_no_pad raw of Some b \<Rightarrow> key_of_bytes b | None \<Rightarrow> None)))"

section \<open>Lemmas\<close>

lemma or_eq_0_iff: "or a b = (0 :: u8) \<longleftrightarrow> a = 0 \<and> b = 0"
  by (auto simp: bit_eq_iff bit_or_iff)

lemma xor_eq_0_iff: "xor a b = (0 :: u8) \<longleftrightarrow> a = b"
proof
  assume "xor a b = 0"
  then have "xor (xor a b) b = b" by simp
  then show "a = b" by (simp add: xor.assoc)
qed simp

lemma diff_fold: "foldl (\<lambda>diff (x, y). or diff (xor x y)) d ps = (0 :: u8) \<longleftrightarrow> d = 0 \<and> (\<forall>(x, y) \<in> set ps. x = y)"
  by (induction ps arbitrary: d) (auto simp: or_eq_0_iff xor_eq_0_iff)

lemma ct_eq_iff: "ct_eq a b \<longleftrightarrow> a = b"
proof (cases "length a = length b")
  case True
  have "(\<forall>(x, y) \<in> set (zip a b). x = y) \<longleftrightarrow> a = b"
    using True by (induction rule: list_induct2) auto
  with True show ?thesis by (simp add: ct_eq_def diff_fold)
next
  case False
  then show ?thesis by (auto simp: ct_eq_def)
qed

definition hex_digit :: "nat \<Rightarrow> char" where
  "hex_digit n = (if n < 10 then char_of (48 + n) else char_of (87 + n))"

definition show_hex :: "u8 list \<Rightarrow> string" where
  "show_hex bs = concat (map (\<lambda>b. [hex_digit (unat b div 16), hex_digit (unat b mod 16)]) bs)"

lemma hex_val_digit: "n < 16 \<Longrightarrow> hex_val (hex_digit n) = Some n"
  by (auto simp: hex_val_def hex_digit_def is_digit_def)

lemma hex_digit_not_plus: "n < 16 \<Longrightarrow> hex_digit n \<noteq> CHR ''+''"
  using hex_val_digit [of n] by (auto simp: hex_val_def is_digit_def)

lemma decode_show_hex: "decode_hex (show_hex bs) = Some bs"
proof (induction bs)
  case Nil
  then show ?case by (simp add: show_hex_def)
next
  case (Cons b bs)
  have u: "unat b < 256" using unsigned_less [of b] by simp
  then have "unat b div 16 < 16" "unat b mod 16 < 16" by auto
  moreover have "(of_nat (16 * (unat b div 16) + unat b mod 16) :: u8) = b" by simp
  ultimately have "hex_byte (hex_digit (unat b div 16)) (hex_digit (unat b mod 16)) = Some b"
    by (simp add: hex_byte_def hex_val_digit hex_digit_not_plus del: of_nat_add of_nat_mult)
  with Cons show ?case by (simp add: show_hex_def)
qed

lemma show_hex_digits: "list_all is_hexdigit (show_hex bs)" "length (show_hex bs) = 2 * length bs"
proof -
  have "is_hexdigit (hex_digit (unat b div 16)) \<and> is_hexdigit (hex_digit (unat b mod 16))" for b :: u8
  proof -
    have "unat b < 256" using unsigned_less [of b] by simp
    then have "unat b div 16 < 16" "unat b mod 16 < 16" by auto
    then show ?thesis by (simp add: is_hexdigit_def hex_val_digit)
  qed
  then show "list_all is_hexdigit (show_hex bs)" by (induction bs) (auto simp: show_hex_def)
  show "length (show_hex bs) = 2 * length bs" by (induction bs) (auto simp: show_hex_def)
qed

lemma hexdigit_no_ws: "is_hexdigit c \<Longrightarrow> \<not> is_ws c"
  by (auto simp: is_hexdigit_def hex_val_def is_ws_def is_digit_def split: if_splits)

section \<open>Properties\<close>

text \<open>
  A sticky cookie decodes to the session it was made for, under the key that signed it: for a
  session whose JSON parses back and is at least two bytes long, a Base64 that decodes what it
  encodes and a signature of at least sixteen bytes.
\<close>

theorem sticky_roundtrip:
  assumes json: "to_json session = Some payload" "of_json payload = Some session" "2 \<le> length payload"
    and codec: "\<And>w. unbase (base w) = Some w"
    and tag: "TAG_LEN \<le> length (sign key payload)"
    and enc: "sticky_encode to_json sign base key session = Inr cookie"
  shows "sticky_decode of_json sign unbase key cookie = Inr session"
  using assms
  by (auto simp: sticky_encode_def sticky_decode_def Let_def ct_eq_iff)

definition demo_session :: sticky_session where
  "demo_session = \<lparr>ssn_id = 1, ssn_spec = ''a'', ssn_replica = 7\<rparr>"

definition demo_base :: "u8 list \<Rightarrow> string" where
  "demo_base w = map (\<lambda>b. char_of (unat b)) w"

definition demo_unbase :: "string \<Rightarrow> u8 list option" where
  "demo_unbase s = Some (map (\<lambda>c. of_nat (of_char c)) s)"

lemma demo_base_roundtrip: "demo_unbase (demo_base w) = Some w"
proof -
  have "unat b < 256" for b :: u8 using unsigned_less [of b] by simp
  then show ?thesis by (simp add: demo_base_def demo_unbase_def map_idI)
qed

lemma sticky_roundtrip_witness:
  "sticky_decode (\<lambda>p. if p = [1, 2] then Some demo_session else None) (\<lambda>k p. replicate 32 (k + hd p))
     demo_unbase 5 (demo_base ([1, 2] @ replicate 16 6)) = Inr demo_session"
  by (rule sticky_roundtrip [where to_json = "\<lambda>_. Some [1, 2]" and payload = "[1, 2]" and base = demo_base])
    (simp_all add: demo_base_roundtrip TAG_LEN_def sticky_encode_def)

text \<open>
  C19: Only signed cookies are accepted. A cookie decodes to a session exactly when it is the Base64 of
  a payload of at least two bytes followed by the first sixteen bytes of that payload's signature under
  the server's key, and the payload is the JSON of that session: a changed payload, a changed or cut
  tag, or another key's tag is refused. (The comparison that visits every byte is equality.)
\<close>

theorem sticky_decode_iff:
  assumes tag: "\<And>p. TAG_LEN \<le> length (sign key p)" and "unbase cookie = Some raw"
  shows "sticky_decode of_json sign unbase key cookie = Inr session \<longleftrightarrow>
    (\<exists>payload. raw = payload @ take TAG_LEN (sign key payload) \<and> 2 \<le> length payload
       \<and> of_json payload = Some session)"
proof
  assume a: "sticky_decode of_json sign unbase key cookie = Inr session"
  let ?p = "take (length raw - TAG_LEN) raw"
  from a assms have "TAG_LEN + 2 \<le> length raw" and t: "take TAG_LEN (sign key ?p) = drop (length raw - TAG_LEN) raw"
    and "of_json ?p = Some session"
    by (auto simp: sticky_decode_def Let_def ct_eq_iff not_less split: if_splits option.splits)
  moreover have "raw = ?p @ take TAG_LEN (sign key ?p)" unfolding t by simp
  ultimately show "\<exists>payload. raw = payload @ take TAG_LEN (sign key payload) \<and> 2 \<le> length payload
       \<and> of_json payload = Some session"
    by (intro exI [of _ ?p]) auto
next
  assume "\<exists>payload. raw = payload @ take TAG_LEN (sign key payload) \<and> 2 \<le> length payload
       \<and> of_json payload = Some session"
  then obtain payload where p: "raw = payload @ take TAG_LEN (sign key payload)" "2 \<le> length payload"
    "of_json payload = Some session" by blast
  have "length (take TAG_LEN (sign key payload)) = TAG_LEN" using tag [of payload] by simp
  with p assms(2) show "sticky_decode of_json sign unbase key cookie = Inr session"
    by (simp add: sticky_decode_def Let_def ct_eq_iff)
qed

lemma sticky_decode_iff_witness:
  "sticky_decode (\<lambda>p. if p = [1, 2] then Some demo_session else None) (\<lambda>k p. replicate 32 (k + hd p))
     demo_unbase 5 (demo_base ([1, 2] @ replicate 16 7)) \<noteq> Inr demo_session"
proof -
  let ?sign = "\<lambda>(k::u8) p. replicate 32 (k + hd p)"
  have t: "TAG_LEN \<le> length (?sign 5 p)" for p by (simp add: TAG_LEN_def)
  have "\<not> (\<exists>payload. [1, 2] @ replicate 16 7 = payload @ take TAG_LEN (?sign 5 payload) \<and> 2 \<le> length payload
       \<and> (if payload = [1, 2] then Some demo_session else None) = Some demo_session)"
  proof clarify
    fix payload assume p: "[1, 2] @ replicate 16 7 = payload @ take TAG_LEN (?sign 5 payload)"
      and "(if payload = [1, 2] then Some demo_session else None) = Some demo_session"
    then have "payload = [1, 2]" by (simp split: if_splits)
    with p have "replicate 16 (7::u8) = replicate 16 6" by (simp add: TAG_LEN_def)
    then show False by (simp add: replicate_eq_replicate)
  qed
  then show ?thesis unfolding sticky_decode_iff [of ?sign 5 demo_unbase, OF t demo_base_roundtrip] .
qed

text \<open>
  The operator's key survives its text form: 32 bytes written as 64 hexadecimal digits, with any
  surrounding white space, are read back as those bytes, and whatever form a key is given in, a key
  that is accepted has 32 bytes.
\<close>

theorem cookie_key_roundtrip:
  assumes "length bs = 32" and "list_all is_ws pre" and "list_all is_ws post"
  shows "cookie_key_parse std no_pad (pre @ show_hex bs @ post) = Some bs
    \<and> (\<forall>raw k. cookie_key_parse std no_pad raw = Some k \<longrightarrow> length k = 32)"
proof -
  have nws: "\<forall>c \<in> set (show_hex bs). \<not> is_ws c"
    using show_hex_digits(1) [of bs] by (auto simp: list_all_iff dest: hexdigit_no_ws)
  have ne: "show_hex bs \<noteq> []" using show_hex_digits(2) [of bs] assms(1) by auto
  have "trim_start (pre @ show_hex bs @ post) = show_hex bs @ post"
    using assms(2) nws ne by (cases "show_hex bs") (auto simp: trim_start_def dropWhile_append3 list_all_iff dropWhile_append)
  moreover have "trim_end (show_hex bs @ post) = show_hex bs"
  proof -
    have "dropWhile is_ws (rev post @ rev (show_hex bs)) = dropWhile is_ws (rev (show_hex bs))"
      by (rule dropWhile_append2) (use assms(3) in \<open>simp add: list_all_iff\<close>)
    also have "\<dots> = rev (show_hex bs)"
      using nws ne by (cases "rev (show_hex bs)") (auto simp: dropWhile_eq_self_iff)
    finally show ?thesis by (simp add: trim_end_def)
  qed
  ultimately have "trim (pre @ show_hex bs @ post) = show_hex bs" by (simp add: trim_def)
  with assms(1) show_hex_digits [of bs] have "cookie_key_parse std no_pad (pre @ show_hex bs @ post) = Some bs"
    by (simp add: cookie_key_parse_def decode_show_hex key_of_bytes_def)
  moreover have "length k = 32" if "cookie_key_parse std no_pad raw = Some k" for raw k
    using that by (auto simp: cookie_key_parse_def Let_def key_of_bytes_def split: if_splits option.splits
        bind_splits)
  ultimately show ?thesis by blast
qed

lemma cookie_key_roundtrip_witness:
  "cookie_key_parse (\<lambda>_. None) (\<lambda>_. None) ('' '' @ show_hex (replicate 32 171) @ [CHR 0x0A]) = Some (replicate 32 171)"
  using cookie_key_roundtrip [of "replicate 32 171" "'' ''" "[CHR 0x0A]"] by (simp add: is_ws_def)

end
