(* ===== verification/Multi_Host.thy ===== *)
theory Multi_Host
  imports Config_Validate Core_Registry
begin

text \<open>
  The multi-host backend (\<open>crates/ruscker-docker/src/multihost.rs\<close>). A call on one host's daemon
  is a parameter or an outcome (answered, failed, timed out); the fan-outs, the placement table, the
  scheduling decision and the classification of replicas are modelled. The placement map is a table.
\<close>

section \<open>Choosing a host\<close>

record host_load =
  hl_count :: nat
  hl_max :: "u32 option"
  hl_weight :: u32
  hl_runs_spec :: bool

text \<open>\<open>min_by\<close> keeps the first minimal element, \<open>max_by\<close> the last maximal one.\<close>

fun min_by :: "('a \<Rightarrow> 'a \<Rightarrow> bool) \<Rightarrow> 'a list \<Rightarrow> 'a option" where
  "min_by lt [] = None"
| "min_by lt (x # xs) = Some (foldl (\<lambda>best y. if lt y best then y else best) x xs)"

fun max_by :: "('a \<Rightarrow> 'a \<Rightarrow> bool) \<Rightarrow> 'a list \<Rightarrow> 'a option" where
  "max_by lt [] = None"
| "max_by lt (x # xs) = Some (foldl (\<lambda>best y. if lt y best then best else y) x xs)"

definition weight1 :: "host_load \<Rightarrow> nat" where
  "weight1 l = max (unat (hl_weight l)) 1"

definition spread_lt :: "host_load list \<Rightarrow> nat \<Rightarrow> nat \<Rightarrow> bool" where
  "spread_lt loads a b =
     (let left = hl_count (loads ! a) * weight1 (loads ! b); right = hl_count (loads ! b) * weight1 (loads ! a)
      in left < right \<or> (left = right \<and> a < b))"

definition pack_lt :: "host_load list \<Rightarrow> nat \<Rightarrow> nat \<Rightarrow> bool" where
  "pack_lt loads a b =
     (let ca = hl_count (loads ! a); cb = hl_count (loads ! b) in ca < cb \<or> (ca = cb \<and> b < a))"

definition has_capacity :: "host_load \<Rightarrow> bool" where
  "has_capacity l = (case hl_max l of None \<Rightarrow> True | Some m \<Rightarrow> hl_count l < unat m)"

definition choose_host :: "host_load list \<Rightarrow> placement \<Rightarrow> bool \<Rightarrow> nat option" where
  "choose_host loads placement anti_affinity =
     (let eligible = filter (\<lambda>i. has_capacity (loads ! i)) [0..<length loads] in
      if eligible = [] then None
      else (let free = filter (\<lambda>i. \<not> hl_runs_spec (loads ! i)) eligible;
                pool = (if anti_affinity then (if free = [] then eligible else free) else eligible)
            in case placement of
                 Spread \<Rightarrow> min_by (spread_lt loads) pool
               | BinPack \<Rightarrow> max_by (pack_lt loads) pool))"

section \<open>Addresses\<close>

definition host_config_error :: "host \<Rightarrow> string option" where
  "host_config_error h =
     (let addr = trim (host_address h) in
      if prefix ''unix://'' addr \<or> prefix ''ssh://'' addr \<or> prefix ''http://'' addr then None
      else if prefix ''tcp://'' addr then
        (if host_tls_opt h = None
         then Some (''host `'' @ host_id h @ ''`: tcp:// needs `tls` (ca/cert/key)'') else None)
      else Some (''host `'' @ host_id h @ ''`: address `'' @ addr
             @ ''` must start with ssh:// , tcp:// , http:// or unix://''))"

definition host_part :: "string \<Rightarrow> string" where
  "host_part authority =
     (let no_user = (case rsplit_once CHR ''@'' authority of None \<Rightarrow> authority | Some (_, h) \<Rightarrow> h);
          bracketed = (case strip_prefix ''['' no_user of None \<Rightarrow> None
             | Some rest \<Rightarrow> map_option fst (split_once CHR '']'' rest))
      in case bracketed of Some v6 \<Rightarrow> v6
         | None \<Rightarrow>
             (case rsplit_once CHR '':'' no_user of
                Some (h, port) \<Rightarrow>
                  if CHR '':'' \<notin> set h \<and> port \<noteq> [] \<and> list_all is_digit port then h else no_user
              | None \<Rightarrow> no_user))"

section \<open>Fanning out\<close>

datatype 'a call_result = Answered 'a | CallFailed | TimedOut

record 'a host_batch =
  hb_reported :: "(string \<times> 'a) list"
  hb_failed :: "string list"

definition host_calls :: "(string \<times> 'a call_result) list \<Rightarrow> core_error + 'a host_batch" where
  "host_calls results =
     (let reported = concat (map (\<lambda>(i, r). case r of Answered x \<Rightarrow> [(i, x)] | _ \<Rightarrow> []) results);
          failed = map fst (filter (\<lambda>(_, r). case r of Answered _ \<Rightarrow> False | _ \<Rightarrow> True) results)
      in if reported = [] then
           Inl (Backend (''replica list failed on every docker host ('' @ show_nat (length results) @ '' configured)''))
         else Inr \<lparr>hb_reported = reported, hb_failed = failed\<rparr>)"

type_synonym placement_map = "(replica_id, string \<times> string) table"

definition retain_placements :: "replica_id list \<Rightarrow> string list \<Rightarrow> placement_map \<Rightarrow> placement_map" where
  "retain_placements live failed p = table_retain (\<lambda>i (h, _). i \<in> set live \<or> h \<in> set failed) p"

record inventory =
  iv_managed :: "managed_container list"
  iv_replicas :: "replica list"

section \<open>Liveness\<close>

definition liveness_of_container :: "managed_container \<Rightarrow> liveness" where
  "liveness_of_container c = (if mc_running c then Running else LStopped)"

definition query_owner :: "placement_map \<Rightarrow> liveness_query \<Rightarrow> string option" where
  "query_owner p q = or_option (lq_host q) (map_option fst (table_get p (lq_replica_id q)))"

definition classify_one :: "(string \<times> inventory) list \<Rightarrow> string list \<Rightarrow> placement_map \<Rightarrow> liveness_query \<Rightarrow> liveness" where
  "classify_one reported failed p q =
     (case query_owner p q of
        Some owner \<Rightarrow>
          if owner \<in> set failed then Unknown
          else (case List.find (\<lambda>(h, _). h = owner) reported of
              Some (_, ivt) \<Rightarrow>
                (case List.find (\<lambda>c. mc_id c = lq_container_id q) (iv_managed ivt) of
                   Some c \<Rightarrow> liveness_of_container c | None \<Rightarrow> Missing)
            | None \<Rightarrow> Unknown)
      | None \<Rightarrow>
          (case List.find (\<lambda>c. mc_id c = lq_container_id q) (concat (map (\<lambda>(_, ivt). iv_managed ivt) reported)) of
             Some c \<Rightarrow> liveness_of_container c
           | None \<Rightarrow> if failed = [] then Missing else Unknown))"

definition classify_multihost_liveness ::
    "liveness_query list \<Rightarrow> (string \<times> inventory) list \<Rightarrow> string list \<Rightarrow> placement_map \<Rightarrow>
     liveness_observation list" where
  "classify_multihost_liveness known reported failed p =
     map (\<lambda>q. \<lparr>lo_replica_id = lq_replica_id q, lo_liveness = classify_one reported failed p q\<rparr>) known"

definition place_replica :: "string \<Rightarrow> replica \<Rightarrow> placement_map \<Rightarrow> placement_map" where
  "place_replica h r p = table_put (r_id r) (h, r_spec_id r) p"

definition absorb :: "(string \<times> replica list) list \<Rightarrow> placement_map \<Rightarrow> placement_map" where
  "absorb reported p = foldl (\<lambda>p (h, rs). foldl (\<lambda>p r. place_replica h r p) p rs) p reported"

definition tagged :: "(string \<times> replica list) list \<Rightarrow> replica list" where
  "tagged reported = concat (map (\<lambda>(h, rs). map (\<lambda>r. r\<lparr>r_host := Some h\<rparr>) rs) reported)"

definition mh_replica_liveness ::
    "liveness_query list \<Rightarrow> (string \<times> inventory call_result) list \<Rightarrow> placement_map \<Rightarrow>
     (core_error + liveness_report) \<times> placement_map" where
  "mh_replica_liveness known results p =
     (case host_calls results of
        Inl e \<Rightarrow> (Inl e, p)
      | Inr batch \<Rightarrow>
          (let rep = map (\<lambda>(h, ivt). (h, iv_replicas ivt)) (hb_reported batch);
               all = tagged rep
           in (Inr \<lparr>lr_observations = classify_multihost_liveness known (hb_reported batch) (hb_failed batch) p,
                    lr_running = filter (\<lambda>r. r_state r = Ready) all,
                    lr_managed = concat (map (\<lambda>(_, ivt). iv_managed ivt) (hb_reported batch))\<rparr>,
               retain_placements (map r_id all) (hb_failed batch) (absorb rep p))))"

definition mh_list :: "(string \<times> replica list call_result) list \<Rightarrow> placement_map \<Rightarrow>
    (core_error + replica list) \<times> placement_map" where
  "mh_list results p =
     (case host_calls results of
        Inl e \<Rightarrow> (Inl e, p)
      | Inr batch \<Rightarrow>
          (let all = tagged (hb_reported batch)
           in (Inr all, retain_placements (map r_id all) (hb_failed batch) (absorb (hb_reported batch) p))))"

section \<open>Hosts and spawning\<close>

record host_entry =
  he_id :: string
  he_max_containers :: "u32 option"
  he_weight :: u32

definition mh_connect :: "(host \<Rightarrow> bool) \<Rightarrow> host list \<Rightarrow> core_error + host_entry list" where
  "mh_connect reachable hosts =
     (if hosts = [] then Inl (Backend ''no docker hosts configured'')
      else (case List.find (\<lambda>h. host_config_error h \<noteq> None) hosts of
          Some h \<Rightarrow> Inl (Backend (unwrap_or [] (host_config_error h)))
        | None \<Rightarrow>
            (let built = map (\<lambda>h. \<lparr>he_id = host_id h, he_max_containers = host_max_containers h,
                  he_weight = max (unwrap_or 1 (host_weight h)) 1\<rparr>) (filter reachable hosts)
             in if built = []
                then Inl (Backend ''no docker hosts reachable (all configured hosts failed to connect)'')
                else Inr built)))"

text \<open>With two hosts of one id, the map from ids to positions keeps the last.\<close>

definition index_of_host :: "host_entry list \<Rightarrow> string \<Rightarrow> nat option" where
  "index_of_host hosts i = map_of (rev (zip (map he_id hosts) [0..<length hosts])) i"

definition load_of :: "host_entry list \<Rightarrow> string \<Rightarrow> placement_map \<Rightarrow> nat \<Rightarrow> host_load" where
  "load_of hosts spec_id p i =
     \<lparr>hl_count = count_if (\<lambda>(_, (h, _)). index_of_host hosts h = Some i) p,
      hl_max = he_max_containers (hosts ! i), hl_weight = he_weight (hosts ! i),
      hl_runs_spec = list_ex (\<lambda>(_, (h, s)). index_of_host hosts h = Some i \<and> s = spec_id) p\<rparr>"

definition pick_host :: "host_entry list \<Rightarrow> string \<Rightarrow> placement \<Rightarrow> bool \<Rightarrow> placement_map \<Rightarrow> core_error + nat" where
  "pick_host hosts spec_id placement anti_affinity p =
     (case choose_host (map (load_of hosts spec_id p) [0..<length hosts]) placement anti_affinity of
        Some i \<Rightarrow> Inr i
      | None \<Rightarrow> Inl (Backend ''all docker hosts at capacity''))"

definition mh_spawn_request ::
    "(string \<Rightarrow> 'f spawn_request \<Rightarrow> core_error + replica) \<Rightarrow> host_entry list \<Rightarrow> 'f spawn_request \<Rightarrow>
     placement_map \<Rightarrow> (core_error + replica) \<times> placement_map" where
  "mh_spawn_request spawn_on hosts req p =
     (case pick_host hosts (sr_spec_id req) (sr_placement req) (sr_anti_affinity req) p of
        Inl e \<Rightarrow> (Inl e, p)
      | Inr i \<Rightarrow>
          (case spawn_on (he_id (hosts ! i)) req of
             Inl e \<Rightarrow> (Inl e, p)
           | Inr r \<Rightarrow> (Inr (r\<lparr>r_host := Some (he_id (hosts ! i))\<rparr>),
                table_put (r_id r) (he_id (hosts ! i), sr_spec_id req) p)))"

section \<open>Stopping\<close>

text \<open>
  One daemon: whether it answers, and the replicas whose containers it has. \<open>local_stop\<close> is
  \<open>LocalDockerBackend::stop\<close>: an absent container counts as stopped.
\<close>

record daemon =
  dm_up :: bool
  dm_replicas :: "replica_id list"

definition local_stop :: "replica_id \<Rightarrow> daemon \<Rightarrow> (core_error + unit) \<times> daemon" where
  "local_stop rid d =
     (if \<not> dm_up d then (Inl (Backend ''unreachable''), d)
      else if rid \<notin> set (dm_replicas d) then (Inr (), d)
      else (Inr (), d\<lparr>dm_replicas := filter (\<lambda>i. i \<noteq> rid) (dm_replicas d)\<rparr>))"

fun stop_everywhere :: "replica_id \<Rightarrow> (string \<times> daemon) list \<Rightarrow> (string \<times> daemon) list" where
  "stop_everywhere rid [] = []"
| "stop_everywhere rid ((h, d) # ds) =
     (case local_stop rid d of
        (Inr _, d') \<Rightarrow> (h, d') # ds
      | (Inl _, d') \<Rightarrow> (h, d') # stop_everywhere rid ds)"

fun stop_on :: "string \<Rightarrow> replica_id \<Rightarrow> (string \<times> daemon) list \<Rightarrow> (core_error + unit) \<times> (string \<times> daemon) list" where
  "stop_on h rid [] = (Inr (), [])"
| "stop_on h rid ((h', d) # ds) =
     (if h' = h then (case local_stop rid d of (r, d') \<Rightarrow> (r, (h', d') # ds))
      else (case stop_on h rid ds of (r, ds') \<Rightarrow> (r, (h', d) # ds')))"

definition mh_stop :: "replica_id \<Rightarrow> (string \<times> daemon) list \<Rightarrow> placement_map \<Rightarrow>
    (core_error + unit) \<times> (string \<times> daemon) list \<times> placement_map" where
  "mh_stop rid ds p =
     (case table_get p rid of
        Some (h, _) \<Rightarrow>
          if h \<in> fst ` set ds then (case stop_on h rid ds of (r, ds') \<Rightarrow> (r, ds', table_del rid p))
          else (Inr (), stop_everywhere rid ds, table_del rid p)
      | None \<Rightarrow> (Inr (), stop_everywhere rid ds, table_del rid p))"

section \<open>Images\<close>

definition add_new_tags :: "string list \<Rightarrow> string list \<Rightarrow> string list" where
  "add_new_tags seen ts = foldl (\<lambda>acc t. if t \<in> set acc then acc else acc @ [t]) seen ts"

definition merge_image :: "(string, image_info) table \<Rightarrow> image_info \<Rightarrow> (string, image_info) table" where
  "merge_image by_id img =
     (case table_get by_id (im_id img) of
        Some seen \<Rightarrow>
          table_put (im_id img)
            (seen\<lparr>im_containers := (if im_containers seen = - 1 \<or> im_containers img = - 1 then - 1
                   else im_containers seen + im_containers img),
                  im_tags := add_new_tags (im_tags seen) (im_tags img)\<rparr>) by_id
      | None \<Rightarrow> table_put (im_id img) img by_id)"

definition mh_list_images :: "(string \<times> image_info list call_result) list \<Rightarrow> image_info list" where
  "mh_list_images results =
     map snd (foldl (\<lambda>t (_, r). case r of Answered is \<Rightarrow> foldl merge_image t is | _ \<Rightarrow> t) [] results)"

fun mh_all_container_image_refs :: "(string \<times> string list call_result) list \<Rightarrow> core_error + string list" where
  "mh_all_container_image_refs [] = Inr []"
| "mh_all_container_image_refs ((h, r) # rs) =
     (case r of
        CallFailed \<Rightarrow> Inl (Backend (''host '' @ h @ '' container image refs failed''))
      | TimedOut \<Rightarrow> Inl (Backend (''host '' @ h @ '' container image refs timed out''))
      | Answered refs \<Rightarrow> (case mh_all_container_image_refs rs of Inl e \<Rightarrow> Inl e | Inr all \<Rightarrow> Inr (refs @ all)))"

definition mh_list_managed :: "(string \<times> managed_container list call_result) list \<Rightarrow> managed_container list" where
  "mh_list_managed results = concat (map (\<lambda>(_, r). case r of Answered cs \<Rightarrow> cs | _ \<Rightarrow> []) results)"

definition mh_image_present :: "(string \<times> bool call_result) list \<Rightarrow> bool" where
  "mh_image_present results =
     (let answers = concat (map (\<lambda>(_, r). case r of Answered b \<Rightarrow> [b] | _ \<Rightarrow> []) results)
      in answers \<noteq> [] \<and> list_all id answers)"

section \<open>Lemmas on the choice\<close>

text \<open>A comparison that is transitive and total picks the same element whichever way it scans.\<close>

lemma foldl_best:
  assumes "\<And>a b c. R a b \<Longrightarrow> R b c \<Longrightarrow> R a (c :: 'a)" and "\<And>a. R a a"
    and step: "\<And>b y. (s b y = b \<or> s b y = y) \<and> R (s b y) b \<and> R (s b y) y"
  shows "foldl s x xs \<in> set (x # xs) \<and> (\<forall>y \<in> set (x # xs). R (foldl s x xs) y)"
proof (induction xs arbitrary: x)
  case Nil
  with assms(2) show ?case by simp
next
  case (Cons y ys)
  let ?m = "foldl s (s x y) ys"
  from Cons.IH [of "s x y"] have m: "?m \<in> set (s x y # ys)" "R ?m (s x y)" "\<forall>z \<in> set ys. R ?m z" by auto
  have "R ?m x" "R ?m y" using assms(1) [OF m(2)] step [of x y] by blast+
  moreover have "?m \<in> set (x # y # ys)" using m(1) step [of x y] by auto
  ultimately show ?case using m(3) by simp
qed

definition spread_le :: "host_load list \<Rightarrow> nat \<Rightarrow> nat \<Rightarrow> bool" where
  "spread_le loads a b \<longleftrightarrow> a = b \<or> spread_lt loads a b"

lemma weight1_pos: "0 < weight1 l"
  by (simp add: weight1_def)

lemma frac_trans:
  fixes a b c wa wb wc :: nat
  assumes "a * wb \<le> b * wa" "b * wc \<le> c * wb" "0 < wb"
  shows "a * wc \<le> c * wa"
proof -
  have "a * wc * wb = a * wb * wc" by simp
  also have "\<dots> \<le> b * wa * wc" using assms(1) by (rule mult_right_mono) simp
  also have "\<dots> = b * wc * wa" by simp
  also have "\<dots> \<le> c * wb * wa" using assms(2) by (rule mult_right_mono) simp
  also have "\<dots> = c * wa * wb" by simp
  finally show ?thesis using assms(3) by simp
qed

lemma spread_le_iff:
  "spread_le loads a b \<longleftrightarrow>
     hl_count (loads ! a) * weight1 (loads ! b) < hl_count (loads ! b) * weight1 (loads ! a) \<or>
     (hl_count (loads ! a) * weight1 (loads ! b) = hl_count (loads ! b) * weight1 (loads ! a) \<and> a \<le> b)"
  by (auto simp: spread_le_def spread_lt_def Let_def)

lemma spread_le_trans: "spread_le loads a b \<Longrightarrow> spread_le loads b c \<Longrightarrow> spread_le loads a c"
proof -
  assume ab: "spread_le loads a b" and bc: "spread_le loads b c"
  let ?n = "\<lambda>i. hl_count (loads ! i)" and ?w = "\<lambda>i. weight1 (loads ! i)"
  have 1: "?n a * ?w c \<le> ?n c * ?w a"
    using ab bc frac_trans [of "?n a" "?w b" "?n b" "?w a" "?w c" "?n c"] weight1_pos
    by (auto simp: spread_le_iff)
  have 2: "a \<le> c" if eq: "?n a * ?w c = ?n c * ?w a"
  proof -
    have "?n c * ?w b \<le> ?n b * ?w c"
      using ab eq frac_trans [of "?n c" "?w a" "?n a" "?w c" "?w b" "?n b"] weight1_pos
      by (auto simp: spread_le_iff)
    moreover have "?n b * ?w a \<le> ?n a * ?w b"
      using bc eq frac_trans [of "?n b" "?w c" "?n c" "?w b" "?w a" "?n a"] weight1_pos
      by (auto simp: spread_le_iff)
    ultimately show ?thesis using ab bc by (auto simp: spread_le_iff)
  qed
  from 1 2 show ?thesis by (auto simp: spread_le_iff)
qed

lemma min_by_spread:
  assumes "min_by (spread_lt loads) xs = Some m"
  shows "m \<in> set xs \<and> (\<forall>y \<in> set xs. spread_le loads m y)"
proof -
  from assms obtain x ys where xs: "xs = x # ys" by (cases xs) auto
  have total: "spread_le loads y best \<or> spread_le loads best y" for y best
    by (auto simp: spread_le_iff)
  have "foldl (\<lambda>best y. if spread_lt loads y best then y else best) x ys \<in> set (x # ys) \<and>
      (\<forall>y \<in> set (x # ys). spread_le loads (foldl (\<lambda>best y. if spread_lt loads y best then y else best) x ys) y)"
  proof (rule foldl_best [of "spread_le loads"])
    show "spread_le loads a b \<Longrightarrow> spread_le loads b c \<Longrightarrow> spread_le loads a c" for a b c
      by (rule spread_le_trans)
  qed (use total in \<open>auto simp: spread_le_def\<close>)
  with assms xs show ?thesis by simp
qed

lemma max_by_pack:
  assumes "max_by (pack_lt loads) xs = Some m"
  shows "m \<in> set xs \<and> (\<forall>y \<in> set xs. hl_count (loads ! y) < hl_count (loads ! m)
     \<or> (hl_count (loads ! y) = hl_count (loads ! m) \<and> m \<le> y))"
proof -
  from assms obtain x ys where xs: "xs = x # ys" by (cases xs) auto
  let ?R = "\<lambda>m y. hl_count (loads ! y) < hl_count (loads ! m)
     \<or> (hl_count (loads ! y) = hl_count (loads ! m) \<and> m \<le> y)"
  have "foldl (\<lambda>best y. if pack_lt loads y best then best else y) x ys \<in> set (x # ys) \<and>
      (\<forall>y \<in> set (x # ys). ?R (foldl (\<lambda>best y. if pack_lt loads y best then best else y) x ys) y)"
    by (rule foldl_best) (auto simp: pack_lt_def Let_def)
  with assms xs show ?thesis by simp
qed

definition host_pool :: "host_load list \<Rightarrow> bool \<Rightarrow> nat list" where
  "host_pool loads anti_affinity =
     (let eligible = filter (\<lambda>i. has_capacity (loads ! i)) [0..<length loads];
          free = filter (\<lambda>i. \<not> hl_runs_spec (loads ! i)) eligible
      in if anti_affinity \<and> free \<noteq> [] then free else eligible)"

lemma choose_host_pool:
  "choose_host loads placement anti_affinity =
     (case placement of Spread \<Rightarrow> min_by (spread_lt loads) (host_pool loads anti_affinity)
      | BinPack \<Rightarrow> max_by (pack_lt loads) (host_pool loads anti_affinity))"
  by (auto simp: choose_host_def host_pool_def Let_def split: placement.split)

lemma set_host_pool:
  "i \<in> set (host_pool loads aa) \<longleftrightarrow> i < length loads \<and> has_capacity (loads ! i) \<and>
     (aa \<and> (\<exists>j<length loads. has_capacity (loads ! j) \<and> \<not> hl_runs_spec (loads ! j)) \<longrightarrow> \<not> hl_runs_spec (loads ! i))"
  by (auto simp: host_pool_def Let_def filter_empty_conv)

lemma host_pool_empty: "host_pool loads aa = [] \<longleftrightarrow> (\<forall>i<length loads. \<not> has_capacity (loads ! i))"
  by (auto simp: host_pool_def Let_def filter_empty_conv)

lemma by_None_iff: "min_by lt xs = None \<longleftrightarrow> xs = []" "max_by lt xs = None \<longleftrightarrow> xs = []"
  by (cases xs; simp)+

section \<open>Properties of the choice\<close>

text \<open>
  C20: The scheduler never exceeds a host's capacity and refuses only when it must: no host is chosen
  exactly when every host is full; a chosen host has room; with anti-affinity it does not run the spec
  already unless every host with room does; spreading takes a host of least load per weight, compared
  exactly and not in floating point, and packing a fullest host, the first such in configuration order.
\<close>

theorem choose_host_optimal:
  "(choose_host loads placement aa = None \<longleftrightarrow> (\<forall>i<length loads. \<not> has_capacity (loads ! i)))
   \<and> (\<forall>i. choose_host loads placement aa = Some i \<longrightarrow>
        i < length loads \<and> has_capacity (loads ! i)
        \<and> (aa \<and> (\<exists>j<length loads. has_capacity (loads ! j) \<and> \<not> hl_runs_spec (loads ! j)) \<longrightarrow> \<not> hl_runs_spec (loads ! i))
        \<and> (\<forall>j \<in> set (host_pool loads aa).
             (case placement of
                Spread \<Rightarrow> hl_count (loads ! i) * weight1 (loads ! j) \<le> hl_count (loads ! j) * weight1 (loads ! i)
              | BinPack \<Rightarrow> hl_count (loads ! j) < hl_count (loads ! i)
                  \<or> (hl_count (loads ! j) = hl_count (loads ! i) \<and> i \<le> j))))"
  (is "_ \<and> (\<forall>i. _ \<longrightarrow> _ \<and> _ \<and> _ \<and> (\<forall>j \<in> set ?pool. ?best i j))")
proof -
  have best: "i \<in> set ?pool \<and> (\<forall>j \<in> set ?pool. ?best i j)" if "choose_host loads placement aa = Some i" for i
  proof (cases placement)
    case Spread
    with that min_by_spread [of loads ?pool i] show ?thesis
      by (auto simp: choose_host_pool spread_le_iff)
  next
    case BinPack
    with that max_by_pack [of loads ?pool i] show ?thesis by (simp add: choose_host_pool)
  qed
  have none: "choose_host loads placement aa = None \<longleftrightarrow> ?pool = []"
    by (cases placement) (simp_all add: choose_host_pool by_None_iff)
  show ?thesis
  proof (intro conjI allI impI)
    show "choose_host loads placement aa = None \<longleftrightarrow> (\<forall>i<length loads. \<not> has_capacity (loads ! i))"
      by (simp only: none host_pool_empty)
  next
    fix i assume "choose_host loads placement aa = Some i"
    with best have i: "i \<in> set ?pool" "\<forall>j \<in> set ?pool. ?best i j" by blast+
    note p = set_host_pool [THEN iffD1, OF i(1)]
    show "i < length loads" "has_capacity (loads ! i)" using p by blast+
    show "\<not> hl_runs_spec (loads ! i)"
      if "aa \<and> (\<exists>j<length loads. has_capacity (loads ! j) \<and> \<not> hl_runs_spec (loads ! j))" using p that by blast
    show "\<forall>j \<in> set ?pool. ?best i j" by (rule i(2))
  qed
qed

lemma choose_host_optimal_witness:
  "has_capacity \<lparr>hl_count = 1, hl_max = Some 2, hl_weight = 1, hl_runs_spec = True\<rparr>
   \<and> choose_host [\<lparr>hl_count = 2, hl_max = Some 2, hl_weight = 1, hl_runs_spec = False\<rparr>,
       \<lparr>hl_count = 1, hl_max = Some 2, hl_weight = 1, hl_runs_spec = True\<rparr>] Spread True = Some 1"
proof -
  let ?l = "[\<lparr>hl_count = 2, hl_max = Some 2, hl_weight = 1, hl_runs_spec = False\<rparr>,
       \<lparr>hl_count = 1, hl_max = Some 2, hl_weight = 1, hl_runs_spec = True\<rparr>]"
  have c: "choose_host ?l Spread True = Some 1"
    by (simp add: choose_host_def has_capacity_def upt_rec)
  from choose_host_optimal [of ?l Spread True] c show ?thesis by fastforce
qed

section \<open>What the classification may say\<close>

lemma find_host: "List.find (\<lambda>(h, _). h = owner) xs = Some (h, x) \<Longrightarrow> (owner, x) \<in> set xs"
  by (drule find_Some_mem) auto

lemma host_calls_Inr:
  "host_calls results = Inr b \<Longrightarrow>
     ((h, x) \<in> set (hb_reported b) \<longleftrightarrow> (h, Answered x) \<in> set results)
     \<and> (h \<in> set (hb_failed b) \<longleftrightarrow> (h, CallFailed) \<in> set results \<or> (h, TimedOut) \<in> set results)"
  by (auto simp: host_calls_def Let_def image_iff split: if_splits call_result.splits)

text \<open>A world: the containers each host really has, what each host's daemon answered (a whole
  inventory or nothing), and the placement table.\<close>

type_synonym mh_world = "(string \<Rightarrow> managed_container list) \<times> (string \<times> inventory call_result) list \<times> placement_map"

definition mh_alive :: "mh_world \<Rightarrow> liveness_query \<Rightarrow> bool" where
  "mh_alive w q \<longleftrightarrow> (case w of (ground, results, p) \<Rightarrow>
     (\<forall>(h, r) \<in> set results. case r of Answered ivt \<Rightarrow> iv_managed ivt = ground h | _ \<Rightarrow> True)
     \<and> (\<exists>h. (case query_owner p q of Some owner \<Rightarrow> h = owner | None \<Rightarrow> h \<in> fst ` set results)
          \<and> (\<exists>c \<in> set (ground h). mc_id c = lq_container_id q))
     \<and> (\<forall>h c. c \<in> set (ground h) \<and> mc_id c = lq_container_id q \<longrightarrow> mc_running c))"

definition mh_report :: "mh_world \<Rightarrow> liveness_query list \<Rightarrow> liveness_report" where
  "mh_report w known = (case w of (ground, results, p) \<Rightarrow>
     (case fst (mh_replica_liveness known results p) of Inl _ \<Rightarrow> unknown_report known | Inr r \<Rightarrow> r))"

lemma classify_alive:
  assumes alive: "mh_alive (ground, results, p) q" and calls: "host_calls results = Inr b"
  shows "classify_one (hb_reported b) (hb_failed b) p q \<in> {Running, Unknown}"
proof -
  note hc = host_calls_Inr [OF calls]
  have acc: "iv_managed ivt = ground h" if "(h, ivt) \<in> set (hb_reported b)" for h ivt
    using that alive hc by (auto simp: mh_alive_def)
  have run: "mc_running c" if "c \<in> set (ground h)" "mc_id c = lq_container_id q" for h c
    using alive that by (auto simp: mh_alive_def)
  have runs: "liveness_of_container c = Running"
    if "(h, ivt) \<in> set (hb_reported b)" "c \<in> set (iv_managed ivt)" "mc_id c = lq_container_id q" for h ivt c
    using that acc run by (metis liveness_of_container_def)
  show ?thesis
  proof (cases "query_owner p q")
    case (Some owner)
    show ?thesis
    proof (cases "List.find (\<lambda>(h, _). h = owner) (hb_reported b)")
      case found: (Some hx)
      obtain h ivt where hx: "hx = (h, ivt)" by (cases hx)
      then have rep: "(owner, ivt) \<in> set (hb_reported b)" using found find_host by metis
      from alive Some obtain c where "c \<in> set (ground owner)" "mc_id c = lq_container_id q"
        by (auto simp: mh_alive_def)
      then have "List.find (\<lambda>c. mc_id c = lq_container_id q) (iv_managed ivt) \<noteq> None"
        using acc [OF rep] by (auto simp: find_None_iff')
      then obtain c' where c': "List.find (\<lambda>c. mc_id c = lq_container_id q) (iv_managed ivt) = Some c'" by blast
      with runs [OF rep] have "liveness_of_container c' = Running" using find_Some_mem [OF c'] by blast
      with Some found hx c' show ?thesis by (simp add: classify_one_def)
    qed (simp add: classify_one_def Some)
  next
    case None
    let ?all = "concat (map (\<lambda>(_, ivt). iv_managed ivt) (hb_reported b))"
    show ?thesis
    proof (cases "List.find (\<lambda>c. mc_id c = lq_container_id q) ?all")
      case (Some c)
      with runs have "liveness_of_container c = Running" using find_Some_mem [OF Some] by auto
      with None Some show ?thesis by (simp add: classify_one_def)
    next
      case nf: None
      from alive None obtain h c where h: "h \<in> fst ` set results" "c \<in> set (ground h)" "mc_id c = lq_container_id q"
        by (auto simp: mh_alive_def)
      then obtain r where r: "(h, r) \<in> set results" by auto
      have "hb_failed b \<noteq> []"
      proof (cases r)
        case (Answered ivt)
        with r hc have rep: "(h, ivt) \<in> set (hb_reported b)" by blast
        with h acc have "c \<in> set ?all" by force
        with nf h(3) show ?thesis by (auto simp: find_None_iff')
      qed (use r hc in \<open>fastforce+\<close>)
      with None nf show ?thesis by (simp add: classify_one_def)
    qed
  qed
qed

lemma mh_report_obs:
  "lo \<in> set (lr_observations (mh_report (ground, results, p) known)) \<Longrightarrow>
     \<exists>q \<in> set known. lo_replica_id lo = lq_replica_id q \<and>
       (lo_liveness lo = Unknown \<or>
        (\<exists>b. host_calls results = Inr b \<and> lo_liveness lo = classify_one (hb_reported b) (hb_failed b) p q))"
proof -
  assume lo: "lo \<in> set (lr_observations (mh_report (ground, results, p) known))"
  show ?thesis
  proof (cases "host_calls results")
    case (Inl e)
    with lo show ?thesis
      by (auto simp: mh_report_def mh_replica_liveness_def unknown_report_def)
  next
    case (Inr b)
    with lo obtain q where "q \<in> set known" "lo = \<lparr>lo_replica_id = lq_replica_id q,
        lo_liveness = classify_one (hb_reported b) (hb_failed b) p q\<rparr>"
      by (auto simp: mh_report_def mh_replica_liveness_def Let_def classify_multihost_liveness_def)
    with Inr show ?thesis by (intro bexI [of _ q]) auto
  qed
qed

interpretation multi_liveness: liveness_source mh_report mh_alive
proof unfold_locales
  fix q known and w :: mh_world and l
  assume q: "q \<in> set known" and alive: "mh_alive w q" and d: "distinct (map lq_replica_id known)"
    and o: "\<lparr>lo_replica_id = lq_replica_id q, lo_liveness = l\<rparr> \<in> set (lr_observations (mh_report w known))"
  obtain ground results p where w: "w = (ground, results, p)" by (cases w)
  from mh_report_obs [OF o [unfolded w]] obtain q' where q': "q' \<in> set known" "lq_replica_id q = lq_replica_id q'"
    and l: "l = Unknown \<or> (\<exists>b. host_calls results = Inr b \<and> l = classify_one (hb_reported b) (hb_failed b) p q')"
    by auto
  from q' q d have "q' = q" by (metis distinct_map inj_onD)
  with l classify_alive [OF alive [unfolded w]] show "l = Running \<or> l = Unknown" by blast
next
  fix lo and w :: mh_world and known
  assume "lo \<in> set (lr_observations (mh_report w known))"
  then show "lo_replica_id lo \<in> lq_replica_id ` set known"
    by (cases w) (auto dest!: mh_report_obs)
qed

section \<open>Properties of the cluster\<close>

text \<open>
  C10: A degraded cluster never looks dead. If a replica's container runs on its host, whatever subset of
  the hosts answered the inventory, the report says running or unknown, never stopped or missing; a
  missing replica is one whose owning host answered without it, or, with no recorded owner, one that no
  host has while every host answered.
\<close>

theorem liveness_never_guesses:
  assumes "mh_alive (ground, results, p) q" and "q \<in> set known" and "distinct (map lq_replica_id known)"
    and "lo \<in> set (lr_observations (mh_report (ground, results, p) known))"
    and "lo_replica_id lo = lq_replica_id q"
  shows "lo_liveness lo = Running \<or> lo_liveness lo = Unknown"
proof -
  have "lo_liveness lo \<noteq> Missing \<and> lo_liveness lo \<noteq> LStopped"
    using assms by (intro multi_liveness.alive_not_dead)
  then show ?thesis by (cases "lo_liveness lo") auto
qed

definition demo_container :: managed_container where
  "demo_container = \<lparr>mc_id = ''c1'', mc_name = [], mc_image = [], mc_spec_id = None, mc_status = [],
     mc_running = True, mc_finished_at = None\<rparr>"

definition demo_ground :: "string \<Rightarrow> managed_container list" where
  "demo_ground h = (if h = ''h2'' then [demo_container] else [])"

definition demo_query :: liveness_query where
  "demo_query = \<lparr>lq_replica_id = 1, lq_container_id = ''c1'', lq_host = Some ''h2''\<rparr>"

lemma liveness_never_guesses_witness:
  "map lo_liveness (lr_observations (mh_report (demo_ground,
     [(''h1'', Answered \<lparr>iv_managed = [], iv_replicas = []\<rparr>), (''h2'', TimedOut)], []) [demo_query])) = [Unknown]"
proof -
  let ?r = "[(''h1'', Answered \<lparr>iv_managed = [], iv_replicas = []\<rparr>), (''h2'', TimedOut)]"
  have a: "mh_alive (demo_ground, ?r, []) demo_query"
    by (auto simp: mh_alive_def demo_ground_def demo_query_def query_owner_def or_option_def demo_container_def)
  have o: "lr_observations (mh_report (demo_ground, ?r, []) [demo_query]) =
      [\<lparr>lo_replica_id = 1, lo_liveness = Unknown\<rparr>]"
    by (simp add: mh_report_def mh_replica_liveness_def host_calls_def classify_multihost_liveness_def
        classify_one_def query_owner_def or_option_def demo_query_def Let_def)
  have "lo_liveness \<lparr>lo_replica_id = 1, lo_liveness = Unknown\<rparr> = Running \<or>
      lo_liveness \<lparr>lo_replica_id = 1, lo_liveness = Unknown\<rparr> = Unknown"
    by (rule liveness_never_guesses [OF a, of "[demo_query]"]) (simp_all only: o, simp_all add: demo_query_def)
  with o show ?thesis by simp
qed

text \<open>Spawning keeps every host within its cap, counted over the placement table.\<close>

definition placed_count :: "host_entry list \<Rightarrow> placement_map \<Rightarrow> nat \<Rightarrow> nat" where
  "placed_count hosts p i = count_if (\<lambda>(_, (h, _)). index_of_host hosts h = Some i) p"

definition within_caps :: "host_entry list \<Rightarrow> placement_map \<Rightarrow> bool" where
  "within_caps hosts p \<longleftrightarrow> list_all (\<lambda>i. case he_max_containers (hosts ! i) of None \<Rightarrow> True
     | Some m \<Rightarrow> placed_count hosts p i \<le> unat m) [0..<length hosts]"

lemma count_if_put_new:
  "table_get t k = None \<Longrightarrow> count_if P (table_put k v t) = count_if P t + (if P (k, v) then 1 else 0)"
proof (induction t)
  case (Cons r t)
  obtain k' v' where "r = (k', v')" by (cases r)
  with Cons show ?case by (auto simp: table_put_def table_get_def split: if_splits)
qed (simp add: table_put_def)

lemma spawn_index:
  assumes "distinct (map he_id hosts)" and "i < length hosts"
  shows "index_of_host hosts (he_id (hosts ! i)) = Some i"
proof -
  have "map_of (zip (map he_id hosts) [0..<length hosts]) (he_id (hosts ! i)) = Some i"
    using map_of_zip_nth [of "map he_id hosts" "[0..<length hosts]" i] assms by simp
  moreover have "map_of (rev (zip (map he_id hosts) [0..<length hosts])) = map_of (zip (map he_id hosts) [0..<length hosts])"
    using assms(1) by (intro map_of_inject_set [THEN iffD2]) (simp_all add: rev_map [symmetric])
  ultimately show ?thesis by (simp add: index_of_host_def)
qed

text \<open>
  A spawn keeps the cluster within its caps: if no host has more placed replicas than its limit,
  then after a spawn, successful or not, none has; and a spawn that fails leaves the placement table as
  it was.
\<close>

theorem spawn_within_caps:
  assumes "distinct (map he_id hosts)" and "within_caps hosts p" and "mh_spawn_request spawn_on hosts req p = (res, p')"
    and fresh: "\<forall>r. res = Inr r \<longrightarrow> table_get p (r_id r) = None"
  shows "within_caps hosts p' \<and> (isl res \<longrightarrow> p' = p)"
proof -
  let ?loads = "map (load_of hosts (sr_spec_id req) p) [0..<length hosts]"
  show ?thesis
  proof (cases "choose_host ?loads (sr_placement req) (sr_anti_affinity req)")
    case None
    with assms show ?thesis by (auto simp: mh_spawn_request_def pick_host_def)
  next
    case (Some i)
    with choose_host_pool [of ?loads] have "i \<in> set (host_pool ?loads (sr_anti_affinity req))"
      using min_by_spread [of ?loads] max_by_pack [of ?loads] by (cases "sr_placement req") auto
    then have "i < length ?loads \<and> has_capacity (?loads ! i)" unfolding set_host_pool by blast
    then have i: "i < length hosts" and ci: "has_capacity (?loads ! i)" by auto
    have "?loads ! i = load_of hosts (sr_spec_id req) p i" using i by simp
    with ci have cap: "has_capacity (load_of hosts (sr_spec_id req) p i)" by metis
    show ?thesis
    proof (cases "spawn_on (he_id (hosts ! i)) req")
      case (Inl e)
      with Some assms show ?thesis by (auto simp: mh_spawn_request_def pick_host_def)
    next
      case (Inr r)
      with Some assms have p': "p' = table_put (r_id r) (he_id (hosts ! i), sr_spec_id req) p"
        and n: "table_get p (r_id r) = None" and res: "\<not> isl res"
        by (auto simp: mh_spawn_request_def pick_host_def)
      have "placed_count hosts p' j \<le> unat m" if j: "j < length hosts" "he_max_containers (hosts ! j) = Some m" for j m
      proof -
        have old: "placed_count hosts p j \<le> unat m"
          using assms(2) j by (auto simp: within_caps_def list_all_iff split: option.splits)
        have new: "placed_count hosts p' j = placed_count hosts p j + (if index_of_host hosts (he_id (hosts ! i)) = Some j then 1 else 0)"
          unfolding p' placed_count_def using count_if_put_new [OF n] by simp
        have "placed_count hosts p j < unat m" if "index_of_host hosts (he_id (hosts ! i)) = Some j"
          using that j cap spawn_index [OF assms(1) i] by (simp add: has_capacity_def load_of_def placed_count_def)
        with old new show ?thesis by auto
      qed
      then show ?thesis using res
        by (auto simp: within_caps_def list_all_iff split: option.splits)
    qed
  qed
qed

definition demo_hosts :: "host_entry list" where
  "demo_hosts = [\<lparr>he_id = ''h1'', he_max_containers = Some 1, he_weight = 1\<rparr>,
                 \<lparr>he_id = ''h2'', he_max_containers = None, he_weight = 2\<rparr>]"

definition demo_replica :: replica where
  "demo_replica = \<lparr>r_id = 9, r_spec_id = ''app'', r_container_id = ''c9'', r_upstream = [], r_state = Ready,
     r_started_at = 0, r_sessions_active = 0, r_sessions_max = 1, r_host = None\<rparr>"

lemma spawn_within_caps_witness:
  "within_caps demo_hosts (snd (mh_spawn_request (\<lambda>_ _. Inr demo_replica) demo_hosts
     (spawn_request_new ''app'' ''img'') [(7, (''h1'', ''app''))]))"
  using spawn_within_caps [of demo_hosts "[(7, (''h1'', ''app''))]" "\<lambda>_ _. Inr demo_replica"
      "spawn_request_new ''app'' ''img''", OF _ _ surjective_pairing]
  by (simp add: demo_hosts_def within_caps_def placed_count_def index_of_host_def mh_spawn_request_def
      pick_host_def choose_host_def has_capacity_def load_of_def spread_lt_def weight1_def
      demo_replica_def table_get_def spawn_request_new_def upt_rec)

section \<open>Properties of stopping and of the image operations\<close>

lemma stop_on_map:
  "distinct (map fst ds) \<Longrightarrow> snd (stop_on h rid ds) =
     map (\<lambda>(h', d). (h', if h' = h then snd (local_stop rid d) else d)) ds"
proof (induction ds)
  case (Cons x ds)
  obtain h' d where x: "x = (h', d)" by (cases x)
  have "map (\<lambda>(h', d). (h', if h' = h then snd (local_stop rid d) else d)) ds = ds" if "h \<notin> fst ` set ds"
    using that by (intro map_idI) force
  with Cons x show ?case by (auto split: prod.splits)
qed simp

lemma stop_on_result:
  "distinct (map fst ds) \<Longrightarrow> (h, d) \<in> set ds \<Longrightarrow> fst (stop_on h rid ds) = fst (local_stop rid d)"
  by (induction ds) (force split: prod.splits)+

lemma stop_everywhere_first_up:
  "list_all (\<lambda>(_, d). \<not> dm_up d) down \<Longrightarrow> dm_up d \<Longrightarrow>
     stop_everywhere rid (down @ (h, d) # rest) = down @ (h, snd (local_stop rid d)) # rest"
  by (induction down) (auto simp: local_stop_def)

text \<open>
  A stop reaches one host. With a known placement it stops the container on exactly that host,
  reports that daemon's answer and forgets the placement whatever the answer was; without one it asks the
  hosts in order but, since an absent container counts as stopped, it ends at the first host that is up
  and reports success, so a container on a later host keeps running.
\<close>

theorem stop_touches_one_host:
  assumes "distinct (map fst ds)"
  shows "(table_get p rid = Some (h, s) \<and> (h, d) \<in> set ds \<longrightarrow>
       mh_stop rid ds p = (fst (local_stop rid d),
          map (\<lambda>(h', d). (h', if h' = h then snd (local_stop rid d) else d)) ds, table_del rid p))
   \<and> (table_get p rid = None \<and> ds = down @ (h, d) # rest \<and> list_all (\<lambda>(_, d). \<not> dm_up d) down \<and> dm_up d \<longrightarrow>
       mh_stop rid ds p = (Inr (), down @ (h, snd (local_stop rid d)) # rest, table_del rid p))"
proof (intro conjI impI)
  assume a: "table_get p rid = Some (h, s) \<and> (h, d) \<in> set ds"
  then have "h \<in> fst ` set ds" by force
  with a stop_on_map [OF assms, of h rid] stop_on_result [OF assms, of h d rid] show "mh_stop rid ds p = (fst (local_stop rid d),
      map (\<lambda>(h', d). (h', if h' = h then snd (local_stop rid d) else d)) ds, table_del rid p)"
    by (simp add: mh_stop_def split_beta)
next
  assume "table_get p rid = None \<and> ds = down @ (h, d) # rest \<and> list_all (\<lambda>(_, d). \<not> dm_up d) down \<and> dm_up d"
  then show "mh_stop rid ds p = (Inr (), down @ (h, snd (local_stop rid d)) # rest, table_del rid p)"
    by (simp add: mh_stop_def stop_everywhere_first_up)
qed

lemma stop_touches_one_host_witness:
  "mh_stop 5 [(''h1'', \<lparr>dm_up = True, dm_replicas = []\<rparr>), (''h2'', \<lparr>dm_up = True, dm_replicas = [5]\<rparr>)] []
     = (Inr (), [(''h1'', \<lparr>dm_up = True, dm_replicas = []\<rparr>), (''h2'', \<lparr>dm_up = True, dm_replicas = [5]\<rparr>)], [])"
  using stop_touches_one_host [of "[(''h1'', \<lparr>dm_up = True, dm_replicas = []\<rparr>), (''h2'', \<lparr>dm_up = True, dm_replicas = [5]\<rparr>)]"
      "[]" 5 "''h1''" "[]" "\<lparr>dm_up = True, dm_replicas = []\<rparr>" "[]" "[(''h2'', \<lparr>dm_up = True, dm_replicas = [5]\<rparr>)]"]
  by (simp add: local_stop_def table_del_def)

text \<open>
  The image reclaimer fails closed: the references of the cluster are known only when every host
  answered, and then they are every host's; one unreachable host is an error, never a shorter list.
\<close>

theorem image_refs_fail_closed:
  "mh_all_container_image_refs results = Inr refs \<longleftrightarrow>
     (\<forall>(h, r) \<in> set results. \<exists>xs. r = Answered xs)
     \<and> refs = concat (map (\<lambda>(_, r). case r of Answered xs \<Rightarrow> xs | _ \<Rightarrow> []) results)"
proof (induction results arbitrary: refs)
  case (Cons x results)
  obtain h r where x: "x = (h, r)" by (cases x)
  show ?case
  proof (cases r)
    case (Answered xs)
    show ?thesis
    proof (cases "mh_all_container_image_refs results")
      case (Inl e)
      then have "\<not> (\<forall>(h, r) \<in> set results. \<exists>xs. r = Answered xs)"
        using Cons.IH [of "concat (map (\<lambda>(_, r). case r of Answered xs \<Rightarrow> xs | _ \<Rightarrow> []) results)"] by simp
      with Inl x Answered show ?thesis by auto
    next
      case (Inr all)
      with Cons.IH [of all] x Answered show ?thesis by auto
    qed
  qed (simp_all add: x)
qed auto

lemma image_refs_fail_closed_witness:
  "mh_all_container_image_refs [(''h1'', Answered [''a'']), (''h2'', Answered [''b'', ''a''])] = Inr [''a'', ''b'', ''a'']"
  using image_refs_fail_closed [of "[(''h1'', Answered [''a'']), (''h2'', Answered [''b'', ''a''])]" "[''a'', ''b'', ''a'']"]
  by simp

end
