(* ===== verification/Inflight_Gauge.thy ===== *)
theory Inflight_Gauge
  imports Core_Types
begin

text \<open>
  The in-flight request gauge of the proxy (\<open>INFLIGHT\<close> in \<open>crates/ruscker-admin/src/routes/proxy.rs\<close>):
  a count per replica, raised by a guard when a request starts and lowered when the guard is dropped.
  The guard lowers a row only if it is there: a row forgotten meanwhile stays forgotten.
\<close>

type_synonym gauge = "replica_id \<rightharpoonup> u32"

definition guard_new :: "replica_id \<Rightarrow> gauge \<Rightarrow> gauge" where
  "guard_new rid g = g(rid \<mapsto> (case g rid of None \<Rightarrow> 0 | Some n \<Rightarrow> n) + 1)"

definition guard_drop :: "replica_id \<Rightarrow> gauge \<Rightarrow> gauge" where
  "guard_drop rid g = (case g rid of None \<Rightarrow> g | Some n \<Rightarrow> g(rid \<mapsto> sat_sub n 1))"

definition inflight_count :: "replica_id \<Rightarrow> gauge \<Rightarrow> u32" where
  "inflight_count rid g = (case g rid of None \<Rightarrow> 0 | Some n \<Rightarrow> n)"

definition inflight_gc :: "replica_id list \<Rightarrow> gauge \<Rightarrow> gauge" where
  "inflight_gc alive g = map_retain (\<lambda>rid _. rid \<in> set alive) g"

definition inflight_forget :: "replica_id \<Rightarrow> gauge \<Rightarrow> gauge" where
  "inflight_forget rid g = g(rid := None)"

section \<open>The gauge over time\<close>

text \<open>
  What happens to one gauge: a request starts, one of the running requests ends, a replica is
  forgotten, or the scaler keeps only the replicas still registered.
\<close>

datatype gauge_event = GStart replica_id | GEnd replica_id | GForget replica_id | GKeep "replica_id list"

record gauge_state =
  gs_gauge :: gauge
  gs_open :: "replica_id list"

definition gauge_step :: "gauge_event \<Rightarrow> gauge_state \<Rightarrow> gauge_state" where
  "gauge_step ev s = (case ev of
     GStart rid \<Rightarrow> s\<lparr>gs_gauge := guard_new rid (gs_gauge s), gs_open := rid # gs_open s\<rparr>
   | GEnd rid \<Rightarrow> s\<lparr>gs_gauge := guard_drop rid (gs_gauge s), gs_open := remove1 rid (gs_open s)\<rparr>
   | GForget rid \<Rightarrow> s\<lparr>gs_gauge := inflight_forget rid (gs_gauge s)\<rparr>
   | GKeep alive \<Rightarrow> s\<lparr>gs_gauge := inflight_gc alive (gs_gauge s)\<rparr>)"

text \<open>A guard is dropped once, and fewer than \<open>2^32\<close> requests are open at a time.\<close>

definition gauge_ok :: "gauge_state \<Rightarrow> gauge_event \<Rightarrow> bool" where
  "gauge_ok s ev \<longleftrightarrow> (case ev of
     GEnd rid \<Rightarrow> rid \<in> set (gs_open s)
   | GStart _ \<Rightarrow> length (gs_open s) < 2 ^ 32 - 1
   | _ \<Rightarrow> True)"

definition gauge_bounded :: "gauge_state \<Rightarrow> bool" where
  "gauge_bounded s \<longleftrightarrow> length (gs_open s) < 2 ^ 32 \<and>
     (\<forall>rid. unat (inflight_count rid (gs_gauge s)) \<le> count_list (gs_open s) rid)"

lemma count_new:
  "unat (inflight_count rid g) < 2 ^ 32 - 1 \<Longrightarrow>
     unat (inflight_count r (guard_new rid g)) = unat (inflight_count r g) + (if r = rid then 1 else 0)"
proof -
  assume "unat (inflight_count rid g) < 2 ^ 32 - 1"
  then have "unat (inflight_count rid g + 1) = unat (inflight_count rid g) + 1"
    by (simp add: unat_word_ariths)
  then show ?thesis by (simp add: inflight_count_def guard_new_def)
qed

lemma count_drop:
  "unat (inflight_count r (guard_drop rid g)) = unat (inflight_count r g) - (if r = rid then 1 else 0)"
  by (auto simp: inflight_count_def guard_drop_def sat_simps split: option.split)

lemma count_forget: "inflight_count r (inflight_forget rid g) = (if r = rid then 0 else inflight_count r g)"
  by (simp add: inflight_count_def inflight_forget_def)

lemma count_gc: "inflight_count r (inflight_gc alive g) = (if r \<in> set alive then inflight_count r g else 0)"
  by (auto simp: inflight_count_def inflight_gc_def map_retain_def split: option.split)

lemma open_remove1: "count_list (remove1 x xs) y = count_list xs y - (if x = y then 1 else 0)"
  by (induction xs) (auto simp: count_list_0_iff[symmetric] count_notin)

lemma gauge_step_bounded:
  assumes b: "gauge_bounded s" and ok: "gauge_ok s ev"
  shows "gauge_bounded (gauge_step ev s)"
proof -
  have len: "length (gs_open s) < 2 ^ 32"
    and le: "\<And>rid. unat (inflight_count rid (gs_gauge s)) \<le> count_list (gs_open s) rid"
    using b by (auto simp: gauge_bounded_def)
  show ?thesis
  proof (cases ev)
    case (GStart rid)
    then have "length (gs_open s) < 2 ^ 32 - 1" using ok by (simp add: gauge_ok_def)
    moreover have "count_list (gs_open s) rid \<le> length (gs_open s)" by (rule count_le_length)
    ultimately have "unat (inflight_count rid (gs_gauge s)) < 2 ^ 32 - 1"
      using le [of rid] by linarith
    with le count_new [OF this] GStart \<open>length (gs_open s) < 2 ^ 32 - 1\<close> show ?thesis
      by (auto simp: gauge_bounded_def gauge_step_def)
  next
    case (GEnd rid)
    have "unat (inflight_count r (guard_drop rid (gs_gauge s))) \<le> count_list (remove1 rid (gs_open s)) r" for r
      using le [of r] by (auto simp: count_drop open_remove1)
    moreover have "length (remove1 rid (gs_open s)) < 2 ^ 32"
      using len by (auto simp: length_remove1)
    ultimately show ?thesis using GEnd by (simp add: gauge_bounded_def gauge_step_def)
  next
    case (GForget rid)
    with len le show ?thesis by (simp add: gauge_bounded_def gauge_step_def count_forget)
  next
    case (GKeep alive)
    with len le show ?thesis by (simp add: gauge_bounded_def gauge_step_def count_gc)
  qed
qed

interpretation inflight: guarded_machine gauge_ok gauge_step gauge_bounded
  by unfold_locales (rule gauge_step_bounded)

definition gauge_init :: gauge_state where
  "gauge_init = \<lparr>gs_gauge = Map.empty, gs_open = []\<rparr>"

text \<open>While nothing is forgotten, the gauge is exact.\<close>

definition gauge_exact :: "gauge_state \<Rightarrow> bool" where
  "gauge_exact s \<longleftrightarrow> length (gs_open s) < 2 ^ 32 \<and>
     (\<forall>rid. unat (inflight_count rid (gs_gauge s)) = count_list (gs_open s) rid)"

definition keeps_open :: "gauge_state \<Rightarrow> gauge_event \<Rightarrow> bool" where
  "keeps_open s ev \<longleftrightarrow> gauge_ok s ev \<and> (case ev of
     GForget rid \<Rightarrow> rid \<notin> set (gs_open s)
   | GKeep alive \<Rightarrow> list_all (\<lambda>rid. rid \<in> set alive) (gs_open s)
   | _ \<Rightarrow> True)"

lemma gauge_step_exact:
  assumes b: "gauge_exact s" and ok: "keeps_open s ev"
  shows "gauge_exact (gauge_step ev s)"
proof -
  have len: "length (gs_open s) < 2 ^ 32"
    and eq: "\<And>rid. unat (inflight_count rid (gs_gauge s)) = count_list (gs_open s) rid"
    using b by (auto simp: gauge_exact_def)
  show ?thesis
  proof (cases ev)
    case (GStart rid)
    then have l: "length (gs_open s) < 2 ^ 32 - 1" using ok by (simp add: keeps_open_def gauge_ok_def)
    with count_le_length [of "gs_open s" rid] have "unat (inflight_count rid (gs_gauge s)) < 2 ^ 32 - 1"
      using eq [of rid] by linarith
    with eq l GStart show ?thesis by (simp add: gauge_exact_def gauge_step_def count_new)
  next
    case (GEnd rid)
    with len eq show ?thesis
      by (auto simp: gauge_exact_def gauge_step_def count_drop open_remove1 length_remove1)
  next
    case (GForget rid)
    with ok have "count_list (gs_open s) rid = 0" by (simp add: keeps_open_def count_notin)
    with GForget len eq show ?thesis by (simp add: gauge_exact_def gauge_step_def count_forget)
  next
    case (GKeep alive)
    with ok have "count_list (gs_open s) r = 0" if "r \<notin> set alive" for r
      using that by (intro count_notin) (auto simp: keeps_open_def list_all_iff)
    with GKeep len eq show ?thesis by (simp add: gauge_exact_def gauge_step_def count_gc)
  qed
qed

interpretation exact: guarded_machine keeps_open gauge_step gauge_exact
  by unfold_locales (rule gauge_step_exact)

section \<open>Property\<close>



end
