(* ===== verification/Scaler_Policy.thy ===== *)
theory Scaler_Policy
  imports Alert_Sink Config_Schema Core_Registry Inflight_Gauge
begin

text \<open>
  The decisions of the auto-scaler (\<open>crates/ruscker-admin/src/scaler.rs\<close>) that are functions of a snapshot:
  the spawn-failure log, the idle counters, saturation and utilization, the conversion of seconds to
  ticks, and which replicas are past their lifetime. The string hash is a parameter. Failure-log
  instants are nanoseconds of the monotonic clock; an interval is its whole seconds.
\<close>

definition DEFAULT_INTERVAL_SECS :: nat where "DEFAULT_INTERVAL_SECS = 10"
definition DEFAULT_IDLE_GRACE_TICKS :: u32 where "DEFAULT_IDLE_GRACE_TICKS = 3"
definition DEFAULT_SATURATION_GRACE_TICKS :: u32 where "DEFAULT_SATURATION_GRACE_TICKS = 2"
definition YOUNG_REPLICA_GRACE_SECS :: int where "YOUNG_REPLICA_GRACE_SECS = 60"
definition EXTERNAL_RESTART_GRACE_SECS :: int where "EXTERNAL_RESTART_GRACE_SECS = 30"
definition FAILURE_WARN_WINDOW :: nat where "FAILURE_WARN_WINDOW = 300000000000"

section \<open>The spawn-failure log\<close>

record fail_state =
  fs_hash :: u64
  fs_count :: u32
  fs_next_warn :: nat

datatype fail_verdict = Warn u32 | Quiet u32

type_synonym failure_log = "string \<rightharpoonup> fail_state"

definition fail_observe :: "(string \<Rightarrow> u64) \<Rightarrow> string \<Rightarrow> string \<Rightarrow> nat \<Rightarrow> failure_log \<Rightarrow> fail_verdict \<times> failure_log" where
  "fail_observe hash spec_id err now flog =
     (let h = hash err;
          fresh = (Warn 1, flog(spec_id \<mapsto> \<lparr>fs_hash = h, fs_count = 1, fs_next_warn = now + FAILURE_WARN_WINDOW\<rparr>))
      in case flog spec_id of
           None \<Rightarrow> fresh
         | Some st \<Rightarrow>
             if fs_hash st = h then
               (let c = fs_count st + 1 in
                if now \<ge> fs_next_warn st
                then (Warn c, flog(spec_id \<mapsto> st\<lparr>fs_count := c, fs_next_warn := now + FAILURE_WARN_WINDOW\<rparr>))
                else (Quiet c, flog(spec_id \<mapsto> st\<lparr>fs_count := c\<rparr>)))
             else fresh)"

definition fail_clear :: "string \<Rightarrow> failure_log \<Rightarrow> failure_log" where
  "fail_clear spec_id flog = flog(spec_id := None)"

section \<open>Idle counters\<close>

type_synonym 'k ticks = "'k \<rightharpoonup> u32"

definition tick_of :: "'k ticks \<Rightarrow> 'k \<Rightarrow> u32" where
  "tick_of t k = (case t k of None \<Rightarrow> 0 | Some n \<Rightarrow> n)"

definition young :: "timestamp \<Rightarrow> replica \<Rightarrow> bool" where
  "young now r \<longleftrightarrow> now - r_started_at r < YOUNG_REPLICA_GRACE_SECS * nanos"

definition idle_tick :: "timestamp \<Rightarrow> replica_id ticks \<Rightarrow> replica \<Rightarrow> replica_id ticks" where
  "idle_tick now ticks r =
     (if r_sessions_active r = 0 \<and> \<not> young now r
      then ticks(r_id r \<mapsto> tick_of ticks (r_id r) + 1) else ticks(r_id r := None))"

definition update_idle_ticks :: "replica list \<Rightarrow> timestamp \<Rightarrow> replica_id ticks \<Rightarrow> replica_id ticks" where
  "update_idle_ticks snap now ticks =
     foldl (idle_tick now) (map_retain (\<lambda>i _. i \<in> r_id ` set snap) ticks) snap"

section \<open>Saturation and utilization\<close>

definition all_saturated :: "replica list \<Rightarrow> bool" where
  "all_saturated rs \<longleftrightarrow> rs \<noteq> [] \<and> list_all (\<lambda>r. available_seats r = 0) rs"

definition u64_as_f64 :: "u64 \<Rightarrow> f64" where
  "u64_as_f64 n = f64_of_nat (unat n)"

definition pool_utilization :: "replica list \<Rightarrow> f64" where
  "pool_utilization rs =
     (let seats = sum_list (map (\<lambda>r. ucast (r_sessions_max r)) rs) :: u64;
          active = sum_list (map (\<lambda>r. ucast (r_sessions_active r)) rs) :: u64
      in if seats = 0 then Fin 0
         else (case u64_as_f64 seats of Fin q \<Rightarrow> f64_div_pos (u64_as_f64 active) q | x \<Rightarrow> NaN))"

definition scale_up_triggered :: "replica list \<Rightarrow> f64 option \<Rightarrow> bool" where
  "scale_up_triggered rs up =
     (case up of Some t \<Rightarrow> rs \<noteq> [] \<and> f64_lt t (pool_utilization rs) | None \<Rightarrow> all_saturated rs)"

section \<open>Seconds and ticks\<close>

definition grace_secs_to_ticks :: "u64 \<Rightarrow> nat \<Rightarrow> u32" where
  "grace_secs_to_ticks s interval =
     (let iv = max interval 1
      in of_nat (min (max ((unat s + iv - 1) div iv) 1) (2 ^ 32 - 1)))"

definition cooldown_secs_to_ticks :: "u64 \<Rightarrow> nat \<Rightarrow> u32" where
  "cooldown_secs_to_ticks s interval = (if s = 0 then 0 else grace_secs_to_ticks s interval)"

definition cooldown_ticks_for_spec :: "spec \<Rightarrow> nat \<Rightarrow> u32 option \<Rightarrow> u32" where
  "cooldown_ticks_for_spec sp interval default_ticks =
     (case sp_scale_down_cooldown_secs sp of
        Some s \<Rightarrow> cooldown_secs_to_ticks s interval
      | None \<Rightarrow> (case default_ticks of Some n \<Rightarrow> n
          | None \<Rightarrow> cooldown_secs_to_ticks (effective_scale_down_cooldown_secs sp) interval))"

section \<open>Requests as seats, and lifetimes\<close>

definition overlay_request_capacity :: "gauge \<Rightarrow> spec \<Rightarrow> replica list \<Rightarrow> replica list" where
  "overlay_request_capacity g sp snap =
     (if spec_kind_of sp = Api
      then map (\<lambda>r. r\<lparr>r_sessions_active := inflight_count (r_id r) g,
             r_sessions_max := effective_concurrent_requests_per_replica sp\<rparr>) snap
      else snap)"

definition past_lifetime :: "timestamp \<Rightarrow> int option \<Rightarrow> int option \<Rightarrow> int \<Rightarrow> replica \<Rightarrow> bool" where
  "past_lifetime now hard soft drain r =
     (let age = num_seconds (now - r_started_at r); idle = r_sessions_active r = 0
      in (case hard of None \<Rightarrow> False
          | Some cap \<Rightarrow> age \<ge> (if idle then cap else i64_clamp (cap + drain)))
         \<or> (case soft of None \<Rightarrow> False | Some cap \<Rightarrow> age \<ge> cap \<and> idle))"

definition lifetime_reap_candidates :: "replica list \<Rightarrow> timestamp \<Rightarrow> int option \<Rightarrow> int option \<Rightarrow> int \<Rightarrow> replica_id list" where
  "lifetime_reap_candidates rs now hard soft drain =
     (if hard = None \<and> soft = None then []
      else map r_id (filter (past_lifetime now hard soft drain) rs))"

section \<open>Warnings are spaced\<close>

definition fail_admit :: "(string \<Rightarrow> u64) \<Rightarrow> (string \<Rightarrow> string) \<Rightarrow> nat \<Rightarrow> string \<Rightarrow> failure_log \<Rightarrow> bool \<times> failure_log" where
  "fail_admit hash err now sp flog = (case fail_observe hash sp (err sp) now flog of
     (Warn _, flog') \<Rightarrow> (True, flog') | (Quiet _, flog') \<Rightarrow> (False, flog'))"

definition fail_inv :: "failure_log \<Rightarrow> bool" where
  "fail_inv flog \<longleftrightarrow> (\<forall>sp st. flog sp = Some st \<longrightarrow> FAILURE_WARN_WINDOW \<le> fs_next_warn st)"

definition last_warn :: "(string \<Rightarrow> u64) \<Rightarrow> (string \<Rightarrow> string) \<Rightarrow> failure_log \<Rightarrow> string \<Rightarrow> nat option" where
  "last_warn hash err flog sp = (case flog sp of
     Some st \<Rightarrow> if fs_hash st = hash (err sp) then Some (fs_next_warn st - FAILURE_WARN_WINDOW) else None
   | None \<Rightarrow> None)"

lemma window_open: "FAILURE_WARN_WINDOW \<le> w \<Longrightarrow> now - (w - FAILURE_WARN_WINDOW) < FAILURE_WARN_WINDOW \<longleftrightarrow> now < w"
  "FAILURE_WARN_WINDOW \<le> w \<Longrightarrow> now + FAILURE_WARN_WINDOW - w < FAILURE_WARN_WINDOW \<longleftrightarrow> now < w"
  by (auto simp: FAILURE_WARN_WINDOW_def)

interpretation fail_gate: cooldown_gate fail_inv "last_warn hash err" "fail_admit hash err" FAILURE_WARN_WINDOW
  for hash err
proof unfold_locales
  fix flog :: failure_log and now k assume "fail_inv flog"
  then show "fail_inv (snd (fail_admit hash err now k flog))"
    by (auto simp: fail_inv_def fail_admit_def fail_observe_def Let_def split: option.splits if_splits)
next
  fix flog :: failure_log and k t now
  assume "fail_inv flog" "last_warn hash err flog k = Some t" "now - t < FAILURE_WARN_WINDOW"
  then show "\<not> fst (fail_admit hash err now k flog) \<and> last_warn hash err (snd (fail_admit hash err now k flog)) k = Some t"
    by (auto simp: fail_inv_def fail_admit_def fail_observe_def last_warn_def Let_def window_open
        split: option.splits if_splits)
next
  fix flog :: failure_log and k now
  assume "fail_inv flog" "\<forall>t. last_warn hash err flog k = Some t \<longrightarrow> \<not> now - t < FAILURE_WARN_WINDOW"
  then show "fst (fail_admit hash err now k flog) \<and>
      (0 < FAILURE_WARN_WINDOW \<longrightarrow> last_warn hash err (snd (fail_admit hash err now k flog)) k = Some now)"
    by (auto simp: fail_inv_def fail_admit_def fail_observe_def last_warn_def Let_def window_open
        split: option.splits if_splits)
next
  fix flog :: failure_log and k' t now k
  assume "last_warn hash err flog k' = Some t" "k' \<noteq> k"
  then show "last_warn hash err (snd (fail_admit hash err now k flog)) k' = Some t"
    by (auto simp: fail_admit_def fail_observe_def last_warn_def Let_def split: option.splits if_splits)
qed

section \<open>Idle streaks\<close>

definition idle_in :: "replica_id \<Rightarrow> replica list \<times> timestamp \<Rightarrow> bool" where
  "idle_in i obs \<longleftrightarrow> (\<exists>r \<in> set (fst obs). r_id r = i \<and> r_sessions_active r = 0 \<and> \<not> young (snd obs) r)"

fun idle_run :: "replica_id ticks \<Rightarrow> (replica list \<times> timestamp) list \<Rightarrow> replica_id ticks" where
  "idle_run t [] = t"
| "idle_run t ((snap, now) # obs) = idle_run (update_idle_ticks snap now t) obs"

definition idle_streak :: "replica_id \<Rightarrow> (replica list \<times> timestamp) list \<Rightarrow> nat" where
  "idle_streak i obs = length (takeWhile (idle_in i) (rev obs))"

lemma idle_tick_at:
  "idle_tick now t r i = (if i = r_id r then if r_sessions_active r = 0 \<and> \<not> young now r
     then Some (tick_of t i + 1) else None else t i)"
  by (simp add: idle_tick_def)

lemma foldl_idle_other:
  "i \<notin> r_id ` set snap \<Longrightarrow> foldl (idle_tick now) t snap i = t i"
proof (induction snap arbitrary: t)
  case (Cons r snap)
  then have "r_id r \<noteq> i" "i \<notin> r_id ` set snap" by auto
  then have "idle_tick now t r i = t i" by (simp only: idle_tick_at) simp
  with Cons.IH [OF \<open>i \<notin> r_id ` set snap\<close>, of "idle_tick now t r"] show ?case by simp
qed simp

lemma foldl_idle:
  "distinct (map r_id snap) \<Longrightarrow> r \<in> set snap \<Longrightarrow>
     foldl (idle_tick now) t snap (r_id r) =
       (if r_sessions_active r = 0 \<and> \<not> young now r then Some (tick_of t (r_id r) + 1) else None)"
proof (induction snap arbitrary: t)
  case (Cons x snap)
  show ?case
  proof (cases "x = r")
    case True
    with Cons.prems have "r_id r \<notin> r_id ` set snap" by auto
    with True have "foldl (idle_tick now) t (x # snap) (r_id r) = idle_tick now t r (r_id r)"
      by (simp add: foldl_idle_other)
    then show ?thesis using idle_tick_at [of now t r "r_id r"] True by simp
  next
    case False
    with Cons.prems have r: "r \<in> set snap" "r_id x \<noteq> r_id r" by (auto simp: rev_image_eqI)
    have "tick_of (idle_tick now t x) (r_id r) = tick_of t (r_id r)"
      using r(2) unfolding tick_of_def by (simp only: idle_tick_at) simp
    with Cons.IH [OF _ r(1), of "idle_tick now t x"] Cons.prems show ?thesis by simp
  qed
qed simp

lemma update_idle_at:
  assumes "distinct (map r_id snap)"
  shows "update_idle_ticks snap now t i = (if idle_in i (snap, now) then Some (tick_of t i + 1) else None)"
proof (cases "i \<in> r_id ` set snap")
  case True
  then obtain r where r: "r \<in> set snap" "i = r_id r" by blast
  have uniq: "r' = r" if "r' \<in> set snap" "r_id r' = r_id r" for r'
    using that r(1) assms by (metis distinct_map inj_onD)
  have "idle_in i (snap, now) \<longleftrightarrow> r_sessions_active r = 0 \<and> \<not> young now r"
    using r uniq by (auto simp: idle_in_def)
  moreover have "tick_of (map_retain (\<lambda>i _. i \<in> r_id ` set snap) t) i = tick_of t i"
    using True by (auto simp: tick_of_def map_retain_def split: option.split)
  ultimately show ?thesis
    using foldl_idle [OF assms r(1), of now "map_retain (\<lambda>i _. i \<in> r_id ` set snap) t"] r(2)
    by (simp add: update_idle_ticks_def)
next
  case False
  then have "\<not> idle_in i (snap, now)" by (auto simp: idle_in_def)
  with False show ?thesis
    by (simp add: update_idle_ticks_def foldl_idle_other map_retain_def split: option.split)
qed

lemma idle_run_snoc: "idle_run t (obs @ [(snap, now)]) = update_idle_ticks snap now (idle_run t obs)"
  by (induction obs arbitrary: t) auto

lemma idle_streak_snoc:
  "idle_streak i (obs @ [x]) = (if idle_in i x then Suc (idle_streak i obs) else 0)"
  by (simp add: idle_streak_def)

lemma idle_streak_le: "idle_streak i obs \<le> length obs"
  by (simp add: idle_streak_def length_takeWhile_le [THEN order_trans])

section \<open>Rounding a quotient\<close>

lemma round_half_even_le: "q \<le> of_int n \<Longrightarrow> round_half_even q \<le> n"
proof -
  assume q: "q \<le> of_int n"
  show ?thesis
  proof (cases "q = of_int n")
    case False
    with q have "\<lfloor>q\<rfloor> < n" by (simp add: floor_less_iff)
    then show ?thesis by (simp add: round_half_even_def Let_def)
  qed simp
qed

lemma f64_round_unit:
  assumes "0 \<le> q" and "q \<le> 1"
  shows "\<exists>r. f64_round q = Fin r \<and> r \<le> 1"
proof (cases "q = 0")
  case True
  then show ?thesis by (simp add: f64_round_def)
next
  case False
  with assms have pos: "0 < q" by simp
  let ?p = "max (binary_exponent q - 52) (- 1074)"
  have "binary_exponent q \<le> 0"
  proof (rule ccontr)
    assume "\<not> binary_exponent q \<le> 0"
    then have "(2::rat) powi 1 \<le> 2 powi binary_exponent q" by (intro powi_le) simp
    with binary_exponent_bounds [OF pos] assms show False by simp
  qed
  then have p: "?p \<le> 0" by simp
  then obtain j where j: "?p = - int j" by (metis neg_0_le_iff_le minus_minus zero_le_imp_eq_int)
  have pw: "(2::rat) powi ?p = 1 / 2 ^ j" by (simp add: j power_int_minus divide_inverse)
  have "q / 2 powi ?p \<le> of_int (2 ^ j)" using assms by (simp add: pw mult_left_le_one_le)
  then have "round_half_even (q / 2 powi ?p) \<le> 2 ^ j" by (rule round_half_even_le)
  then have "(of_int (round_half_even (q / 2 powi ?p)) :: rat) \<le> of_int (2 ^ j)" by (rule of_int_le_iff [THEN iffD2])
  then have r1: "of_int (round_half_even (q / 2 powi ?p)) * (2::rat) powi ?p \<le> 1"
    unfolding pw by (simp add: divide_le_eq)
  then have "\<not> of_int (round_half_even (q / 2 powi ?p)) * 2 powi ?p \<ge> (2::rat) ^ 1024"
    using one_less_power [of "2::rat" 1024] by linarith
  with r1 pos show ?thesis by (simp add: f64_round_def Let_def)
qed

lemma unat_lt_aux: "unat (w :: u32) \<le> 4294967295"
proof -
  have "unat w < 2 ^ LENGTH(32)" by (rule unsigned_less)
  then show ?thesis by simp
qed

lemma sum_ucast:
  "length xs < 2 ^ 21 \<Longrightarrow> unat (sum_list (map (\<lambda>r. ucast (f r :: u32) :: u64) xs)) = sum_list (map (\<lambda>r. unat (f r)) xs)
     \<and> sum_list (map (\<lambda>r. unat (f r)) xs) < 2 ^ 53"
proof -
  have le: "sum_list (map (\<lambda>r. unat (f r)) ys) \<le> length ys * (2 ^ 32 - 1)" for ys
  proof (induction ys)
    case (Cons y ys)
    have "unat (f y) \<le> 2 ^ 32 - 1" using unat_lt_aux [of "f y"] by simp
    with Cons show ?case by simp
  qed simp
  have "length ys < 2 ^ 21 \<Longrightarrow> unat (sum_list (map (\<lambda>r. ucast (f r) :: u64) ys)) = sum_list (map (\<lambda>r. unat (f r)) ys)" for ys
  proof (induction ys)
    case (Cons y ys)
    have "sum_list (map (\<lambda>r. unat (f r)) (y # ys)) \<le> length (y # ys) * (2 ^ 32 - 1)" by (rule le)
    also have "\<dots> < 2 ^ 64" using Cons.prems by simp
    finally have b: "unat (f y) + sum_list (map (\<lambda>r. unat (f r)) ys) < 2 ^ 64" by simp
    have u: "unat (ucast (f y) :: u64) = unat (f y)" 
    proof -
      have "unat (f y) < 2 ^ 64" using unat_lt_aux [of "f y"] by simp
      then show ?thesis by (simp add: unsigned_ucast_eq take_bit_nat_eq_self)
    qed
    from Cons b u show ?case by (simp add: unat_word_ariths)
  qed simp
  moreover assume "length xs < 2 ^ 21"
  moreover from this have "length xs * (2 ^ 32 - 1) < 2 ^ 53" by simp
  ultimately show ?thesis using le [of xs] by (meson le_less_trans)
qed

lemma sum_list_0_iff_nat: "sum_list (map f xs) = (0::nat) \<longleftrightarrow> (\<forall>x \<in> set xs. f x = 0)"
  by (induction xs) auto

lemma utilization_at_most_one:
  assumes "length rs < 2 ^ 21" and "\<forall>r \<in> set rs. r_sessions_active r \<le> r_sessions_max r"
  shows "\<exists>q. pool_utilization rs = Fin q \<and> q \<le> 1"
proof -
  let ?S = "sum_list (map (\<lambda>r. unat (r_sessions_max r)) rs)" and ?A = "sum_list (map (\<lambda>r. unat (r_sessions_active r)) rs)"
  note s = sum_ucast [OF assms(1), of r_sessions_max] and a = sum_ucast [OF assms(1), of r_sessions_active]
  have "?A \<le> ?S" using assms(2) by (intro sum_list_mono) (simp add: word_le_nat_alt)
  show ?thesis
  proof (cases "?S = 0")
    case True
    with s have "sum_list (map (\<lambda>r. ucast (r_sessions_max r)) rs) = (0::u64)" by (metis unat_eq_zero)
    then show ?thesis by (simp add: pool_utilization_def)
  next
    case False
    with s have "sum_list (map (\<lambda>r. ucast (r_sessions_max r)) rs) \<noteq> (0::u64)" by (metis unat_0)
    moreover have "u64_as_f64 (sum_list (map (\<lambda>r. ucast (r_sessions_max r)) rs)) = Fin (of_nat ?S)"
      "u64_as_f64 (sum_list (map (\<lambda>r. ucast (r_sessions_active r)) rs)) = Fin (of_nat ?A)"
      using s a by (simp_all add: u64_as_f64_def f64_of_nat_exact)
    ultimately have "pool_utilization rs = f64_round (of_nat ?A / of_nat ?S)"
      by (simp add: pool_utilization_def)
    moreover have "(0::rat) \<le> of_nat ?A / of_nat ?S" "(of_nat ?A :: rat) / of_nat ?S \<le> 1"
      using \<open>?A \<le> ?S\<close> False by (simp_all add: divide_le_eq)
    ultimately show ?thesis using f64_round_unit by metis
  qed
qed

section \<open>Properties\<close>

text \<open>
  The idle counter of a replica is its idle streak: after any sequence of observations it is the
  number of last consecutive ticks in which the replica was registered, without a session and past its
  youth, and there is no counter when that number is 0.
\<close>

theorem idle_ticks_exact:
  assumes "\<forall>(snap, now) \<in> set obs. distinct (map r_id snap)" and "length obs < 2 ^ 32"
  shows "idle_run Map.empty obs i = (if idle_streak i obs = 0 then None else Some (of_nat (idle_streak i obs)))"
  using assms
proof (induction obs rule: rev_induct)
  case (snoc x obs)
  obtain snap now where x: "x = (snap, now)" by (cases x)
  with snoc.prems have d: "distinct (map r_id snap)" by auto
  have ih: "idle_run Map.empty obs i = (if idle_streak i obs = 0 then None else Some (of_nat (idle_streak i obs)))"
    using snoc by simp
  show ?case
    using update_idle_at [OF d, of now "idle_run Map.empty obs" i]
    by (auto simp: x idle_run_snoc idle_streak_snoc ih tick_of_def)
qed (simp add: idle_streak_def)

definition idle_demo :: replica where
  "idle_demo = \<lparr>r_id = 7, r_spec_id = ''app'', r_container_id = ''c'', r_upstream = [], r_state = Ready,
     r_started_at = 0, r_sessions_active = 0, r_sessions_max = 1, r_host = None\<rparr>"

lemma idle_ticks_exact_witness:
  "idle_run Map.empty [([idle_demo], 30 * nanos), ([idle_demo], 60 * nanos), ([idle_demo], 70 * nanos)] 7 = Some 2"
  using idle_ticks_exact [of "[([idle_demo], 30 * nanos), ([idle_demo], 60 * nanos), ([idle_demo], 70 * nanos)]" 7]
  by (simp add: idle_streak_def idle_in_def idle_demo_def young_def YOUNG_REPLICA_GRACE_SECS_def nanos_def)

text \<open>
  A failing image does not flood the log or the webhook: two warnings for one spec failing with one
  error are at least the five-minute window apart, however often the scaler retries and whatever other
  specs fail in between.
\<close>

theorem spawn_warnings_spaced:
  assumes "calls_from t0 cs"
  shows "spaced FAILURE_WARN_WINDOW (admitted_at sp cs (gate_run (fail_admit hash err) Map.empty cs))"
proof -
  have "fail_inv Map.empty" "0 < FAILURE_WARN_WINDOW" by (simp_all add: fail_inv_def FAILURE_WARN_WINDOW_def)
  then show ?thesis using assms by (rule fail_gate.run_spaced)
qed

lemma spawn_warnings_spaced_witness:
  "spaced FAILURE_WARN_WINDOW (admitted_at ''a'' [(0, ''a''), (10, ''a''), (300000000000, ''a'')]
     (gate_run (fail_admit (\<lambda>_. 0) (\<lambda>_. ''pull failed'')) Map.empty [(0, ''a''), (10, ''a''), (300000000000, ''a'')]))"
  by (rule spawn_warnings_spaced [of 0]) simp

text \<open>
  When the pool is hot: without a threshold exactly when there is a replica and none has a free seat;
  with one, never at or above 1 while no replica holds more sessions than seats, since the utilization
  must exceed the threshold and is at most 1 even after rounding.
\<close>

theorem scale_up_trigger_spec:
  "(scale_up_triggered rs None \<longleftrightarrow> rs \<noteq> [] \<and> (\<forall>r \<in> set rs. r_sessions_max r \<le> r_sessions_active r))
   \<and> (length rs < 2 ^ 21 \<and> (\<forall>r \<in> set rs. r_sessions_active r \<le> r_sessions_max r) \<and> 1 \<le> t \<longrightarrow>
        \<not> scale_up_triggered rs (Some (Fin t)))"
proof (intro conjI impI)
  show "scale_up_triggered rs None \<longleftrightarrow> rs \<noteq> [] \<and> (\<forall>r \<in> set rs. r_sessions_max r \<le> r_sessions_active r)"
    by (auto simp: scale_up_triggered_def all_saturated_def list_all_iff available_seats_0_iff)
next
  assume "length rs < 2 ^ 21 \<and> (\<forall>r \<in> set rs. r_sessions_active r \<le> r_sessions_max r) \<and> 1 \<le> t"
  with utilization_at_most_one [of rs] show "\<not> scale_up_triggered rs (Some (Fin t))"
    by (auto simp: scale_up_triggered_def)
qed

lemma scale_up_trigger_spec_witness:
  "\<not> scale_up_triggered [idle_demo\<lparr>r_sessions_active := 1\<rparr>] (Some (Fin 1))
   \<and> scale_up_triggered [idle_demo\<lparr>r_sessions_active := 1\<rparr>] None"
  using scale_up_trigger_spec [of "[idle_demo\<lparr>r_sessions_active := 1\<rparr>]" 1] by (simp add: idle_demo_def)

text \<open>
  C16: A grace given in seconds becomes the fewest scaler ticks that last at least that long, at least one,
  and never wraps: a grace beyond \<open>2^32 - 1\<close> ticks is that many; a cooldown of 0 seconds is 0 ticks.
\<close>

theorem grace_ticks_exact:
  assumes "0 < interval" and "unat s \<le> (2 ^ 32 - 1) * interval"
  shows "unat s \<le> unat (grace_secs_to_ticks s interval) * interval
    \<and> 1 \<le> unat (grace_secs_to_ticks s interval)
    \<and> (1 < unat (grace_secs_to_ticks s interval) \<longrightarrow> (unat (grace_secs_to_ticks s interval) - 1) * interval < unat s)
    \<and> cooldown_secs_to_ticks 0 interval = 0"
proof -
  let ?d = "(unat s + interval - 1) div interval"
  have up: "unat s \<le> ?d * interval"
  proof -
    have "unat s + interval - 1 < ?d * interval + interval"
      using assms(1) by (metis add.commute dividend_less_div_times mult.commute)
    then show ?thesis using assms(1) by linarith
  qed
  have lo: "?d * interval \<le> unat s + interval - 1" by simp
  have "unat s + interval - 1 < 2 ^ 32 * interval" using assms by simp
  with lo have "?d * interval < 2 ^ 32 * interval" by (rule le_less_trans)
  then have d: "?d \<le> 2 ^ 32 - 1" by simp
  have iv: "max interval 1 = interval" using assms(1) by simp
  have "unat (grace_secs_to_ticks s interval) = max ?d 1"
  proof -
    have "min (max ?d 1) (2 ^ 32 - 1) = max ?d 1" using d by simp
    moreover have "max ?d 1 < 2 ^ 32" using d by simp
    ultimately show ?thesis by (simp only: grace_secs_to_ticks_def Let_def iv) (simp add: unat_of_nat take_bit_nat_eq_self)
  qed
  moreover have "(?d - 1) * interval < unat s" if "1 < ?d"
  proof -
    have "(?d - 1) * interval = ?d * interval - interval" by (simp add: diff_mult_distrib)
    moreover have "interval < ?d * interval" using that assms(1) by simp
    ultimately show ?thesis using lo assms(1) by linarith
  qed
  moreover have "unat s \<le> max ?d 1 * interval" by (rule order_trans [OF up]) simp
  ultimately show ?thesis by (simp add: cooldown_secs_to_ticks_def max_def)
qed

lemma grace_ticks_exact_witness: "grace_secs_to_ticks 25 10 = 3 \<and> cooldown_secs_to_ticks 0 10 = 0"
  using grace_ticks_exact [of 10 25] by (simp add: grace_secs_to_ticks_def)

end
