(* ===== verification/Spawn_Inputs.thy ===== *)
theory Spawn_Inputs
  imports Config_Validate
begin

text \<open>
  What a spawn is made of: the catalog of specs (\<open>crates/ruscker-admin/src/catalog.rs\<close>), registry
  credentials, resource limits and the public path of an app (\<open>routes/proxy.rs\<close>), and the request that
  both spawn paths build. The credential store and the catalog database are parameters; an
  \<open>anyhow::Error\<close> is the text it prints.
\<close>

section \<open>Errors as text\<close>

fun core_error_text :: "core_error \<Rightarrow> string" where
  "core_error_text (SpecNotFound s) = ''spec '' @ s @ '' not found in registry''"
| "core_error_text (AtCapacity s) = ''no available replicas for spec '' @ s @ '' (at capacity)''"
| "core_error_text (Backend s) = ''backend error: '' @ s"
| "core_error_text (SessionExpired s) = ''session '' @ s @ '' not found or expired''"

fun cfg_error_text :: "cfg_error \<Rightarrow> string" where
  "cfg_error_text (CfgIo p e) = ''failed to read config file '' @ p @ '': '' @ e"
| "cfg_error_text (CfgYaml e) = ''YAML parse error: '' @ e"
| "cfg_error_text (MissingEnvVar n) = ''environment variable '' @ n @ '' referenced in config but not set''"
| "cfg_error_text (InvalidEnvRef l) = ''invalid environment variable reference: '' @ l"
| "cfg_error_text (CfgInvalid s) = ''invalid configuration: '' @ s"

definition map_err :: "('e \<Rightarrow> 'f) \<Rightarrow> 'e + 'a \<Rightarrow> 'f + 'a" where
  "map_err f r = (case r of Inl e \<Rightarrow> Inl (f e) | Inr x \<Rightarrow> Inr x)"

lemma map_err_simps [simp]:
  "map_err f (Inl e) = Inl (f e)" "map_err f (Inr x) = Inr x"
  "isl (map_err f r) = isl r"
  by (simp_all add: map_err_def split: sum.split)

section \<open>The catalog\<close>

text \<open>With a database, its specs come first and shadow the YAML ones; a failed query falls back to the
  YAML.\<close>

definition effective_specs :: "(string + spec list) option \<Rightarrow> spec list \<Rightarrow> spec list" where
  "effective_specs db yaml =
     (case db of
        None \<Rightarrow> yaml
      | Some (Inl e) \<Rightarrow> yaml
      | Some (Inr db_specs) \<Rightarrow> db_specs @ filter (\<lambda>s. sp_id s \<notin> sp_id ` set db_specs) yaml)"

section \<open>Credentials and limits\<close>

definition limits_from_spec :: "spec \<Rightarrow> f64 resource_limits" where
  "limits_from_spec sp =
     \<lparr>memory_bytes = effective_memory_limit_bytes sp,
      memory_reservation_bytes = effective_memory_request_bytes sp,
      cpu_fraction = (case sp_container_cpu_limit sp of None \<Rightarrow> None
        | Some c \<Rightarrow> if is_finite c \<and> f64_lt (Fin 0) c then Some c else None)\<rparr>"

definition creds_from_spec :: "environ \<Rightarrow> spec \<Rightarrow> string + registry_credentials option" where
  "creds_from_spec env sp =
     (case (Option.bind (sp_docker_registry_username sp) nonempty, Option.bind (sp_docker_registry_password sp) nonempty) of
        (Some u, Some p) \<Rightarrow>
          (case interpolate_value env p of
             Inl e \<Rightarrow> Inl (cfg_error_text e)
           | Inr pw \<Rightarrow> Inr (Some \<lparr>rc_username = u, rc_password = pw,
               rc_server_address = Option.bind (sp_docker_registry_domain sp) nonempty, rc_credential_name = None\<rparr>))
      | _ \<Rightarrow> Inr None)"

text \<open>The store answers a name when the database and the master key are both available.\<close>

type_synonym credential_store = "(string \<Rightarrow> string + registry_credentials option) option"

definition resolve_creds :: "credential_store \<Rightarrow> environ \<Rightarrow> spec \<Rightarrow> string + registry_credentials option" where
  "resolve_creds store env sp =
     (case Option.bind (sp_docker_registry_credential sp) nonempty of
        None \<Rightarrow> creds_from_spec env sp
      | Some name \<Rightarrow>
          (case store of
             None \<Rightarrow> creds_from_spec env sp
           | Some look \<Rightarrow>
               (case look name of
                  Inr (Some c) \<Rightarrow> Inr (Some c)
                | Inr None \<Rightarrow> creds_from_spec env sp
                | Inl e \<Rightarrow> creds_from_spec env sp)))"

section \<open>The public path\<close>

definition APP_PREFIX :: string where "APP_PREFIX = ''/app/''"
definition API_PREFIX :: string where "API_PREFIX = ''/api/''"
definition PUBLIC_PATH_TOKEN :: string where "PUBLIC_PATH_TOKEN = ''#{publicPath}''"

definition mount_prefix :: "string \<Rightarrow> string \<Rightarrow> string \<Rightarrow> string" where
  "mount_prefix base_path route_prefix spec_id = base_path @ route_prefix @ spec_id"

definition public_path :: "string \<Rightarrow> spec \<Rightarrow> string" where
  "public_path base_path sp =
     mount_prefix base_path (case spec_kind_of sp of Api \<Rightarrow> API_PREFIX | _ \<Rightarrow> APP_PREFIX) (sp_id sp) @ ''/''"

definition apply_token :: "string \<Rightarrow> string \<Rightarrow> string" where
  "apply_token path s = (if contains_str PUBLIC_PATH_TOKEN s then replace_all PUBLIC_PATH_TOKEN path s else s)"

definition apply_public_path :: "string \<Rightarrow> string list \<times> string list option \<Rightarrow> string list \<times> string list option" where
  "apply_public_path path ec = (case ec of (env, cmd) \<Rightarrow>
     (map (apply_token path) env, map_option (map (apply_token path)) cmd))"

section \<open>The request\<close>

definition opt_with :: "('a \<Rightarrow> 'r \<Rightarrow> 'r) \<Rightarrow> 'a option \<Rightarrow> 'r \<Rightarrow> 'r" where
  "opt_with f x req = (case x of None \<Rightarrow> req | Some v \<Rightarrow> f v req)"

definition build_request :: "spec \<Rightarrow> string \<Rightarrow> string list \<Rightarrow> string list option \<Rightarrow> registry_credentials option \<Rightarrow>
    f64 spawn_request" where
  "build_request sp img env cmd creds =
     opt_with with_creds creds
       ((if effective_labels sp = [] then id else with_labels (effective_labels sp))
         (opt_with with_network (effective_container_network sp)
           (opt_with with_cmd cmd
             (opt_with with_platform (sp_platform sp)
               (opt_with with_port (effective_inner_port sp)
                 (opt_with with_readiness_timeout_ms (sp_container_wait_time sp)
                   (with_anti_affinity (effective_anti_affinity sp)
                     (with_placement (effective_placement sp)
                       (with_env env
                         (with_volumes (unwrap_or [] (sp_volumes sp))
                           (with_limits (limits_from_spec sp)
                             (spawn_request_new (sp_id sp) img))))))))))))"

text \<open>
  The inputs of the scaler's and the splash's spawn: image, credentials and environment, each an early
  return when it fails. The on-demand path of the proxy takes the same steps but never resolves the
  public-path token.
\<close>

definition scaler_request :: "credential_store \<Rightarrow> environ \<Rightarrow> string \<Rightarrow> spec \<Rightarrow> string + f64 spawn_request" where
  "scaler_request store env base_path sp =
     (case sp_container_image sp of
        None \<Rightarrow> Inl (''spec '' @ sp_id sp @ '' has no container-image'')
      | Some img \<Rightarrow>
          (case resolve_creds store env sp of
             Inl e \<Rightarrow> Inl e
           | Inr creds \<Rightarrow>
               (case resolved_env_pairs env sp of
                  Inl e \<Rightarrow> Inl (''spec '' @ sp_id sp @ '' container-env: '' @ cfg_error_text e)
                | Inr kvs \<Rightarrow>
                    (case apply_public_path (public_path base_path sp) (kvs, sp_container_cmd sp) of
                       (kvs', cmd') \<Rightarrow> Inr (build_request sp img kvs' cmd' creds)))))"

definition on_demand_request :: "credential_store \<Rightarrow> environ \<Rightarrow> spec \<Rightarrow> string + f64 spawn_request" where
  "on_demand_request store env sp =
     (case sp_container_image sp of
        None \<Rightarrow> Inl (''spec '' @ sp_id sp @ '' has no container-image'')
      | Some img \<Rightarrow>
          (case resolve_creds store env sp of
             Inl e \<Rightarrow> Inl e
           | Inr creds \<Rightarrow>
               (case resolved_env_pairs env sp of
                  Inl e \<Rightarrow> Inl (''spec '' @ sp_id sp @ '' container-env: '' @ cfg_error_text e)
                | Inr kvs \<Rightarrow> Inr (build_request sp img kvs (sp_container_cmd sp) creds))))"

lemmas request_builders =
  spawn_request_new_def with_platform_def with_placement_def with_anti_affinity_def with_port_def
  with_creds_def with_limits_def with_volumes_def with_env_def with_cmd_def with_network_def
  with_labels_def with_readiness_timeout_ms_def

lemma build_request_fields:
  "sr_spec_id (build_request sp img env cmd creds) = sp_id sp"
  "sr_image (build_request sp img env cmd creds) = img"
  "sr_env (build_request sp img env cmd creds) = env"
  "sr_cmd (build_request sp img env cmd creds) = cmd"
  "sr_creds (build_request sp img env cmd creds) = creds"
  "sr_limits (build_request sp img env cmd creds) = limits_from_spec sp"
  "sr_labels (build_request sp img env cmd creds) = effective_labels sp"
  "sr_placement (build_request sp img env cmd creds) = effective_placement sp"
  "sr_anti_affinity (build_request sp img env cmd creds) = effective_anti_affinity sp"
  "sr_inner_port (build_request sp img env cmd creds) = effective_inner_port sp"
  "sr_network (build_request sp img env cmd creds) = effective_container_network sp"
  "sr_platform (build_request sp img env cmd creds) = sp_platform sp"
  by (simp_all add: build_request_def opt_with_def request_builders split: option.split)

lemma apply_token_id: "\<not> contains_str PUBLIC_PATH_TOKEN s \<Longrightarrow> apply_token path s = s"
  by (simp add: apply_token_def)

lemma limits_positive:
  "cpu_fraction (limits_from_spec sp) = Some c \<Longrightarrow> is_finite c \<and> f64_lt (Fin 0) c"
  by (auto simp: limits_from_spec_def split: option.splits if_splits)

section \<open>Properties\<close>

text \<open>
  A replica never runs with an unresolved secret: the request a spawn sends carries a registry
  password only with a user name, the password and every environment value are the interpolated ones,
  and a missing variable fails the spawn with that variable's own error and sends nothing.
\<close>

theorem spawn_request_resolved:
  assumes "sp_docker_registry_credential sp = None"
  shows "(\<forall>req. scaler_request store env base sp = Inr req \<longrightarrow>
       (\<exists>kvs. resolved_env_pairs env sp = Inr kvs \<and> sr_env req = map (apply_token (public_path base sp)) kvs)
       \<and> (\<forall>c. sr_creds req = Some c \<longrightarrow> (\<exists>p. sp_docker_registry_password sp = Some p \<and> interpolate_value env p = Inr (rc_password c))
            \<and> sp_docker_registry_username sp = Some (rc_username c) \<and> rc_username c \<noteq> []))
     \<and> (\<forall>e img. sp_container_image sp = Some img \<and> creds_from_spec env sp = Inr None \<and> resolved_env_pairs env sp = Inl e \<longrightarrow>
       scaler_request store env base sp = Inl (''spec '' @ sp_id sp @ '' container-env: '' @ cfg_error_text e))"
  using assms
  by (auto simp: scaler_request_def resolve_creds_def creds_from_spec_def apply_public_path_def nonempty_def build_request_fields
      split: option.splits sum.splits prod.splits if_splits bind_splits)

definition demo_env :: environ where
  "demo_env n = (if n = ''PW'' then Present ''hunter2'' else NotPresent)"

definition demo_spawn_spec :: spec where
  "demo_spawn_spec = (blank_spec ''app'')\<lparr>sp_container_image := Some ''img'', sp_docker_registry_username := Some ''bob'',
     sp_docker_registry_password := Some ''${PW}''\<rparr>"

lemma spawn_request_resolved_witness:
  "\<exists>req c. scaler_request None demo_env ''/box'' demo_spawn_spec = Inr req \<and> sr_creds req = Some c
     \<and> interpolate_value demo_env ''${PW}'' = Inr (rc_password c)"
proof -
  have i: "interpolate_value demo_env ''${PW}'' = Inr ''hunter2''" by code_simp
  have "\<exists>req c. scaler_request None demo_env ''/box'' demo_spawn_spec = Inr req \<and> sr_creds req = Some c"
    by (simp add: scaler_request_def resolve_creds_def creds_from_spec_def nonempty_def i demo_spawn_spec_def
        blank_spec_def resolved_env_pairs_def env_pairs_def apply_public_path_def build_request_fields)
  then obtain req c where r: "scaler_request None demo_env ''/box'' demo_spawn_spec = Inr req" "sr_creds req = Some c"
    by blast
  moreover have "sp_docker_registry_credential demo_spawn_spec = None"
    "sp_docker_registry_password demo_spawn_spec = Some ''${PW}''"
    by (simp_all add: demo_spawn_spec_def blank_spec_def)
  ultimately have "interpolate_value demo_env ''${PW}'' = Inr (rc_password c)"
    using spawn_request_resolved [of demo_spawn_spec None demo_env "''/box''"] by auto
  with r show ?thesis by blast
qed

text \<open>
  The scaler and the proxy start the same container for a spec unless it uses the public-path token:
  then only the scaler's request has it resolved, and the proxy's passes the token on as it is written.
\<close>

theorem spawn_paths_differ_by_token:
  "((\<forall>kvs. resolved_env_pairs env sp = Inr kvs \<longrightarrow>
       \<not> list_ex (contains_str PUBLIC_PATH_TOKEN) (kvs @ unwrap_or [] (sp_container_cmd sp))) \<longrightarrow>
     scaler_request store env base sp = on_demand_request store env sp)
   \<and> (\<forall>req. on_demand_request store env sp = Inr req \<longrightarrow>
     sr_cmd req = sp_container_cmd sp \<and> resolved_env_pairs env sp = Inr (sr_env req))"
proof (intro conjI)
  have fix_list: "map (apply_token path) xs = xs" if "\<not> list_ex (contains_str PUBLIC_PATH_TOKEN) xs" for path xs
    using that by (intro map_idI) (auto simp: list_ex_iff apply_token_id)
  show "(\<forall>kvs. resolved_env_pairs env sp = Inr kvs \<longrightarrow>
       \<not> list_ex (contains_str PUBLIC_PATH_TOKEN) (kvs @ unwrap_or [] (sp_container_cmd sp))) \<longrightarrow>
     scaler_request store env base sp = on_demand_request store env sp"
    by (cases "sp_container_cmd sp")
      (auto simp: scaler_request_def on_demand_request_def apply_public_path_def fix_list
        split: option.splits sum.splits)
  show "\<forall>req. on_demand_request store env sp = Inr req \<longrightarrow>
     sr_cmd req = sp_container_cmd sp \<and> resolved_env_pairs env sp = Inr (sr_env req)"
    by (auto simp: on_demand_request_def build_request_fields split: option.splits sum.splits)
qed

definition demo_jupyter :: spec where
  "demo_jupyter = (blank_spec ''jl'')\<lparr>sp_container_image := Some ''img'',
     sp_container_cmd := Some [''--base=#{publicPath}'']\<rparr>"

lemma spawn_paths_differ_by_token_witness:
  "\<exists>a b. scaler_request None demo_env ''/box'' demo_jupyter = Inr a \<and> on_demand_request None demo_env demo_jupyter = Inr b
     \<and> sr_cmd a = Some [''--base=/box/app/jl/''] \<and> sr_cmd b = Some [''--base=#{publicPath}'']"
proof -
  have t: "apply_token ''/box/app/jl/'' ''--base=#{publicPath}'' = ''--base=/box/app/jl/''" by code_simp
  have k: "resolved_env_pairs demo_env demo_jupyter = Inr []" "resolve_creds None demo_env demo_jupyter = Inr None"
    "sp_container_image demo_jupyter = Some ''img''" "sp_container_cmd demo_jupyter = Some [''--base=#{publicPath}'']"
    "public_path ''/box'' demo_jupyter = ''/box/app/jl/''"
    by (simp_all add: demo_jupyter_def blank_spec_def resolved_env_pairs_def env_pairs_def resolve_creds_def
        creds_from_spec_def public_path_def spec_kind_of_def mount_prefix_def APP_PREFIX_def)
  then obtain b where b: "on_demand_request None demo_env demo_jupyter = Inr b"
    by (simp add: on_demand_request_def)
  with spawn_paths_differ_by_token [of demo_env demo_jupyter None "''/box''"] k
  have "sr_cmd b = Some [''--base=#{publicPath}'']" by simp
  with b k t show ?thesis
    by (simp add: scaler_request_def apply_public_path_def build_request_fields)
qed

end
