(* ===== verification/Scaler_Ops.thy ===== *)
theory Scaler_Ops
  imports Session_Store Scaler_Policy Spawn_Inputs
begin

text \<open>
  The operations of the auto-scaler (\<open>crates/ruscker-admin/src/scaler.rs\<close>) on the shared state: forgetting,
  pruning, marking and re-adopting replicas, the liveness reconciliation, stopping and spawning. The
  outside world (container backend, clocks, catalog database) is a value of an unknown type that every
  call may change; what a call does there is a parameter. The locks per spec are the names in
  \<open>w_locks\<close>; a section under a lock is one operation here.
\<close>

section \<open>The outside world and the shared state\<close>

record 'b outside =
  bk_now :: "'b \<Rightarrow> timestamp"
  bk_instant :: "'b \<Rightarrow> nat"
  bk_stop :: "replica_id \<Rightarrow> 'b \<Rightarrow> (core_error + unit) \<times> 'b"
  bk_spawn :: "f64 spawn_request \<Rightarrow> 'b \<Rightarrow> (core_error + replica) \<times> 'b"
  bk_wait :: "replica \<Rightarrow> u64 option \<Rightarrow> 'b \<Rightarrow> (core_error + unit) \<times> 'b"
  bk_remove :: "string \<Rightarrow> 'b \<Rightarrow> (core_error + unit) \<times> 'b"
  bk_liveness :: "liveness_query list \<Rightarrow> 'b \<Rightarrow> (core_error + liveness_report) \<times> 'b"
  bk_image_created :: "string \<Rightarrow> 'b \<Rightarrow> string option \<times> 'b"
  bk_stamp_date :: "string \<Rightarrow> string \<Rightarrow> 'b \<Rightarrow> 'b"
  bk_hash :: "string \<Rightarrow> u64"
  bk_show_id :: "replica_id \<Rightarrow> string"
  bk_format_date :: "string \<Rightarrow> string option"
  bk_store :: credential_store
  bk_environ :: environ
  bk_base_path :: string
  bk_has_db :: bool

record 'b world =
  w_reg :: registry
  w_sessions :: session_store
  w_metrics :: "replica_id list"
  w_inflight :: gauge
  w_alerts :: alert_sink
  w_failures :: failure_log
  w_locks :: "string list"
  w_out :: 'b

definition call_out :: "('b \<Rightarrow> 'a \<times> 'b) \<Rightarrow> 'b world \<Rightarrow> 'a \<times> 'b world" where
  "call_out f w = (case f (w_out w) of (x, b) \<Rightarrow> (x, w\<lparr>w_out := b\<rparr>))"

definition raise_alert :: "'b outside \<Rightarrow> alert_event \<Rightarrow> 'b world \<Rightarrow> 'b world" where
  "raise_alert k ev w = w\<lparr>w_alerts := snd (notify (bk_instant k (w_out w)) ev (w_alerts w))\<rparr>"

definition take_lock :: "string \<Rightarrow> 'b world \<Rightarrow> 'b world" where
  "take_lock spec_id w = w\<lparr>w_locks := List.insert spec_id (w_locks w)\<rparr>"

section \<open>Failures and removed replicas\<close>

definition log_spawn_failure :: "'b outside \<Rightarrow> string \<Rightarrow> string \<Rightarrow> string \<Rightarrow> 'b world \<Rightarrow> 'b world" where
  "log_spawn_failure k spec_id phase msg w =
     (case fail_observe (bk_hash k) spec_id msg (bk_instant k (w_out w)) (w_failures w) of
        (Warn n, flog) \<Rightarrow>
          raise_alert k \<lparr>ae_kind = SpawnFailed, ae_spec = spec_id, ae_replica = None,
              ae_message = phase @ '' spawn failed ('' @ show_nat (unat n) @ '' failure(s)): '' @ msg\<rparr>
            (w\<lparr>w_failures := flog\<rparr>)
      | (Quiet n, flog) \<Rightarrow> w\<lparr>w_failures := flog\<rparr>)"

datatype down_reason = DownMissing | RestartTimedOut

definition down_text :: "down_reason \<Rightarrow> string" where
  "down_text reason = (case reason of
     DownMissing \<Rightarrow> ''container is missing/removed''
   | RestartTimedOut \<Rightarrow> ''container stayed stopped past the restart grace window'')"

definition cleanup_replica_state :: "replica_id \<Rightarrow> 'b world \<Rightarrow> replica option \<times> 'b world" where
  "cleanup_replica_state rid w =
     (case reg_remove rid (w_reg w) of (removed, reg) \<Rightarrow>
        (removed, w\<lparr>w_reg := reg, w_sessions := snd (drop_replica rid (w_sessions w)),
           w_metrics := filter (\<lambda>i. i \<noteq> rid) (w_metrics w), w_inflight := inflight_forget rid (w_inflight w)\<rparr>))"

definition em_dash :: string where
  "em_dash = [CHR 0xE2, CHR 0x80, CHR 0x94]"

definition prune_dead_replica :: "'b outside \<Rightarrow> replica \<Rightarrow> down_reason \<Rightarrow> 'b world \<Rightarrow> 'b world" where
  "prune_dead_replica k r reason w =
     (case cleanup_replica_state (r_id r) w of
        (None, w') \<Rightarrow> w'
      | (Some _, w') \<Rightarrow>
          raise_alert k \<lparr>ae_kind = ReplicaDown, ae_spec = r_spec_id r, ae_replica = Some (bk_show_id k (r_id r)),
             ae_message = ''replica '' @ bk_show_id k (r_id r) @ '' of `'' @ r_spec_id r @ ''` is gone ''
               @ em_dash @ '' '' @ down_text reason\<rparr> w')"

definition mark_restart_detected :: "replica \<Rightarrow> timestamp \<Rightarrow> 'b world \<Rightarrow> 'b world" where
  "mark_restart_detected r observed_at w =
     (case mark_restarting (r_id r) observed_at (w_reg w) of
        (False, reg) \<Rightarrow> w\<lparr>w_reg := reg\<rparr>
      | (True, reg) \<Rightarrow>
          w\<lparr>w_reg := reg, w_sessions := snd (drop_replica (r_id r) (w_sessions w)),
            w_metrics := filter (\<lambda>i. i \<noteq> r_id r) (w_metrics w),
            w_inflight := inflight_forget (r_id r) (w_inflight w)\<rparr>)"

section \<open>Re-adoption\<close>

definition readopt_running_replica :: "'b outside \<Rightarrow> spec \<Rightarrow> replica \<Rightarrow> 'b world \<Rightarrow> 'b world" where
  "readopt_running_replica k sp r w0 =
     (let w = take_lock (sp_id sp) w0;
          pool = replicas_of (w_reg w) (sp_id sp);
          already_ready = list_ex (\<lambda>x. r_id x = r_id r \<and> r_state x = Ready) pool;
          same_id_present = list_ex (\<lambda>x. r_id x = r_id r) pool
      in if already_ready then w
         else if \<not> same_id_present \<and> length pool \<ge> unat (effective_max_replicas sp)
         then snd (call_out (bk_stop k (r_id r)) w)
         else (case call_out (bk_wait k r (sp_container_wait_time sp)) w of
             (Inl e, w1) \<Rightarrow>
               (let w2 = snd (call_out (bk_stop k (r_id r)) w1)
                in if same_id_present then prune_dead_replica k r RestartTimedOut w2 else w2)
           | (Inr _, w1) \<Rightarrow>
               w1\<lparr>w_reg := reg_upsert (r\<lparr>r_state := Ready, r_sessions_active := 0,
                    r_sessions_max := effective_seats sp\<rparr>) (w_reg w1)\<rparr>))"

section \<open>Reconciliation with the backend\<close>

type_synonym running_table = "(replica_id, replica) table"

definition running_of :: "liveness_report \<Rightarrow> running_table" where
  "running_of rep = foldl (\<lambda>t r. table_put (r_id r) r t) [] (lr_running rep)"

definition observed_of :: "liveness_report \<Rightarrow> replica_id \<Rightarrow> liveness" where
  "observed_of rep rid =
     (case map_of (rev (map (\<lambda>lo. (lo_replica_id lo, lo_liveness lo)) (lr_observations rep))) rid of
        None \<Rightarrow> Unknown | Some l \<Rightarrow> l)"

definition reconcile_known :: "'b outside \<Rightarrow> spec list \<Rightarrow> liveness_report \<Rightarrow> timestamp \<Rightarrow>
    running_table \<times> 'b world \<Rightarrow> replica \<Rightarrow> running_table \<times> 'b world" where
  "reconcile_known k specs rep now rw r = (case rw of (running, w) \<Rightarrow>
     (let l = (if table_get running (r_id r) \<noteq> None then Running else observed_of rep (r_id r))
      in case l of
           Running \<Rightarrow>
             if r_state r = Stopped then
               (table_del (r_id r) running,
                case (List.find (\<lambda>sp. sp_id sp = r_spec_id r) specs, table_get running (r_id r)) of
                  (Some sp, Some d) \<Rightarrow> readopt_running_replica k sp d w
                | _ \<Rightarrow> w)
             else (running, w)
         | Unknown \<Rightarrow> (running, w)
         | Missing \<Rightarrow> (running, prune_dead_replica k r DownMissing w)
         | LStopped \<Rightarrow>
             if r_state r \<noteq> Stopped then (running, mark_restart_detected r now w)
             else if now - r_started_at r \<ge> EXTERNAL_RESTART_GRACE_SECS * nanos
             then (running, prune_dead_replica k r RestartTimedOut (snd (call_out (bk_stop k (r_id r)) w)))
             else (running, w)))"

definition reconcile_discovered :: "'b outside \<Rightarrow> spec list \<Rightarrow> 'b world \<Rightarrow> replica \<Rightarrow> 'b world" where
  "reconcile_discovered k specs w d =
     (case List.find (\<lambda>sp. sp_id sp = r_spec_id d) specs of
        None \<Rightarrow> w
      | Some sp \<Rightarrow> if spec_kind_of sp = External \<or> sp_container_image sp = None then w
                  else readopt_running_replica k sp d w)"

definition reap_orphan :: "'b outside \<Rightarrow> string list \<Rightarrow> timestamp \<Rightarrow> 'b world \<Rightarrow> managed_container \<Rightarrow> 'b world" where
  "reap_orphan k registered now w c =
     (if mc_running c \<or> mc_id c \<in> set registered then w
      else (case mc_finished_at c of
          None \<Rightarrow> w
        | Some t \<Rightarrow> if now - t < EXTERNAL_RESTART_GRACE_SECS * nanos then w
                    else snd (call_out (bk_remove k (mc_id c)) w)))"

definition reconcile_backend_liveness :: "'b outside \<Rightarrow> spec list \<Rightarrow> replica list \<Rightarrow> liveness_report \<Rightarrow>
    timestamp \<Rightarrow> 'b world \<Rightarrow> 'b world" where
  "reconcile_backend_liveness k specs snap rep now w =
     (case foldl (reconcile_known k specs rep now) (running_of rep, w) snap of (running, w1) \<Rightarrow>
        (let w2 = foldl (reconcile_discovered k specs) w1 (map snd running);
             registered = map r_container_id snap @ map r_container_id (reg_all (w_reg w2))
         in foldl (reap_orphan k registered now) w2 (lr_managed rep)))"

definition snapshot :: "spec list \<Rightarrow> registry \<Rightarrow> replica list" where
  "snapshot specs reg = concat (map (\<lambda>sp. replicas_of reg (sp_id sp)) specs)"

definition reconcile_pass :: "'b outside \<Rightarrow> spec list \<Rightarrow> replica list \<Rightarrow> 'b world \<Rightarrow> 'b world" where
  "reconcile_pass k specs snap w =
     (case call_out (bk_liveness k (map query_of snap)) w of
        (Inl e, w1) \<Rightarrow> w1
      | (Inr rep, w1) \<Rightarrow> reconcile_backend_liveness k specs snap rep (bk_now k (w_out w1)) w1)"

definition reconcile_liveness_once :: "'b outside option \<Rightarrow> spec list \<Rightarrow> 'b world \<Rightarrow> 'b world" where
  "reconcile_liveness_once backend specs w =
     (case backend of None \<Rightarrow> w | Some k \<Rightarrow> reconcile_pass k specs (snapshot specs (w_reg w)) w)"

section \<open>Stopping\<close>

definition stop_one :: "'b outside \<Rightarrow> replica_id \<Rightarrow> 'b world \<Rightarrow> (string + unit) \<times> 'b world" where
  "stop_one k rid w =
     (case call_out (bk_stop k rid) w of (res, w1) \<Rightarrow>
        (map_err (\<lambda>e. ''backend stop: '' @ core_error_text e) res, snd (cleanup_replica_state rid w1)))"

definition stop_spec :: "'b outside option \<Rightarrow> string \<Rightarrow> 'b world \<Rightarrow> nat \<times> 'b world" where
  "stop_spec backend spec_id w =
     (case backend of
        None \<Rightarrow> (0, w)
      | Some k \<Rightarrow>
          (let ids = map r_id (replicas_of (w_reg w) spec_id)
           in (length ids, foldl (\<lambda>w i. snd (stop_one k i w)) w ids)))"

section \<open>Spawning\<close>

datatype spawn_intent = AddCapacity | EnsureAvailable

text \<open>A date is stamped on the card when it has none, the catalog has a database and the image tells its
  age.\<close>

definition stamp_image_date :: "'b outside \<Rightarrow> spec \<Rightarrow> string \<Rightarrow> 'b world \<Rightarrow> 'b world" where
  "stamp_image_date k sp img w =
     (let needs_date = (case tp_get_str (sp_template_properties sp) ''updated'' of None \<Rightarrow> True | Some s \<Rightarrow> trim s = [])
      in if needs_date \<and> bk_has_db k then
           (case call_out (bk_image_created k img) w of
              (Some created, w1) \<Rightarrow>
                (case bk_format_date k created of
                   Some date \<Rightarrow> w1\<lparr>w_out := bk_stamp_date k (sp_id sp) date (w_out w1)\<rparr>
                 | None \<Rightarrow> w1)
            | (None, w1) \<Rightarrow> w1)
         else w)"

definition spawn_one :: "'b outside \<Rightarrow> spawn_intent \<Rightarrow> spec \<Rightarrow> 'b world \<Rightarrow> (string + unit) \<times> 'b world" where
  "spawn_one k intent sp w0 =
     (let w = take_lock (sp_id sp) w0; pool = replicas_of (w_reg w) (sp_id sp)
      in if intent = EnsureAvailable \<and> list_ex (\<lambda>r. r_state r = Starting \<or> is_accepting r) pool then (Inr (), w)
         else if length pool \<ge> unat (effective_max_replicas sp) then (Inr (), w)
         else (case scaler_request (bk_store k) (bk_environ k) (bk_base_path k) sp of
             Inl e \<Rightarrow> (Inl e, w)
           | Inr req \<Rightarrow>
               (case call_out (bk_spawn k req) w of
                  (Inl e, w1) \<Rightarrow> (Inl (''backend spawn: '' @ core_error_text e), w1)
                | (Inr r, w1) \<Rightarrow>
                    (Inr (), stamp_image_date k sp (unwrap_or [] (sp_container_image sp))
                       (w1\<lparr>w_reg := reg_add (r\<lparr>r_sessions_max := effective_seats sp\<rparr>) (w_reg w1)\<rparr>)))))"

definition with_backend :: "'b outside option \<Rightarrow> ('b outside \<Rightarrow> 'b world \<Rightarrow> (string + unit) \<times> 'b world) \<Rightarrow>
    'b world \<Rightarrow> (string + unit) \<times> 'b world" where
  "with_backend backend f w =
     (case backend of None \<Rightarrow> (Inl ''no container backend wired'', w) | Some k \<Rightarrow> f k w)"

definition spawn_replica :: "'b outside option \<Rightarrow> spec \<Rightarrow> 'b world \<Rightarrow> (string + unit) \<times> 'b world" where
  "spawn_replica backend sp = with_backend backend (\<lambda>k. spawn_one k AddCapacity sp)"

definition ensure_replica_available :: "'b outside option \<Rightarrow> spec \<Rightarrow> 'b world \<Rightarrow> (string + unit) \<times> 'b world" where
  "ensure_replica_available backend sp = with_backend backend (\<lambda>k. spawn_one k EnsureAvailable sp)"

section \<open>What the operations change\<close>

named_theorems world_simps "fields of the shared state after an operation"

lemma call_out_eq [world_simps]: "call_out f w = (fst (f (w_out w)), w\<lparr>w_out := snd (f (w_out w))\<rparr>)"
  by (simp add: call_out_def split_beta)

lemma raise_alert_simps [world_simps, simp]:
  "w_reg (raise_alert k ev w) = w_reg w" "w_sessions (raise_alert k ev w) = w_sessions w"
  "w_metrics (raise_alert k ev w) = w_metrics w" "w_inflight (raise_alert k ev w) = w_inflight w"
  "w_failures (raise_alert k ev w) = w_failures w" "w_out (raise_alert k ev w) = w_out w"
  by (simp_all add: raise_alert_def)

lemma take_lock_simps [world_simps, simp]:
  "w_reg (take_lock s w) = w_reg w" "w_sessions (take_lock s w) = w_sessions w"
  "w_metrics (take_lock s w) = w_metrics w" "w_inflight (take_lock s w) = w_inflight w"
  "w_alerts (take_lock s w) = w_alerts w" "w_failures (take_lock s w) = w_failures w"
  "w_out (take_lock s w) = w_out w"
  by (simp_all add: take_lock_def)

lemma cleanup_simps [world_simps, simp]:
  "w_reg (snd (cleanup_replica_state rid w)) = snd (reg_remove rid (w_reg w))"
  "w_sessions (snd (cleanup_replica_state rid w)) = snd (drop_replica rid (w_sessions w))"
  "w_metrics (snd (cleanup_replica_state rid w)) = filter (\<lambda>i. i \<noteq> rid) (w_metrics w)"
  "w_inflight (snd (cleanup_replica_state rid w)) = inflight_forget rid (w_inflight w)"
  "w_failures (snd (cleanup_replica_state rid w)) = w_failures w"
  "w_out (snd (cleanup_replica_state rid w)) = w_out w"
  by (simp_all add: cleanup_replica_state_def split_beta)

lemma prune_simps [world_simps, simp]:
  "w_reg (prune_dead_replica k r reason w) = snd (reg_remove (r_id r) (w_reg w))"
  "w_sessions (prune_dead_replica k r reason w) = snd (drop_replica (r_id r) (w_sessions w))"
  "w_inflight (prune_dead_replica k r reason w) = inflight_forget (r_id r) (w_inflight w)"
  "w_metrics (prune_dead_replica k r reason w) = filter (\<lambda>i. i \<noteq> r_id r) (w_metrics w)"
  "w_out (prune_dead_replica k r reason w) = w_out w"
  using cleanup_simps [of "r_id r" w]
  by (auto simp: prune_dead_replica_def split: prod.splits option.splits simp del: cleanup_simps)

lemma log_failure_simps [world_simps, simp]:
  "w_reg (log_spawn_failure k s ph e w) = w_reg w" "w_sessions (log_spawn_failure k s ph e w) = w_sessions w"
  "w_inflight (log_spawn_failure k s ph e w) = w_inflight w" "w_out (log_spawn_failure k s ph e w) = w_out w"
  by (auto simp: log_spawn_failure_def split: prod.splits fail_verdict.splits)

definition restarted :: "timestamp \<Rightarrow> replica \<Rightarrow> replica" where
  "restarted now r = r\<lparr>r_state := Stopped, r_started_at := now, r_sessions_active := 0\<rparr>"

lemma mark_simps [world_simps, simp]:
  "w_reg (mark_restart_detected r now w) = reg_update (r_id r) (restarted now) (w_reg w)"
  "w_out (mark_restart_detected r now w) = w_out w"
  by (auto simp: mark_restart_detected_def mark_restarting_def reg_update_def restarted_def [abs_def] split: option.split)

lemma stop_one_simps [world_simps, simp]:
  "w_reg (snd (stop_one k rid w)) = snd (reg_remove rid (w_reg w))"
  "w_sessions (snd (stop_one k rid w)) = snd (drop_replica rid (w_sessions w))"
  "w_inflight (snd (stop_one k rid w)) = inflight_forget rid (w_inflight w)"
  "w_metrics (snd (stop_one k rid w)) = filter (\<lambda>i. i \<noteq> rid) (w_metrics w)"
  "w_failures (snd (stop_one k rid w)) = w_failures w"
  "w_out (snd (stop_one k rid w)) = snd (bk_stop k rid (w_out w))"
  by (simp_all add: stop_one_def call_out_eq)

definition adopted :: "spec \<Rightarrow> replica \<Rightarrow> replica" where
  "adopted sp r = r\<lparr>r_state := Ready, r_sessions_active := 0, r_sessions_max := effective_seats sp\<rparr>"

lemma adopted_simps [simp]:
  "r_id (adopted sp r) = r_id r" "r_spec_id (adopted sp r) = r_spec_id r"
  "r_sessions_active (adopted sp r) = 0" "r_state (adopted sp r) = Ready"
  by (simp_all add: adopted_def)

lemma restarted_simps [simp]: "r_id (restarted now r) = r_id r" "r_spec_id (restarted now r) = r_spec_id r"
  by (simp_all add: restarted_def)

lemma stamp_simps [world_simps, simp]:
  "w_reg (stamp_image_date k sp img w) = w_reg w" "w_sessions (stamp_image_date k sp img w) = w_sessions w"
  "w_inflight (stamp_image_date k sp img w) = w_inflight w" "w_failures (stamp_image_date k sp img w) = w_failures w"
  by (auto simp: stamp_image_date_def call_out_eq Let_def split: prod.splits option.splits)

text \<open>A re-adoption leaves the registry alone, removes the replica, or puts it back fresh, the last only
  if its slot or a free slot is there.\<close>

lemma readopt_reg:
  "w_reg (readopt_running_replica k sp r w) = w_reg w
   \<or> w_reg (readopt_running_replica k sp r w) = snd (reg_remove (r_id r) (w_reg w))
   \<or> (w_reg (readopt_running_replica k sp r w) = reg_upsert (adopted sp r) (w_reg w) \<and>
      (r_id r \<in> r_id ` set (replicas_of (w_reg w) (sp_id sp)) \<or>
       length (replicas_of (w_reg w) (sp_id sp)) < unat (effective_max_replicas sp)))"
  by (auto simp: readopt_running_replica_def Let_def call_out_eq adopted_def list_ex_iff image_iff
      split: sum.splits prod.splits if_splits) metis

section \<open>Counting a pool\<close>

lemma upsert_eq: "reg_upsert r reg = reg_add r (snd (reg_remove (r_id r) reg))"
  by (simp add: reg_upsert_def)

lemma pool_upsert_length:
  assumes "reg_wf reg" and "r_spec_id r = s \<Longrightarrow> r_id r \<in> r_id ` set (replicas_of reg s) \<or> length (replicas_of reg s) < n"
    and "length (replicas_of reg s) \<le> n"
  shows "length (replicas_of (reg_upsert r reg) s) \<le> n"
proof -
  let ?rs = "replicas_of reg s"
  have eq: "replicas_of (reg_upsert r reg) s = filter (\<lambda>x. r_id x \<noteq> r_id r) ?rs @ (if s = r_spec_id r then [r] else [])"
    unfolding upsert_eq by (rule rp.pool_upsert [OF assms(1)])
  have le: "length (filter (\<lambda>x. r_id x \<noteq> r_id r) ?rs) \<le> length ?rs" by simp
  have lt: "length (filter (\<lambda>x. r_id x \<noteq> r_id r) ?rs) < length ?rs" if "r_id r \<in> r_id ` set ?rs"
  proof -
    from that obtain x where "x \<in> set ?rs" "r_id x = r_id r" by auto
    then show ?thesis by (intro length_filter_less [of x]) auto
  qed
  show ?thesis
  proof (cases "s = r_spec_id r")
    case True
    with assms(2) consider "r_id r \<in> r_id ` set ?rs" | "length ?rs < n" by blast
    then have "length (filter (\<lambda>x. r_id x \<noteq> r_id r) ?rs) < n"
    proof cases
      case 1
      from lt [OF 1] assms(3) show ?thesis by (rule less_le_trans)
    next
      case 2
      from le 2 show ?thesis by (rule le_less_trans)
    qed
    then show ?thesis unfolding eq using True by simp
  next
    case False
    from le assms(3) have "length (filter (\<lambda>x. r_id x \<noteq> r_id r) ?rs) \<le> n" by (rule order_trans)
    with False show ?thesis unfolding eq by simp
  qed
qed

lemma pool_remove_length: "reg_wf reg \<Longrightarrow> length (replicas_of (snd (reg_remove i reg)) s) \<le> length (replicas_of reg s)"
  by (rule rp.pool_length_remove_le)

lemma readopt_wf: "reg_wf (w_reg w) \<Longrightarrow> reg_wf (w_reg (readopt_running_replica k sp r w))"
  using readopt_reg [of k sp r w] by (auto simp: reg_wf_remove reg_wf_upsert)

lemma readopt_bound:
  assumes "reg_wf (w_reg w)" and "length (replicas_of (w_reg w) s) \<le> n"
    and "r_spec_id r = s \<Longrightarrow> sp_id sp = s \<and> unat (effective_max_replicas sp) \<le> n"
  shows "length (replicas_of (w_reg (readopt_running_replica k sp r w)) s) \<le> n"
proof -
  let ?g = "w_reg (readopt_running_replica k sp r w)"
  consider "?g = w_reg w" | "?g = snd (reg_remove (r_id r) (w_reg w))"
    | "?g = reg_upsert (adopted sp r) (w_reg w)" "r_id r \<in> r_id ` set (replicas_of (w_reg w) (sp_id sp)) \<or>
       length (replicas_of (w_reg w) (sp_id sp)) < unat (effective_max_replicas sp)"
    using readopt_reg [of k sp r w] by blast
  then show ?thesis
  proof cases
    case 3
    show ?thesis unfolding 3(1) using assms 3(2) by (intro pool_upsert_length) auto
  qed (use assms pool_remove_length [OF assms(1), of "r_id r" s] in auto)
qed

end
