(* ===== verification/Scaler_Reconcile.thy ===== *)
theory Scaler_Reconcile
  imports Scaler_Ops Multi_Host
begin

text \<open>
  What a liveness reconciliation of the scaler may do to the registry: it keeps it well formed and every
  pool within its cap, and it never takes a ready replica away that the backend reports running or does
  not know about. With the contract of \<open>replica_liveness\<close> this says that a replica whose container runs
  survives every pass, for every backend that meets the contract, the multi-host one among them.
\<close>

section \<open>The rows a pass walks\<close>

definition running_keyed :: "running_table \<Rightarrow> bool" where
  "running_keyed t \<longleftrightarrow> (\<forall>(i, d) \<in> set t. r_id d = i)"

lemma running_keyed_put: "running_keyed t \<Longrightarrow> running_keyed (table_put (r_id r) r t)"
  by (auto simp: running_keyed_def dest!: rows_table_put)

lemma running_keyed_of: "running_keyed (running_of rep)"
proof -
  have "running_keyed t \<Longrightarrow> running_keyed (foldl (\<lambda>t r. table_put (r_id r) r t) t rs)" for t rs
    by (induction rs arbitrary: t) (auto simp: running_keyed_put)
  from this [of "[]"] show ?thesis by (simp add: running_of_def) (simp add: running_keyed_def)
qed

lemma running_of_mem: "(i, d) \<in> set (running_of rep) \<Longrightarrow> d \<in> set (lr_running rep)"
proof -
  have "(i, d) \<in> set (foldl (\<lambda>t r. table_put (r_id r) r t) t rs) \<Longrightarrow> (i, d) \<in> set t \<or> d \<in> set rs" for t rs
    by (induction rs arbitrary: t) (auto dest!: rows_table_put)
  from this [of "[]"] show "(i, d) \<in> set (running_of rep) \<Longrightarrow> d \<in> set (lr_running rep)"
    by (auto simp: running_of_def)
qed

lemma running_row: "running_keyed t \<Longrightarrow> table_get t i = Some d \<Longrightarrow> r_id d = i \<and> (i, d) \<in> set t"
  by (auto simp: running_keyed_def dest: table_get_key)

text \<open>The running table only loses rows while the known replicas are walked.\<close>

lemma reconcile_known_running:
  "fst (reconcile_known k specs rep now (running, w) r) \<in> {running, table_del (r_id r) running}"
  by (auto simp: reconcile_known_def Let_def split: liveness.split)

lemma reconcile_known_running_get:
  assumes "r_state r \<noteq> Stopped \<or> r_id r \<noteq> i"
  shows "table_get (fst (reconcile_known k specs rep now (running, w) r)) i = table_get running i"
  using assms by (auto simp: reconcile_known_def Let_def split: liveness.split)

lemma running_sub: "set (table_del i t) \<subseteq> set t"
  by (auto simp: table_del_def)

section \<open>The cap\<close>

text \<open>The containers a backend reports carry the spec they were started for.\<close>

definition labels_agree :: "replica list \<Rightarrow> liveness_report \<Rightarrow> bool" where
  "labels_agree snap rep \<longleftrightarrow>
     list_all (\<lambda>r. list_all (\<lambda>d. r_id d = r_id r \<longrightarrow> r_spec_id d = r_spec_id r) (lr_running rep)) snap"

definition spec_named :: "spec list \<Rightarrow> string \<Rightarrow> spec option" where
  "spec_named specs s = List.find (\<lambda>sp. sp_id sp = s) specs"

lemma spec_named_id: "spec_named specs s = Some sp \<Longrightarrow> sp_id sp = s"
  by (auto simp: spec_named_def dest: find_Some_mem)

text \<open>What a pass keeps: the registry's invariant and the cap of one spec.\<close>

definition capped :: "string \<Rightarrow> nat \<Rightarrow> 'b world \<Rightarrow> bool" where
  "capped s n w \<longleftrightarrow> reg_wf (w_reg w) \<and> length (replicas_of (w_reg w) s) \<le> n"

lemma capped_same: "w_reg w' = w_reg w \<Longrightarrow> capped s n w' = capped s n w"
  by (simp add: capped_def)

lemma capped_prune: "capped s n w \<Longrightarrow> capped s n (prune_dead_replica k r reason w)"
  unfolding capped_def prune_simps using pool_remove_length [of "w_reg w" "r_id r" s]
  by (auto simp: reg_wf_remove intro: order_trans)

lemma capped_mark: "capped s n w \<Longrightarrow> capped s n (mark_restart_detected r now w)"
  unfolding capped_def mark_simps
  using rp.inv_modify [of "w_reg w" "restarted now" "r_id r"] rp.pool_length_modify [of "w_reg w" "r_id r" "restarted now" s]
  by simp

lemma capped_call: "capped s n (snd (call_out f w)) = capped s n w"
  by (simp add: call_out_eq capped_def)

lemma capped_readopt:
  assumes "capped s n w" and "spec_named specs s = Some sp0" "unat (effective_max_replicas sp0) \<le> n"
    and "spec_named specs (r_spec_id r) = Some sp"
  shows "capped s n (readopt_running_replica k sp r w)"
proof -
  have "sp_id sp = s \<and> unat (effective_max_replicas sp) \<le> n" if "r_spec_id r = s"
    using assms that by (auto dest: spec_named_id)
  with assms(1) readopt_wf [of w k sp r] readopt_bound [of w s n r sp k] show ?thesis by (simp add: capped_def)
qed

lemma capped_known:
  assumes c: "capped s n w" and sp: "spec_named specs s = Some sp0" "unat (effective_max_replicas sp0) \<le> n"
    and keyed: "running_keyed running"
    and label: "\<And>d. table_get running (r_id r) = Some d \<Longrightarrow> r_spec_id d = r_spec_id r"
  shows "capped s n (snd (reconcile_known k specs rep now (running, w) r))"
proof -
  have re: "capped s n (readopt_running_replica k sp d w)"
    if "List.find (\<lambda>sp. sp_id sp = r_spec_id r) specs = Some sp" "table_get running (r_id r) = Some d" for sp d
    using that label [of d] by (intro capped_readopt [OF c sp]) (simp add: spec_named_def)
  show ?thesis using c re
    by (auto simp: reconcile_known_def Let_def capped_prune capped_mark capped_call
        split: liveness.split option.split)
qed

lemma capped_known_all:
  assumes "capped s n w" and sp: "spec_named specs s = Some sp0" "unat (effective_max_replicas sp0) \<le> n"
    and "running_keyed running" and "set running \<subseteq> set (running_of rep)" and "labels_agree snap rep"
  shows "capped s n (snd (foldl (reconcile_known k specs rep now) (running, w) snap))"
  using assms
proof (induction snap arbitrary: running w)
  case (Cons r snap)
  have lab: "r_spec_id d = r_spec_id r" if "table_get running (r_id r) = Some d" for d
  proof -
    from running_row [OF Cons.prems(4) that] have "r_id d = r_id r" "(r_id r, d) \<in> set running" by auto
    moreover from this Cons.prems(5) running_of_mem have "d \<in> set (lr_running rep)" by blast
    ultimately show ?thesis using Cons.prems(6) by (auto simp: labels_agree_def list_all_iff)
  qed
  obtain running' w' where step: "reconcile_known k specs rep now (running, w) r = (running', w')" by fastforce
  have c: "capped s n w'"
    using capped_known [OF Cons.prems(1) sp Cons.prems(4), of r k rep now] lab step by simp
  have sub: "set running' \<subseteq> set running"
    using reconcile_known_running [of k specs rep now running w r] step running_sub [of "r_id r" running] by auto
  then have "running_keyed running'" "set running' \<subseteq> set (running_of rep)"
    using Cons.prems(4,5) by (auto simp: running_keyed_def)
  moreover have "labels_agree snap rep" using Cons.prems(6) by (simp add: labels_agree_def)
  ultimately show ?case using Cons.IH [OF c sp] step by simp
qed simp

lemma capped_discovered:
  assumes "capped s n w" and "spec_named specs s = Some sp0" "unat (effective_max_replicas sp0) \<le> n"
  shows "capped s n (foldl (reconcile_discovered k specs) w ds)"
  using assms(1)
proof (induction ds arbitrary: w)
  case (Cons d ds)
  have "capped s n (reconcile_discovered k specs w d)"
    using Cons.prems capped_readopt [OF Cons.prems assms(2,3), of d _ k]
    by (auto simp: reconcile_discovered_def spec_named_def split: option.split)
  with Cons.IH show ?case by simp
qed simp

lemma reap_orphan_reg: "w_reg (foldl (reap_orphan k regd now) w cs) = w_reg w"
  by (induction cs arbitrary: w) (auto simp: reap_orphan_def call_out_eq split: option.split)

lemma capped_reconcile:
  assumes "capped s n w" and "spec_named specs s = Some sp0" "unat (effective_max_replicas sp0) \<le> n"
    and "labels_agree snap rep"
  shows "capped s n (reconcile_backend_liveness k specs snap rep now w)"
proof -
  obtain running w1 where f: "foldl (reconcile_known k specs rep now) (running_of rep, w) snap = (running, w1)"
    by fastforce
  with capped_known_all [OF assms(1-3) running_keyed_of order_refl assms(4), of k now] have "capped s n w1" by simp
  from capped_discovered [OF this assms(2,3)] show ?thesis
    using f by (simp add: reconcile_backend_liveness_def Let_def capped_def reap_orphan_reg)
qed

section \<open>Ready replicas that run\<close>

definition kept :: "replica \<Rightarrow> 'b world \<Rightarrow> bool" where
  "kept r w \<longleftrightarrow> reg_wf (w_reg w) \<and> r \<in> set (replicas_of (w_reg w) (r_spec_id r))"

lemma kept_remove: "reg_wf g \<Longrightarrow> r \<in> set (replicas_of g s) \<Longrightarrow> r_id r \<noteq> i \<Longrightarrow>
    r \<in> set (replicas_of (snd (reg_remove i g)) s)"
  by (simp add: rp.pool_remove)

lemma kept_upsert: "reg_wf g \<Longrightarrow> r \<in> set (replicas_of g s) \<Longrightarrow> r_id r \<noteq> r_id x \<Longrightarrow>
    r \<in> set (replicas_of (reg_upsert x g) s)"
proof -
  assume wf: "reg_wf g" and r: "r \<in> set (replicas_of g s)" "r_id r \<noteq> r_id x"
  have eq: "replicas_of (reg_upsert x g) s =
      filter (\<lambda>y. r_id y \<noteq> r_id x) (replicas_of g s) @ (if s = r_spec_id x then [x] else [])"
    unfolding upsert_eq by (rule rp.pool_upsert [OF wf])
  have "r \<in> set (filter (\<lambda>y. r_id y \<noteq> r_id x) (replicas_of g s))" using r by simp
  then show ?thesis unfolding eq by (auto simp only: set_append)
qed

lemma kept_update: "reg_wf g \<Longrightarrow> r \<in> set (replicas_of g s) \<Longrightarrow> r_id r \<noteq> i \<Longrightarrow>
    r \<in> set (replicas_of (reg_update i f g) s)"
proof -
  assume wf: "reg_wf g" and r: "r \<in> set (replicas_of g s)" "r_id r \<noteq> i"
  from r(1) have "on_id i f r \<in> on_id i f ` set (replicas_of g s)" by (rule imageI)
  then show ?thesis unfolding rp.pool_modify [OF wf, of i f s] set_map using r(2) by simp
qed

lemma kept_readopt_other:
  assumes "kept r w" and "r_id d \<noteq> r_id r"
  shows "kept r (readopt_running_replica k sp d w)"
  using assms readopt_wf [of w k sp d] readopt_reg [of k sp d w]
  by (auto simp: kept_def kept_remove kept_upsert)

lemma kept_readopt_ready:
  assumes "kept r w" and "r_state r = Ready" and "r_id d = r_id r" and "sp_id sp = r_spec_id r"
  shows "kept r (readopt_running_replica k sp d w)"
proof -
  have "list_ex (\<lambda>x. r_id x = r_id d \<and> r_state x = Ready) (replicas_of (w_reg w) (sp_id sp))"
    using assms by (auto simp: kept_def list_ex_iff)
  with assms(1) show ?thesis by (simp add: readopt_running_replica_def Let_def kept_def)
qed

definition spared :: "running_table \<Rightarrow> liveness_report \<Rightarrow> replica \<Rightarrow> bool" where
  "spared running rep r \<longleftrightarrow> table_get running (r_id r) \<noteq> None \<or> observed_of rep (r_id r) \<in> {Running, Unknown}"

lemma kept_known_self:
  "kept r w \<Longrightarrow> r_state r = Ready \<Longrightarrow> spared running rep r \<Longrightarrow>
     kept r (snd (reconcile_known k specs rep now (running, w) r))"
  by (auto simp: reconcile_known_def Let_def spared_def split: liveness.split)

lemma kept_call: "kept r (snd (call_out f w)) = kept r w"
  by (simp add: call_out_eq kept_def)

lemma kept_prune: "kept r w \<Longrightarrow> r_id x \<noteq> r_id r \<Longrightarrow> kept r (prune_dead_replica k x reason w)"
  by (simp add: kept_def reg_wf_remove kept_remove)

lemma kept_mark: "kept r w \<Longrightarrow> r_id x \<noteq> r_id r \<Longrightarrow> kept r (mark_restart_detected x now w)"
  using rp.inv_modify [of "w_reg w" "restarted now" "r_id x"] by (simp add: kept_def kept_update)

lemma kept_known_other:
  assumes "kept r w" and "r_id x \<noteq> r_id r" and "running_keyed running"
  shows "kept r (snd (reconcile_known k specs rep now (running, w) x))"
proof -
  have "r_id d \<noteq> r_id r" if "table_get running (r_id x) = Some d" for d
    using running_row [OF assms(3) that] assms(2) by simp
  with assms show ?thesis
    by (auto simp: reconcile_known_def Let_def kept_prune kept_mark kept_call kept_readopt_other
        split: liveness.split option.split)
qed

lemma kept_known_all:
  assumes "kept r w" and "r_state r = Ready" and "spared running rep r" and "running_keyed running"
    and "\<forall>x \<in> set snap. r_id x = r_id r \<longrightarrow> x = r"
  shows "kept r (snd (foldl (reconcile_known k specs rep now) (running, w) snap))
     \<and> set (fst (foldl (reconcile_known k specs rep now) (running, w) snap)) \<subseteq> set running"
  using assms
proof (induction snap arbitrary: running w)
  case (Cons x snap)
  obtain running' w' where step: "reconcile_known k specs rep now (running, w) x = (running', w')" by fastforce
  have k: "kept r w'"
  proof (cases "x = r")
    case True
    with kept_known_self [OF Cons.prems(1-3), of k specs now] step show ?thesis by simp
  next
    case False
    with Cons.prems(5) have "r_id x \<noteq> r_id r" by auto
    from kept_known_other [OF Cons.prems(1) this Cons.prems(4), of k specs rep now] step show ?thesis by simp
  qed
  have "r_state x \<noteq> Stopped \<or> r_id x \<noteq> r_id r" using Cons.prems(2,5) by auto
  from reconcile_known_running_get [OF this, of k specs rep now running w] step
  have sp: "spared running' rep r" using Cons.prems(3) by (simp add: spared_def)
  have sub: "set running' \<subseteq> set running"
    using reconcile_known_running [of k specs rep now running w x] step running_sub [of "r_id x" running] by auto
  then have "running_keyed running'" using Cons.prems(4) by (auto simp: running_keyed_def)
  from Cons.IH [OF k Cons.prems(2) sp this] Cons.prems(5) sub step show ?case by auto
qed simp

lemma kept_discovered:
  assumes "kept r w" and "r_state r = Ready" and "\<forall>d \<in> set ds. r_id d = r_id r \<longrightarrow> r_spec_id d = r_spec_id r"
  shows "kept r (foldl (reconcile_discovered k specs) w ds)"
  using assms(1,3)
proof (induction ds arbitrary: w)
  case (Cons d ds)
  have "kept r (reconcile_discovered k specs w d)"
  proof (cases "List.find (\<lambda>sp. sp_id sp = r_spec_id d) specs")
    case None
    with Cons.prems show ?thesis by (simp add: reconcile_discovered_def)
  next
    case (Some sp)
    then have "sp_id sp = r_spec_id d" by (auto dest: find_Some_mem)
    have "kept r (readopt_running_replica k sp d w)"
    proof (cases "r_id d = r_id r")
      case True
      with Cons.prems(2) \<open>sp_id sp = r_spec_id d\<close> show ?thesis
        by (intro kept_readopt_ready [OF Cons.prems(1) assms(2)]) auto
    qed (rule kept_readopt_other [OF Cons.prems(1)])
    with Cons.prems(1) Some show ?thesis by (simp add: reconcile_discovered_def)
  qed
  with Cons show ?case by simp
qed simp

lemma kept_reconcile:
  assumes "kept r w" and "r_state r = Ready" and "spared (running_of rep) rep r" and "labels_agree snap rep"
    and "r \<in> set snap" and "distinct (map r_id snap)"
  shows "kept r (reconcile_backend_liveness k specs snap rep now w)"
proof -
  obtain running w1 where f: "foldl (reconcile_known k specs rep now) (running_of rep, w) snap = (running, w1)"
    by fastforce
  have "\<forall>x \<in> set snap. r_id x = r_id r \<longrightarrow> x = r"
    using assms(5,6) by (metis distinct_map inj_onD)
  from kept_known_all [OF assms(1-3) running_keyed_of this, of k specs now] f
  have k1: "kept r w1" and sub: "set running \<subseteq> set (running_of rep)" by auto
  have "\<forall>d \<in> set (map snd running). r_id d = r_id r \<longrightarrow> r_spec_id d = r_spec_id r"
    using assms(4,5) sub running_of_mem by (fastforce simp: labels_agree_def list_all_iff)
  from kept_discovered [OF k1 assms(2) this] show ?thesis
    using f by (simp add: reconcile_backend_liveness_def Let_def kept_def reap_orphan_reg)
qed

section \<open>With the contract of the backend\<close>

context liveness_source
begin

lemma reports_spared:
  assumes "distinct (map r_id snap)" and "r \<in> set snap" and "alive o' (query_of r)"
  shows "spared (running_of (report o' (map query_of snap))) (report o' (map query_of snap)) r"
proof -
  let ?rep = "report o' (map query_of snap)"
  have d: "distinct (map lq_replica_id (map query_of snap))"
    using assms(1) by (simp add: query_of_def comp_def)
  have q: "query_of r \<in> set (map query_of snap)" using assms(2) by simp
  have "observed_of ?rep (r_id r) \<in> {Running, Unknown}"
  proof (cases "map_of (rev (map (\<lambda>lo. (lo_replica_id lo, lo_liveness lo)) (lr_observations ?rep))) (r_id r)")
    case (Some l)
    then have "(r_id r, l) \<in> set (rev (map (\<lambda>lo. (lo_replica_id lo, lo_liveness lo)) (lr_observations ?rep)))"
      by (rule map_of_SomeD)
    then obtain lo where lo: "lo \<in> set (lr_observations ?rep)" "lo_replica_id lo = r_id r" "lo_liveness lo = l"
      by auto
    have "lo_liveness lo \<noteq> Missing \<and> lo_liveness lo \<noteq> LStopped"
      by (rule alive_not_dead [OF d q assms(3) lo(1)]) (simp add: lo(2) query_of_def)
    with Some lo show ?thesis by (cases l) (auto simp: observed_of_def)
  qed (simp add: observed_of_def)
  then show ?thesis by (simp add: spared_def)
qed

lemma reconcile_keeps_alive:
  assumes "kept r w" and "r_state r = Ready" and "distinct (map r_id snap)" and "r \<in> set snap"
    and "alive o' (query_of r)" and "labels_agree snap (report o' (map query_of snap))"
  shows "kept r (reconcile_backend_liveness k specs snap (report o' (map query_of snap)) now w)"
  using reports_spared [OF assms(3,4,5)] assms by (intro kept_reconcile)

end

section \<open>Properties\<close>

text \<open>
  C15: A degraded cluster never loses a healthy replica: a pass of the scaler over the report of the
  multi-host backend, whatever subset of the hosts answered, leaves every ready replica whose container
  runs in the registry, unchanged.
\<close>

theorem reconcile_spares_running:
  assumes "reg_wf (w_reg w)" and "r \<in> set (replicas_of (w_reg w) (r_spec_id r))" and "r_state r = Ready"
    and "distinct (map r_id snap)" and "r \<in> set snap"
    and "mh_alive cluster (query_of r)"
    and "labels_agree snap (mh_report cluster (map query_of snap))"
  shows "r \<in> set (replicas_of
     (w_reg (reconcile_backend_liveness k specs snap (mh_report cluster (map query_of snap)) now w)) (r_spec_id r))"
  using multi_liveness.reconcile_keeps_alive [of r w snap cluster k specs now] assms by (simp add: kept_def)

text \<open>
  A reconciliation keeps the registry well formed and never takes a spec above its replica limit,
  whatever running containers the backend reports: an orphan is re-adopted only into a free slot.
\<close>

theorem reconcile_within_max:
  assumes "reg_wf (w_reg w)" and "spec_named specs s = Some sp"
    and "length (replicas_of (w_reg w) s) \<le> unat (effective_max_replicas sp)" and "labels_agree snap rep"
  shows "reg_wf (w_reg (reconcile_backend_liveness k specs snap rep now w))
    \<and> length (replicas_of (w_reg (reconcile_backend_liveness k specs snap rep now w)) s) \<le> unat (effective_max_replicas sp)"
  using capped_reconcile [of s "unat (effective_max_replicas sp)" w specs sp snap rep k now] assms
  by (simp add: capped_def)

definition ready_one :: replica where
  "ready_one = \<lparr>r_id = 1, r_spec_id = ''app'', r_container_id = ''c1'', r_upstream = [], r_state = Ready,
     r_started_at = 0, r_sessions_active = 0, r_sessions_max = 1, r_host = Some ''h2''\<rparr>"

definition calm_world :: "replica list \<Rightarrow> unit world" where
  "calm_world rs = \<lparr>w_reg = [(''app'', rs)], w_sessions = [], w_metrics = [], w_inflight = Map.empty,
     w_alerts = \<lparr>as_queue = [], as_open = True, as_recent = Map.empty\<rparr>, w_failures = Map.empty, w_locks = [], w_out = ()\<rparr>"

definition calm_outside :: "unit outside" where
  "calm_outside = \<lparr>bk_now = (\<lambda>_. 100 * nanos), bk_instant = (\<lambda>_. 0), bk_stop = (\<lambda>_ b. (Inr (), b)),
     bk_spawn = (\<lambda>_ b. (Inl (Backend ''full''), b)), bk_wait = (\<lambda>_ _ b. (Inr (), b)), bk_remove = (\<lambda>_ b. (Inr (), b)),
     bk_liveness = (\<lambda>q b. (Inr (unknown_report q), b)), bk_image_created = (\<lambda>_ b. (None, b)), bk_stamp_date = (\<lambda>_ _ b. b),
     bk_hash = (\<lambda>_. 0), bk_show_id = (\<lambda>_. []), bk_format_date = (\<lambda>_. None), bk_store = None,
     bk_environ = (\<lambda>_. NotPresent), bk_base_path = [], bk_has_db = False\<rparr>"

definition two_hosts :: mh_world where
  "two_hosts = ((\<lambda>h. if h = ''h2'' then [demo_container] else []),
     [(''h1'', Answered \<lparr>iv_managed = [], iv_replicas = []\<rparr>), (''h2'', TimedOut)], [])"

lemma calm_world_wf: "reg_wf (w_reg (calm_world [ready_one]))"
  by (simp add: calm_world_def reg_wf_def ready_one_def reg_all_def)

lemma two_hosts_report:
  "mh_report two_hosts (map query_of [ready_one]) = \<lparr>lr_observations = [\<lparr>lo_replica_id = 1, lo_liveness = Unknown\<rparr>],
     lr_running = [], lr_managed = []\<rparr>"
  by (simp add: mh_report_def mh_replica_liveness_def host_calls_def classify_multihost_liveness_def two_hosts_def
      classify_one_def query_owner_def or_option_def query_of_def ready_one_def Let_def tagged_def)

lemma reconcile_spares_running_witness:
  "ready_one \<in> set (replicas_of (w_reg (reconcile_backend_liveness calm_outside [blank_spec ''app''] [ready_one]
     (mh_report two_hosts (map query_of [ready_one])) 0 (calm_world [ready_one]))) ''app'')"
proof -
  have "mh_alive two_hosts (query_of ready_one)"
    by (auto simp: mh_alive_def two_hosts_def query_owner_def or_option_def query_of_def ready_one_def demo_container_def)
  moreover have "labels_agree [ready_one] (mh_report two_hosts (map query_of [ready_one]))"
    unfolding two_hosts_report by (simp add: labels_agree_def)
  ultimately show ?thesis
    using reconcile_spares_running [of "calm_world [ready_one]" ready_one "[ready_one]" two_hosts calm_outside
        "[blank_spec ''app'']" 0] calm_world_wf
    by (simp add: ready_one_def calm_world_def replicas_of_def table_get_def)
qed

definition capped_spec :: spec where
  "capped_spec = (blank_spec ''app'')\<lparr>sp_container_image := Some ''img'', sp_max_replicas := Some 1\<rparr>"

lemma reconcile_within_max_witness:
  "length (replicas_of (w_reg (reconcile_backend_liveness calm_outside [capped_spec] [ready_one]
     \<lparr>lr_observations = [], lr_running = [ready_one\<lparr>r_id := 2\<rparr>], lr_managed = []\<rparr> 0 (calm_world [ready_one]))) ''app'') \<le> 1"
proof -
  have "spec_named [capped_spec] ''app'' = Some capped_spec" "effective_max_replicas capped_spec = 1"
    by (simp_all add: spec_named_def capped_spec_def blank_spec_def effective_max_replicas_def)
  then show ?thesis
    using reconcile_within_max [of "calm_world [ready_one]" "[capped_spec]" "''app''" capped_spec "[ready_one]"
       "\<lparr>lr_observations = [], lr_running = [ready_one\<lparr>r_id := 2\<rparr>], lr_managed = []\<rparr>" calm_outside 0] calm_world_wf
    by (simp add: labels_agree_def ready_one_def calm_world_def replicas_of_def table_get_def)
qed

end
