(* ===== verification/Scaler_Tick.thy ===== *)
theory Scaler_Tick
  imports Scaler_Reconcile
begin

text \<open>
  One pass of the auto-scaler (\<open>tick_with_interval\<close> in \<open>crates/ruscker-admin/src/scaler.rs\<close>): the idle
  counters, the reconciliation, the collection of stale rows, and for every spec the lifetime reap, the
  scale-up and the scale-down. A pass is one operation here: requests of other tasks between its calls
  are not interleaved (\<open>Spawn_Lock\<close> interleaves the spawns).
\<close>

section \<open>State and parameters\<close>

record scaler_local =
  sl_idle :: "replica_id ticks"
  sl_sat :: "string ticks"
  sl_cool :: "string ticks"

record tick_params =
  tk_drop_after :: u32
  tk_sat_after :: u32
  tk_default_cooldown :: "u32 option"
  tk_interval :: nat

type_synonym 'b tick_state = "scaler_local \<times> 'b world"

section \<open>Stages for one spec\<close>

definition cool_step :: "string \<Rightarrow> string ticks \<Rightarrow> bool \<times> string ticks" where
  "cool_step i cool =
     (tick_of cool i > 0,
      case cool i of None \<Rightarrow> cool
      | Some c \<Rightarrow> (let c' = sat_sub c 1 in if c' = 0 then cool(i := None) else cool(i \<mapsto> c')))"

definition load_pool :: "spec \<Rightarrow> 'b world \<Rightarrow> replica list" where
  "load_pool sp w = overlay_request_capacity (w_inflight w) sp (replicas_of (w_reg w) (sp_id sp))"

definition stop_and_forget :: "'b outside \<Rightarrow> replica_id \<Rightarrow> 'b tick_state \<Rightarrow> bool \<times> 'b tick_state" where
  "stop_and_forget k i s = (case s of (l, w) \<Rightarrow>
     (case stop_one k i w of (res, w') \<Rightarrow> (\<not> isl res, l\<lparr>sl_idle := (sl_idle l)(i := None)\<rparr>, w')))"

fun stop_all :: "'b outside \<Rightarrow> replica_id list \<Rightarrow> 'b tick_state \<Rightarrow> bool \<times> 'b tick_state" where
  "stop_all k [] s = (False, s)"
| "stop_all k (i # is) s =
     (case stop_and_forget k i s of (a, s') \<Rightarrow> (case stop_all k is s' of (b, s'') \<Rightarrow> (a \<or> b, s'')))"

definition aged_replicas :: "'b outside \<Rightarrow> spec \<Rightarrow> 'b world \<Rightarrow> replica_id list" where
  "aged_replicas k sp w =
     lifetime_reap_candidates (load_pool sp w) (bk_now k (w_out w)) (effective_max_lifetime_secs sp)
       (effective_container_lifetime_secs sp) (effective_drain_timeout_secs sp)"

fun spawn_up_to :: "'b outside \<Rightarrow> spec \<Rightarrow> nat \<Rightarrow> 'b world \<Rightarrow> 'b world" where
  "spawn_up_to k sp 0 w = w"
| "spawn_up_to k sp (Suc n) w =
     (case spawn_one k AddCapacity sp w of
        (Inl e, w') \<Rightarrow> log_spawn_failure k (sp_id sp) ''scale-up'' e w'
      | (Inr _, w') \<Rightarrow> spawn_up_to k sp n (w'\<lparr>w_failures := fail_clear (sp_id sp) (w_failures w')\<rparr>))"

definition saturated_step :: "'b outside \<Rightarrow> tick_params \<Rightarrow> bool \<Rightarrow> spec \<Rightarrow> 'b tick_state \<Rightarrow> 'b tick_state" where
  "saturated_step k tp cooling sp s = (case s of (l, w) \<Rightarrow>
     (let i = sp_id sp in
      if cooling then (l\<lparr>sl_sat := (sl_sat l)(i := None)\<rparr>, w)
      else (let n = (case sl_sat l i of None \<Rightarrow> 1 | Some n \<Rightarrow> n + 1) in
            if n \<ge> tk_sat_after tp then
              (l\<lparr>sl_sat := (sl_sat l)(i := None)\<rparr>,
               case spawn_one k AddCapacity sp w of
                 (Inl e, w') \<Rightarrow> log_spawn_failure k i ''saturation'' e w'
               | (Inr _, w') \<Rightarrow> w'\<lparr>w_failures := fail_clear i (w_failures w')\<rparr>)
            else (l\<lparr>sl_sat := (sl_sat l)(i \<mapsto> n)\<rparr>, w))))"

definition alert_saturated :: "'b outside \<Rightarrow> spec \<Rightarrow> replica list \<Rightarrow> 'b world \<Rightarrow> 'b world" where
  "alert_saturated k sp snap w =
     (let mx = unat (effective_max_replicas sp) in
      if length snap \<ge> mx \<and> length snap > 0 \<and> scale_up_triggered snap (effective_scale_up_threshold sp)
      then raise_alert k \<lparr>ae_kind = Saturated, ae_spec = sp_id sp, ae_replica = None,
             ae_message = ''`'' @ sp_id sp @ ''` is saturated at max-replicas ('' @ show_nat mx @ '') ''
               @ em_dash @ '' visitors may be turned away''\<rparr> w
      else w)"

definition drop_grace :: "tick_params \<Rightarrow> spec \<Rightarrow> u32" where
  "drop_grace tp sp = (case sp_scale_down_grace sp of
     Some s \<Rightarrow> grace_secs_to_ticks s DEFAULT_INTERVAL_SECS | None \<Rightarrow> tk_drop_after tp)"

definition drop_candidates :: "tick_params \<Rightarrow> spec \<Rightarrow> replica_id ticks \<Rightarrow> replica list \<Rightarrow> replica_id list" where
  "drop_candidates tp sp idle snap =
     (let underutilized = (case effective_scale_down_threshold sp of
            Some t \<Rightarrow> f64_lt (pool_utilization snap) t | None \<Rightarrow> True)
      in if underutilized then
           map r_id (take (length snap - unat (effective_min_replicas sp))
             (filter (\<lambda>r. r_sessions_active r = 0 \<and> tick_of idle (r_id r) \<ge> drop_grace tp sp) snap))
         else [])"

definition scale_down_step :: "'b outside \<Rightarrow> tick_params \<Rightarrow> spec \<Rightarrow> replica list \<Rightarrow> 'b tick_state \<Rightarrow> 'b tick_state" where
  "scale_down_step k tp sp snap s = (case s of (l, w) \<Rightarrow>
     if length snap > unat (effective_min_replicas sp) then
       (case stop_all k (drop_candidates tp sp (sl_idle l) snap) (l, w) of (stopped_any, l', w') \<Rightarrow>
          (let c = cooldown_ticks_for_spec sp (tk_interval tp) (tk_default_cooldown tp) in
           (if stopped_any \<and> c > 0 then l'\<lparr>sl_cool := (sl_cool l')(sp_id sp \<mapsto> c)\<rparr> else l', w')))
     else (l, w))"

definition tick_spec :: "'b outside \<Rightarrow> tick_params \<Rightarrow> 'b tick_state \<Rightarrow> spec \<Rightarrow> 'b tick_state" where
  "tick_spec k tp s sp = (case s of (l0, w0) \<Rightarrow>
     if spec_kind_of sp = External \<or> sp_container_image sp = None then s
     else (case cool_step (sp_id sp) (sl_cool l0) of (cooling, cool) \<Rightarrow>
       (case stop_all k (aged_replicas k sp w0) (l0\<lparr>sl_cool := cool\<rparr>, w0) of (_, l, w) \<Rightarrow>
         (let snap = load_pool sp w; count = length snap;
              mn = unat (effective_min_replicas sp); mx = unat (effective_max_replicas sp);
              hot = scale_up_triggered snap (effective_scale_up_threshold sp);
              calm = l\<lparr>sl_sat := (sl_sat l)(sp_id sp := None)\<rparr>
          in if count < mn then (calm, spawn_up_to k sp (mn - count) w)
             else if count < mx \<and> hot then saturated_step k tp cooling sp (l, w)
             else scale_down_step k tp sp snap (calm, alert_saturated k sp snap w)))))"

section \<open>The whole pass\<close>

definition collect_stale :: "spec list \<Rightarrow> 'b tick_state \<Rightarrow> 'b tick_state" where
  "collect_stale specs s = (case s of (l, w) \<Rightarrow>
     (let known = map sp_id specs in
      (l\<lparr>sl_sat := map_retain (\<lambda>i _. i \<in> set known) (sl_sat l),
         sl_cool := map_retain (\<lambda>i _. i \<in> set known) (sl_cool l)\<rparr>,
       w\<lparr>w_inflight := inflight_gc (map r_id (reg_all (w_reg w))) (w_inflight w),
         w_locks := filter (\<lambda>i. i \<in> set known) (w_locks w)\<rparr>)))"

definition tick_with_interval :: "'b outside option \<Rightarrow> tick_params \<Rightarrow> spec list \<Rightarrow> 'b tick_state \<Rightarrow> 'b tick_state" where
  "tick_with_interval backend tp specs s = (case backend of
     None \<Rightarrow> s
   | Some k \<Rightarrow> (case s of (l, w) \<Rightarrow>
       (let snap = snapshot specs (w_reg w);
            l1 = l\<lparr>sl_idle := update_idle_ticks snap (bk_now k (w_out w)) (sl_idle l)\<rparr>;
            w1 = reconcile_pass k specs snap w
        in foldl (tick_spec k tp) (collect_stale specs (l1, w1)) specs)))"

text \<open>The loop of the scaler ticks only on the leader.\<close>

definition scaler_turn :: "'b outside option \<Rightarrow> bool \<Rightarrow> tick_params \<Rightarrow> spec list \<Rightarrow> 'b tick_state \<Rightarrow> 'b tick_state" where
  "scaler_turn backend is_leader tp specs s = (if is_leader then tick_with_interval backend tp specs s else s)"

definition production_params :: tick_params where
  "production_params = \<lparr>tk_drop_after = DEFAULT_IDLE_GRACE_TICKS, tk_sat_after = DEFAULT_SATURATION_GRACE_TICKS,
     tk_default_cooldown = None, tk_interval = DEFAULT_INTERVAL_SECS\<rparr>"

end
