(* ===== verification/Scaler_Bounds.thy ===== *)
theory Scaler_Bounds
  imports Scaler_Tick
begin

text \<open>
  What a pass of the scaler guarantees: pools stay within their cap and never shrink below their minimum
  by scale-down, a replica is taken away only past its lifetime or its idle grace, a cooldown holds the
  saturation spawn back, and a pool below its minimum is refilled when the backend can. The facts rest
  on a contract with the backend: the ids it hands out are new, and a container keeps the spec it was
  started for.
\<close>

section \<open>The contract\<close>

definition grows :: "('b \<Rightarrow> replica_id \<rightharpoonup> string) \<Rightarrow> 'b \<Rightarrow> 'b \<Rightarrow> bool" where
  "grows owner b b' \<longleftrightarrow> owner b \<subseteq>\<^sub>m owner b'"

definition honest :: "'b outside \<Rightarrow> ('b \<Rightarrow> replica_id \<rightharpoonup> string) \<Rightarrow> bool" where
  "honest k owner \<longleftrightarrow>
     (\<forall>req b. grows owner b (snd (bk_spawn k req b)) \<and>
        (\<forall>r. fst (bk_spawn k req b) = Inr r \<longrightarrow> r_spec_id r = sr_spec_id req \<and> owner b (r_id r) = None
           \<and> owner (snd (bk_spawn k req b)) (r_id r) = Some (r_spec_id r)))
   \<and> (\<forall>q b. grows owner b (snd (bk_liveness k q b)) \<and>
        (\<forall>rep. fst (bk_liveness k q b) = Inr rep \<longrightarrow>
           list_all (\<lambda>d. owner (snd (bk_liveness k q b)) (r_id d) = Some (r_spec_id d)) (lr_running rep)))
   \<and> (\<forall>i b. grows owner b (snd (bk_stop k i b))) \<and> (\<forall>c b. grows owner b (snd (bk_remove k c b)))
   \<and> (\<forall>r t b. grows owner b (snd (bk_wait k r t b))) \<and> (\<forall>m b. grows owner b (snd (bk_image_created k m b)))
   \<and> (\<forall>s d b. grows owner b (bk_stamp_date k s d b))"

lemma grows_refl [simp]: "grows owner b b"
  by (simp add: grows_def)

lemma grows_trans: "grows owner a b \<Longrightarrow> grows owner b c \<Longrightarrow> grows owner a c"
  unfolding grows_def by (rule map_le_trans)

lemma honest_grows:
  assumes "honest k owner"
  shows "grows owner b (snd (bk_stop k i b))" "grows owner b (snd (bk_remove k c b))"
    "grows owner b (snd (bk_wait k r t b))" "grows owner b (snd (bk_image_created k m b))"
    "grows owner b (bk_stamp_date k s d b)" "grows owner b (snd (bk_spawn k req b))"
    "grows owner b (snd (bk_liveness k q b))"
  using assms by (auto simp: honest_def)

lemma honest_spawn:
  assumes "honest k owner" and "fst (bk_spawn k req b) = Inr r"
  shows "r_spec_id r = sr_spec_id req" "owner b (r_id r) = None" "owner (snd (bk_spawn k req b)) (r_id r) = Some (r_spec_id r)"
  using assms by (auto simp: honest_def)

lemma honest_report:
  "honest k owner \<Longrightarrow> fst (bk_liveness k q b) = Inr rep \<Longrightarrow> d \<in> set (lr_running rep) \<Longrightarrow>
     owner (snd (bk_liveness k q b)) (r_id d) = Some (r_spec_id d)"
  by (auto simp: honest_def list_all_iff)

text \<open>The registry as far as the backend is concerned.\<close>

definition world_ok :: "('b \<Rightarrow> replica_id \<rightharpoonup> string) \<Rightarrow> 'b world \<Rightarrow> bool" where
  "world_ok owner w \<longleftrightarrow> reg_wf (w_reg w) \<and> (\<forall>r \<in> set (reg_all (w_reg w)). owner (w_out w) (r_id r) = Some (r_spec_id r))"

lemma world_ok_wf: "world_ok owner w \<Longrightarrow> reg_wf (w_reg w)"
  by (simp add: world_ok_def)

lemma world_okI:
  "reg_wf (w_reg w') \<Longrightarrow> (\<And>r. r \<in> set (reg_all (w_reg w')) \<Longrightarrow> owner b (r_id r) = Some (r_spec_id r)) \<Longrightarrow>
     grows owner b (w_out w') \<Longrightarrow> world_ok owner w'"
  by (force simp: world_ok_def grows_def map_le_def dom_def)

lemma world_ok_out: "world_ok owner w \<Longrightarrow> w_reg w' = w_reg w \<Longrightarrow> grows owner (w_out w) (w_out w') \<Longrightarrow> world_ok owner w'"
  by (rule world_okI [of w' owner "w_out w"]) (auto simp: world_ok_def)

lemma world_ok_remove:
  "world_ok owner w \<Longrightarrow> w_reg w' = snd (reg_remove i (w_reg w)) \<Longrightarrow> grows owner (w_out w) (w_out w') \<Longrightarrow> world_ok owner w'"
  by (rule world_okI [of w' owner "w_out w"]) (auto simp: world_ok_def reg_wf_remove reg_all_remove)

lemma fresh_id: "world_ok owner w \<Longrightarrow> owner (w_out w) i = None \<Longrightarrow> i \<notin> r_id ` set (reg_all (w_reg w))"
  by (auto simp: world_ok_def)

section \<open>Stopping\<close>

lemma stop_all_step:
  "snd (stop_all k (i # is) (l, w)) =
     snd (stop_all k is (l\<lparr>sl_idle := (sl_idle l)(i := None)\<rparr>, snd (stop_one k i w)))"
  by (simp add: stop_and_forget_def split_beta)

lemma stop_all_frame:
  "sl_sat (fst (snd (stop_all k is (l, w)))) = sl_sat l \<and> sl_cool (fst (snd (stop_all k is (l, w)))) = sl_cool l
   \<and> (\<forall>i. i \<notin> set is \<longrightarrow> sl_idle (fst (snd (stop_all k is (l, w)))) i = sl_idle l i)"
proof (induction "is" arbitrary: l w)
  case (Cons i "is")
  from Cons.IH [of "l\<lparr>sl_idle := (sl_idle l)(i := None)\<rparr>" "snd (stop_one k i w)"] show ?case
    by (simp only: stop_all_step) simp
qed simp

lemma stop_all_pool:
  assumes "reg_wf (w_reg w)"
  shows "reg_wf (w_reg (snd (snd (stop_all k is (l, w)))))
    \<and> replicas_of (w_reg (snd (snd (stop_all k is (l, w))))) s = filter (\<lambda>r. r_id r \<notin> set is) (replicas_of (w_reg w) s)"
  using assms
proof (induction "is" arbitrary: l w)
  case (Cons i "is")
  let ?l = "l\<lparr>sl_idle := (sl_idle l)(i := None)\<rparr>" and ?w = "snd (stop_one k i w)"
  have wf: "reg_wf (w_reg ?w)" using Cons.prems by (simp add: reg_wf_remove)
  have "replicas_of (w_reg ?w) s = filter (\<lambda>r. r_id r \<noteq> i) (replicas_of (w_reg w) s)"
    using rp.pool_remove [OF Cons.prems] by simp
  then have "filter (\<lambda>r. r_id r \<notin> set is) (replicas_of (w_reg ?w) s) = filter (\<lambda>r. r_id r \<notin> set (i # is)) (replicas_of (w_reg w) s)"
    by (auto intro: filter_cong)
  with Cons.IH [OF wf, of ?l] show ?case by (simp only: stop_all_step)
qed simp

lemma stop_all_ok:
  assumes "honest k owner" and "world_ok owner w"
  shows "world_ok owner (snd (snd (stop_all k is (l, w))))"
  using assms(2)
proof (induction "is" arbitrary: l w)
  case (Cons i "is")
  have "world_ok owner (snd (stop_one k i w))"
    by (rule world_ok_remove [OF Cons.prems]) (simp_all add: honest_grows [OF assms(1)])
  with Cons.IH show ?case by (simp only: stop_all_step)
qed simp

section \<open>Spawning\<close>

text \<open>What a spawn for one spec may do.\<close>

definition grown :: "('b \<Rightarrow> replica_id \<rightharpoonup> string) \<Rightarrow> spec \<Rightarrow> 'b world \<Rightarrow> 'b world \<Rightarrow> bool" where
  "grown owner sp w w' \<longleftrightarrow> world_ok owner w' \<and>
     (\<forall>s. s \<noteq> sp_id sp \<longrightarrow> replicas_of (w_reg w') s = replicas_of (w_reg w) s)
     \<and> set (replicas_of (w_reg w) (sp_id sp)) \<subseteq> set (replicas_of (w_reg w') (sp_id sp))
     \<and> length (replicas_of (w_reg w) (sp_id sp)) \<le> length (replicas_of (w_reg w') (sp_id sp))
     \<and> length (replicas_of (w_reg w') (sp_id sp)) \<le> max (length (replicas_of (w_reg w) (sp_id sp))) (unat (effective_max_replicas sp))"

lemma grown_refl: "world_ok owner w \<Longrightarrow> w_reg w' = w_reg w \<Longrightarrow> grows owner (w_out w) (w_out w') \<Longrightarrow> grown owner sp w w'"
  by (simp add: grown_def world_ok_out)

lemma grown_trans: "grown owner sp a b \<Longrightarrow> grown owner sp b c \<Longrightarrow> grown owner sp a c"
  by (auto simp: grown_def)

lemma request_spec: "scaler_request st e base sp = Inr req \<Longrightarrow> sr_spec_id req = sp_id sp"
  by (auto simp: scaler_request_def build_request_fields split: option.splits sum.splits prod.splits)

lemma stamp_out:
  "honest k owner \<Longrightarrow> grows owner (w_out w) (w_out (stamp_image_date k sp img w))"
proof -
  assume h: "honest k owner"
  show ?thesis
    by (auto simp: stamp_image_date_def call_out_eq Let_def honest_grows [OF h] split: prod.splits option.splits
        intro: grows_trans [OF honest_grows(4) [OF h] honest_grows(5) [OF h]])
qed

lemma spawn_one_cases:
  assumes "honest k owner" and "world_ok owner w"
  shows "(w_reg (snd (spawn_one k intent sp w)) = w_reg w \<and> grows owner (w_out w) (w_out (snd (spawn_one k intent sp w))))
    \<or> (\<exists>r. w_reg (snd (spawn_one k intent sp w)) = reg_add r (w_reg w) \<and> r_spec_id r = sp_id sp \<and> fst (spawn_one k intent sp w) = Inr ()
         \<and> owner (w_out w) (r_id r) = None \<and> owner (w_out (snd (spawn_one k intent sp w))) (r_id r) = Some (r_spec_id r)
         \<and> grows owner (w_out w) (w_out (snd (spawn_one k intent sp w)))
         \<and> length (replicas_of (w_reg w) (sp_id sp)) < unat (effective_max_replicas sp))"
proof (cases "(intent = EnsureAvailable \<and> list_ex (\<lambda>r. r_state r = Starting \<or> is_accepting r) (replicas_of (w_reg w) (sp_id sp)))
      \<or> length (replicas_of (w_reg w) (sp_id sp)) \<ge> unat (effective_max_replicas sp)")
  case True
  then have "spawn_one k intent sp w = (Inr (), take_lock (sp_id sp) w)"
    by (auto simp: spawn_one_def Let_def)
  then show ?thesis by simp
next
  case False
  then have go: "spawn_one k intent sp w = (case scaler_request (bk_store k) (bk_environ k) (bk_base_path k) sp of
             Inl e \<Rightarrow> (Inl e, take_lock (sp_id sp) w)
           | Inr req \<Rightarrow>
               (case call_out (bk_spawn k req) (take_lock (sp_id sp) w) of
                  (Inl e, w1) \<Rightarrow> (Inl (''backend spawn: '' @ core_error_text e), w1)
                | (Inr r, w1) \<Rightarrow>
                    (Inr (), stamp_image_date k sp (unwrap_or [] (sp_container_image sp))
                       (w1\<lparr>w_reg := reg_add (r\<lparr>r_sessions_max := effective_seats sp\<rparr>) (w_reg w1)\<rparr>))))"
    by (auto simp: spawn_one_def Let_def)
  show ?thesis
  proof (cases "scaler_request (bk_store k) (bk_environ k) (bk_base_path k) sp")
    case (Inl e)
    with go show ?thesis by simp
  next
    case (Inr req)
    let ?b = "snd (bk_spawn k req (w_out w))"
    show ?thesis
    proof (cases "fst (bk_spawn k req (w_out w))")
      case (Inl e)
      with go Inr show ?thesis by (simp add: call_out_eq honest_grows [OF assms(1)])
    next
      case r: (Inr r)
      let ?w2 = "(take_lock (sp_id sp) w)\<lparr>w_out := ?b, w_reg := reg_add (r\<lparr>r_sessions_max := effective_seats sp\<rparr>) (w_reg w)\<rparr>"
      have sp1: "spawn_one k intent sp w = (Inr (), stamp_image_date k sp (unwrap_or [] (sp_container_image sp)) ?w2)"
        using go Inr r by (simp add: call_out_eq)
      note h = honest_spawn [OF assms(1) r]
      have g2: "grows owner ?b (w_out (stamp_image_date k sp (unwrap_or [] (sp_container_image sp)) ?w2))"
        using stamp_out [OF assms(1), of ?w2 sp] by simp
      have "owner (w_out (stamp_image_date k sp (unwrap_or [] (sp_container_image sp)) ?w2)) (r_id r) = Some (r_spec_id r)"
        using g2 h(3) by (force simp: grows_def map_le_def dom_def)
      moreover have "grows owner (w_out w) (w_out (stamp_image_date k sp (unwrap_or [] (sp_container_image sp)) ?w2))"
        using grows_trans [OF honest_grows(6) [OF assms(1)] g2] .
      ultimately show ?thesis using sp1 h(1,2) request_spec [OF Inr] False
        by (intro disjI2 exI [of _ "r\<lparr>r_sessions_max := effective_seats sp\<rparr>"]) simp
    qed
  qed
qed

lemma spawn_one_grown:
  assumes h: "honest k owner" and ok: "world_ok owner w"
  shows "grown owner sp w (snd (spawn_one k intent sp w))"
  using spawn_one_cases [OF h ok, of intent sp]
proof (elim disjE exE conjE)
  fix r assume reg: "w_reg (snd (spawn_one k intent sp w)) = reg_add r (w_reg w)" and s: "r_spec_id r = sp_id sp"
    and n: "owner (w_out w) (r_id r) = None"
    and o': "owner (w_out (snd (spawn_one k intent sp w))) (r_id r) = Some (r_spec_id r)"
    and g: "grows owner (w_out w) (w_out (snd (spawn_one k intent sp w)))"
    and lt: "length (replicas_of (w_reg w) (sp_id sp)) < unat (effective_max_replicas sp)"
  have set_add: "x = r \<or> x \<in> set (reg_all (w_reg w))" if "x \<in> set (reg_all (reg_add r (w_reg w)))" for x
    using that reg_all_add_mset [of r "w_reg w"] by (metis insert_iff set_mset_add_mset_insert set_mset_mset)
  have "world_ok owner (snd (spawn_one k intent sp w))"
  proof (rule world_okI [OF _ _ grows_refl])
    show "reg_wf (w_reg (snd (spawn_one k intent sp w)))"
      unfolding reg by (rule reg_wf_add [OF world_ok_wf [OF ok] fresh_id [OF ok n]])
    fix x assume "x \<in> set (reg_all (w_reg (snd (spawn_one k intent sp w))))"
    with set_add [of x] reg consider "x = r" | "x \<in> set (reg_all (w_reg w))" by auto
    then show "owner (w_out (snd (spawn_one k intent sp w))) (r_id x) = Some (r_spec_id x)"
    proof cases
      case 2
      with ok have "owner (w_out w) (r_id x) = Some (r_spec_id x)" by (simp add: world_ok_def)
      with g show ?thesis by (force simp: grows_def map_le_def dom_def)
    qed (simp add: o')
  qed
  then show ?thesis using lt s by (auto simp: grown_def reg)
qed (use ok in \<open>auto intro: grown_refl\<close>)

lemma grown_same:
  "grown owner sp w w' \<Longrightarrow> w_reg w'' = w_reg w' \<Longrightarrow> w_out w'' = w_out w' \<Longrightarrow> grown owner sp w w''"
  by (simp add: grown_def world_ok_def)

lemma spawn_up_to_grown: "honest k owner \<Longrightarrow> world_ok owner w \<Longrightarrow> grown owner sp w (spawn_up_to k sp n w)"
proof (induction n arbitrary: w)
  case (Suc n)
  obtain res w1 where s: "spawn_one k AddCapacity sp w = (res, w1)" by fastforce
  from spawn_one_grown [OF Suc.prems, of sp AddCapacity] s have g: "grown owner sp w w1" by simp
  show ?case
  proof (cases res)
    case (Inl e)
    with s g show ?thesis by (auto intro: grown_same)
  next
    case (Inr u)
    let ?w = "w1\<lparr>w_failures := fail_clear (sp_id sp) (w_failures w1)\<rparr>"
    have g': "grown owner sp w ?w" by (rule grown_same [OF g]) simp_all
    then have "world_ok owner ?w" by (simp add: grown_def)
    from grown_trans [OF g' Suc.IH [OF Suc.prems(1) this]] s Inr show ?thesis by simp
  qed
qed (auto intro: grown_refl)

lemma saturated_grown:
  "honest k owner \<Longrightarrow> world_ok owner w \<Longrightarrow> grown owner sp w (snd (saturated_step k tp cooling sp (l, w)))"
proof -
  assume a: "honest k owner" "world_ok owner w"
  obtain res w1 where s: "spawn_one k AddCapacity sp w = (res, w1)" by fastforce
  from spawn_one_grown [OF a, of sp AddCapacity] s have g: "grown owner sp w w1" by simp
  have r: "grown owner sp w w" by (rule grown_refl [OF a(2)]) simp_all
  show ?thesis
    using s g r by (auto simp: saturated_step_def Let_def split: sum.split intro: grown_same)
qed

section \<open>One spec\<close>

lemma load_pool_ids: "map r_id (load_pool sp w) = map r_id (replicas_of (w_reg w) (sp_id sp))"
  by (simp add: load_pool_def overlay_request_capacity_def comp_def)

lemma load_pool_length: "length (load_pool sp w) = length (replicas_of (w_reg w) (sp_id sp))"
  by (simp add: load_pool_def overlay_request_capacity_def)

lemma length_filter_notin:
  "distinct (map f xs) \<Longrightarrow> length xs \<le> length (filter (\<lambda>x. f x \<notin> set is) xs) + length is"
proof -
  assume d: "distinct (map f xs)"
  have "length (filter (\<lambda>x. f x \<in> set is) xs) = card (f ` set (filter (\<lambda>x. f x \<in> set is) xs))"
    using d by (metis distinct_card distinct_map_filter length_map set_map)
  also have "\<dots> \<le> card (set is)" by (rule card_mono) auto
  also have "\<dots> \<le> length is" by (rule card_length)
  finally show ?thesis using sum_length_filter_compl [of "\<lambda>x. f x \<in> set is" xs] by simp
qed

definition reaped :: "'b outside \<Rightarrow> spec \<Rightarrow> 'b tick_state \<Rightarrow> 'b tick_state" where
  "reaped k sp s = (case s of (l, w) \<Rightarrow>
     snd (stop_all k (aged_replicas k sp w) (l\<lparr>sl_cool := snd (cool_step (sp_id sp) (sl_cool l))\<rparr>, w)))"

definition dropped :: "tick_params \<Rightarrow> spec \<Rightarrow> 'b tick_state \<Rightarrow> replica_id list" where
  "dropped tp sp s = (case s of (l, w) \<Rightarrow> drop_candidates tp sp (sl_idle l) (load_pool sp w))"

text \<open>A tick either leaves the spec alone, or reaps and then grows the pool, or reaps and then drops.\<close>

lemma alert_saturated_simps [simp]:
  "w_reg (alert_saturated k sp snap w) = w_reg w" "w_out (alert_saturated k sp snap w) = w_out w"
  by (simp_all add: alert_saturated_def Let_def)

lemma drop_candidates_le:
  "length (drop_candidates tp sp idle snap) \<le> length snap - unat (effective_min_replicas sp)"
  by (simp add: drop_candidates_def Let_def)

lemma drop_candidates_mem:
  "i \<in> set (drop_candidates tp sp idle snap) \<Longrightarrow>
     \<exists>r \<in> set snap. r_id r = i \<and> r_sessions_active r = 0 \<and> tick_of idle i \<ge> drop_grace tp sp"
  by (auto simp: drop_candidates_def Let_def dest!: in_set_takeD split: if_splits)

lemma tick_spec_cases:
  obtains (skip) "snd (tick_spec k tp s sp) = snd s" "spec_kind_of sp = External \<or> sp_container_image sp = None"
  | (refill) "length (load_pool sp (snd (reaped k sp s))) < unat (effective_min_replicas sp)"
      "snd (tick_spec k tp s sp) = spawn_up_to k sp (unat (effective_min_replicas sp)
         - length (load_pool sp (snd (reaped k sp s)))) (snd (reaped k sp s))"
      "spec_kind_of sp \<noteq> External" "sp_container_image sp \<noteq> None"
  | (hot) "\<not> length (load_pool sp (snd (reaped k sp s))) < unat (effective_min_replicas sp)"
      "tick_spec k tp s sp = saturated_step k tp (tick_of (sl_cool (fst s)) (sp_id sp) > 0) sp (reaped k sp s)"
      "length (load_pool sp (snd (reaped k sp s))) < unat (effective_max_replicas sp)"
  | (calm) "\<not> length (load_pool sp (snd (reaped k sp s))) < unat (effective_min_replicas sp)"
      "tick_spec k tp s sp = scale_down_step k tp sp (load_pool sp (snd (reaped k sp s)))
         ((fst (reaped k sp s))\<lparr>sl_sat := (sl_sat (fst (reaped k sp s)))(sp_id sp := None)\<rparr>,
          alert_saturated k sp (load_pool sp (snd (reaped k sp s))) (snd (reaped k sp s)))"
proof -
  obtain l w where s: "s = (l, w)" by (cases s)
  obtain l1 w1 where r: "reaped k sp s = (l1, w1)" by (cases "reaped k sp s")
  obtain cooling cool where c: "cool_step (sp_id sp) (sl_cool l) = (cooling, cool)" by fastforce
  then have cooling: "cooling \<longleftrightarrow> tick_of (sl_cool l) (sp_id sp) > 0" by (simp add: cool_step_def)
  obtain b where sa: "stop_all k (aged_replicas k sp w) (l\<lparr>sl_cool := cool\<rparr>, w) = (b, l1, w1)"
    using r by (cases "stop_all k (aged_replicas k sp w) (l\<lparr>sl_cool := cool\<rparr>, w)") (simp add: reaped_def s c)
  show ?thesis
  proof (cases "spec_kind_of sp = External \<or> sp_container_image sp = None")
    case True
    then show ?thesis by (intro skip) (simp_all add: tick_spec_def s)
  next
    case False
    have t: "tick_spec k tp s sp = (let snap = load_pool sp w1; count = length snap;
              mn = unat (effective_min_replicas sp); mx = unat (effective_max_replicas sp);
              hot = scale_up_triggered snap (effective_scale_up_threshold sp);
              calm = l1\<lparr>sl_sat := (sl_sat l1)(sp_id sp := None)\<rparr>
          in if count < mn then (calm, spawn_up_to k sp (mn - count) w1)
             else if count < mx \<and> hot then saturated_step k tp cooling sp (l1, w1)
             else scale_down_step k tp sp snap (calm, alert_saturated k sp snap w1))"
      by (simp only: tick_spec_def s c sa prod.case False if_False)
    consider "length (load_pool sp w1) < unat (effective_min_replicas sp)"
      | "\<not> length (load_pool sp w1) < unat (effective_min_replicas sp)"
        "length (load_pool sp w1) < unat (effective_max_replicas sp) \<and> scale_up_triggered (load_pool sp w1) (effective_scale_up_threshold sp)"
      | "\<not> length (load_pool sp w1) < unat (effective_min_replicas sp)"
        "\<not> (length (load_pool sp w1) < unat (effective_max_replicas sp) \<and> scale_up_triggered (load_pool sp w1) (effective_scale_up_threshold sp))"
      by blast
    then show ?thesis
    proof cases
      case 1
      with t False r show ?thesis by (intro refill) (auto simp: Let_def)
    next
      case 2
      with t r cooling s show ?thesis by (intro hot) (auto simp: Let_def)
    next
      case 3
      then have "tick_spec k tp s sp = scale_down_step k tp sp (load_pool sp w1)
          (l1\<lparr>sl_sat := (sl_sat l1)(sp_id sp := None)\<rparr>, alert_saturated k sp (load_pool sp w1) w1)"
        unfolding t Let_def by (simp only: 3 if_False)
      with 3 r show ?thesis by (intro calm) simp_all
    qed
  qed
qed

lemma reaped_pool:
  assumes "reg_wf (w_reg w)"
  shows "replicas_of (w_reg (snd (reaped k sp (l, w)))) s =
      filter (\<lambda>r. r_id r \<notin> set (aged_replicas k sp w)) (replicas_of (w_reg w) s)"
  using stop_all_pool [OF assms] by (simp add: reaped_def)

lemma reaped_ok: "honest k owner \<Longrightarrow> world_ok owner w \<Longrightarrow> world_ok owner (snd (reaped k sp (l, w)))"
  using stop_all_ok by (simp add: reaped_def)

lemma pool_ids_other:
  assumes "reg_wf g" and "set is \<subseteq> r_id ` set (replicas_of g s)" and "s' \<noteq> s"
  shows "filter (\<lambda>r. r_id r \<notin> set is) (replicas_of g s') = replicas_of g s'"
proof (rule filter_True, rule ballI, rule notI)
  fix r assume r: "r \<in> set (replicas_of g s')" "r_id r \<in> set is"
  with assms(2) obtain x where x: "x \<in> set (replicas_of g s)" "r_id x = r_id r" by auto
  then have "x = r" using rp.pool_id [OF assms(1) x(1) r(1)] by simp
  with rp.pool_spec [OF assms(1)] x(1) r(1) assms(3) show False by metis
qed

lemma aged_ids: "set (aged_replicas k sp w) \<subseteq> r_id ` set (replicas_of (w_reg w) (sp_id sp))"
proof -
  have "set (aged_replicas k sp w) \<subseteq> set (map r_id (load_pool sp w))"
    by (auto simp: aged_replicas_def lifetime_reap_candidates_def)
  then show ?thesis unfolding load_pool_ids by simp
qed

lemma drop_ids: "set (drop_candidates tp sp idle (load_pool sp w)) \<subseteq> r_id ` set (replicas_of (w_reg w) (sp_id sp))"
proof -
  have "set (drop_candidates tp sp idle (load_pool sp w)) \<subseteq> set (map r_id (load_pool sp w))"
    by (auto dest!: drop_candidates_mem)
  then show ?thesis unfolding load_pool_ids by simp
qed

lemma scale_down_world:
  "snd (scale_down_step k tp sp snap (l, w)) =
     (if length snap > unat (effective_min_replicas sp)
      then snd (snd (stop_all k (drop_candidates tp sp (sl_idle l) snap) (l, w))) else w)"
  by (simp add: scale_down_step_def Let_def split: prod.split)

text \<open>Everything a tick does to the pools.\<close>

definition tick_bound :: "('b \<Rightarrow> replica_id \<rightharpoonup> string) \<Rightarrow> spec \<Rightarrow> 'b world \<Rightarrow> 'b world \<Rightarrow> bool" where
  "tick_bound owner sp w w' \<longleftrightarrow> world_ok owner w' \<and>
     (\<forall>s. s \<noteq> sp_id sp \<longrightarrow> replicas_of (w_reg w') s = replicas_of (w_reg w) s)
     \<and> length (replicas_of (w_reg w') (sp_id sp)) \<le> max (length (replicas_of (w_reg w) (sp_id sp))) (unat (effective_max_replicas sp))"

lemma tick_spec_bound:
  assumes h: "honest k owner" and ok: "world_ok owner w"
  shows "tick_bound owner sp w (snd (tick_spec k tp (l, w) sp))
    \<and> (spec_kind_of sp \<noteq> External \<and> sp_container_image sp \<noteq> None \<longrightarrow>
        min (unat (effective_min_replicas sp)) (length (replicas_of (w_reg (snd (reaped k sp (l, w)))) (sp_id sp)))
          \<le> length (replicas_of (w_reg (snd (tick_spec k tp (l, w) sp))) (sp_id sp)))"
proof -
  let ?w1 = "snd (reaped k sp (l, w))" and ?l1 = "fst (reaped k sp (l, w))"
  note wf = world_ok_wf [OF ok]
  have ok1: "world_ok owner ?w1" by (rule reaped_ok [OF h ok])
  note wf1 = world_ok_wf [OF ok1]
  have other: "replicas_of (w_reg ?w1) s = replicas_of (w_reg w) s" if "s \<noteq> sp_id sp" for s
    unfolding reaped_pool [OF wf] by (rule pool_ids_other [OF wf aged_ids that])
  have le: "length (replicas_of (w_reg ?w1) (sp_id sp)) \<le> length (replicas_of (w_reg w) (sp_id sp))"
    unfolding reaped_pool [OF wf] by simp
  have grow: ?thesis if "grown owner sp ?w1 (snd (tick_spec k tp (l, w) sp))"
    using that other le by (auto simp: grown_def tick_bound_def)
  show ?thesis
  proof (cases rule: tick_spec_cases [of k tp "(l, w)" sp])
    case skip
    with ok show ?thesis by (auto simp: tick_bound_def)
  next
    case refill
    show ?thesis by (rule grow) (simp only: refill(2) spawn_up_to_grown [OF h ok1])
  next
    case hot
    have "grown owner sp ?w1 (snd (saturated_step k tp (tick_of (sl_cool l) (sp_id sp) > 0) sp (?l1, ?w1)))"
      by (rule saturated_grown [OF h ok1])
    then show ?thesis using hot(2) by (intro grow) simp
  next
    case calm
    let ?snap = "load_pool sp ?w1" and ?wa = "alert_saturated k sp (load_pool sp ?w1) ?w1"
    let ?is = "drop_candidates tp sp (sl_idle ?l1) ?snap" and ?w2 = "snd (tick_spec k tp (l, w) sp)"
    have oka: "world_ok owner ?wa" by (rule world_ok_out [OF ok1]) simp_all
    have w2: "?w2 = (if length ?snap > unat (effective_min_replicas sp)
        then snd (snd (stop_all k ?is (?l1\<lparr>sl_sat := (sl_sat ?l1)(sp_id sp := None)\<rparr>, ?wa))) else ?wa)"
      by (simp only: calm(2) scale_down_world) simp
    show ?thesis
    proof (cases "length ?snap > unat (effective_min_replicas sp)")
      case False
      with w2 oka other le show ?thesis by (simp add: tick_bound_def)
    next
      case True
      have pool: "replicas_of (w_reg ?w2) s = filter (\<lambda>r. r_id r \<notin> set ?is) (replicas_of (w_reg ?w1) s)" for s
        using stop_all_pool [OF world_ok_wf [OF oka], of k ?is] w2 True by simp
      have "replicas_of (w_reg ?w2) s = replicas_of (w_reg w) s" if "s \<noteq> sp_id sp" for s
        unfolding pool pool_ids_other [OF wf1 drop_ids that] by (rule other [OF that])
      moreover have "world_ok owner ?w2" using w2 True stop_all_ok [OF h oka] by simp
      moreover have "length (replicas_of (w_reg ?w2) (sp_id sp)) \<le> length (replicas_of (w_reg ?w1) (sp_id sp))"
        unfolding pool by simp
      moreover have "unat (effective_min_replicas sp) \<le> length (replicas_of (w_reg ?w2) (sp_id sp))"
      proof -
        have "length (replicas_of (w_reg ?w1) (sp_id sp)) \<le> length (replicas_of (w_reg ?w2) (sp_id sp)) + length ?is"
          unfolding pool by (rule length_filter_notin [OF rp.pool_distinct [OF wf1]])
        moreover have "length ?is \<le> length (replicas_of (w_reg ?w1) (sp_id sp)) - unat (effective_min_replicas sp)"
          using drop_candidates_le [of tp sp "sl_idle ?l1" ?snap] by (simp only: load_pool_length)
        ultimately show ?thesis using True unfolding load_pool_length by linarith
      qed
      ultimately show ?thesis using le by (auto simp: tick_bound_def)
    qed
  qed
qed

lemma tick_spec_removes:
  assumes h: "honest k owner" and ok: "world_ok owner w"
    and r: "r \<in> set (replicas_of (w_reg w) (sp_id sp))"
    and gone: "r \<notin> set (replicas_of (w_reg (snd (tick_spec k tp (l, w) sp))) (sp_id sp))"
  shows "r_id r \<in> set (aged_replicas k sp w) \<or>
    (r_id r \<in> set (dropped tp sp (reaped k sp (l, w)))
     \<and> length (replicas_of (w_reg (snd (reaped k sp (l, w)))) (sp_id sp)) > unat (effective_min_replicas sp))"
proof (rule ccontr)
  assume n: "\<not> ?thesis"
  let ?w1 = "snd (reaped k sp (l, w))" and ?l1 = "fst (reaped k sp (l, w))"
  have ok1: "world_ok owner ?w1" by (rule reaped_ok [OF h ok])
  have r1: "r \<in> set (replicas_of (w_reg ?w1) (sp_id sp))"
    using r n by (simp add: reaped_pool [OF world_ok_wf [OF ok]])
  have grow: False if "grown owner sp ?w1 (snd (tick_spec k tp (l, w) sp))"
    using that r1 gone by (auto simp: grown_def)
  show False
  proof (cases rule: tick_spec_cases [of k tp "(l, w)" sp])
    case skip
    with r gone show False by simp
  next
    case refill
    show False by (rule grow) (simp only: refill(2) spawn_up_to_grown [OF h ok1])
  next
    case hot
    have "grown owner sp ?w1 (snd (saturated_step k tp (tick_of (sl_cool l) (sp_id sp) > 0) sp (?l1, ?w1)))"
      by (rule saturated_grown [OF h ok1])
    then show False using hot(2) by (intro grow) simp
  next
    case calm
    let ?wa = "alert_saturated k sp (load_pool sp ?w1) ?w1"
    have oka: "world_ok owner ?wa" by (rule world_ok_out [OF ok1]) simp_all
    have d: "dropped tp sp (reaped k sp (l, w)) = drop_candidates tp sp (sl_idle ?l1) (load_pool sp ?w1)"
      by (simp add: dropped_def split_beta)
    show False
    proof (cases "length (load_pool sp ?w1) > unat (effective_min_replicas sp)")
      case True
      with n d have "r_id r \<notin> set (drop_candidates tp sp (sl_idle ?l1) (load_pool sp ?w1))"
        by (simp add: load_pool_length)
      with r1 gone True stop_all_pool [OF world_ok_wf [OF oka], of k] show False
        unfolding calm(2) scale_down_world by simp
    next
      case False
      with r1 gone show False unfolding calm(2) scale_down_world by simp
    qed
  qed
qed

section \<open>A pass over every spec\<close>

definition all_capped :: "spec list \<Rightarrow> 'b world \<Rightarrow> bool" where
  "all_capped specs w \<longleftrightarrow> list_all (\<lambda>sp. length (replicas_of (w_reg w) (sp_id sp)) \<le> unat (effective_max_replicas sp)) specs"

lemma tick_all_bound:
  assumes h: "honest k owner" and ok: "world_ok owner (snd s)" and "all_capped specs (snd s)"
    and d: "distinct (map sp_id specs)" and sub: "set ticked \<subseteq> set specs"
  shows "world_ok owner (snd (foldl (tick_spec k tp) s ticked)) \<and> all_capped specs (snd (foldl (tick_spec k tp) s ticked))"
  using ok assms(3) sub
proof (induction ticked arbitrary: s)
  case (Cons sp ticked)
  obtain l w where s: "s = (l, w)" by (cases s)
  let ?w = "snd (tick_spec k tp (l, w) sp)"
  have b: "tick_bound owner sp w ?w" using tick_spec_bound [OF h, of w sp tp l] Cons.prems(1) s by simp
  have "all_capped specs ?w"
    unfolding all_capped_def list_all_iff
  proof
    fix x assume x: "x \<in> set specs"
    with Cons.prems(2) s have old: "length (replicas_of (w_reg w) (sp_id x)) \<le> unat (effective_max_replicas x)"
      by (simp add: all_capped_def list_all_iff)
    show "length (replicas_of (w_reg ?w) (sp_id x)) \<le> unat (effective_max_replicas x)"
    proof (cases "sp_id x = sp_id sp")
      case True
      with x Cons.prems(3) d have "x = sp" by (metis distinct_map inj_onD list.set_intros(1) subset_iff)
      with b old show ?thesis by (auto simp: tick_bound_def)
    next
      case False
      with b old show ?thesis by (simp add: tick_bound_def)
    qed
  qed
  with Cons.IH [of "tick_spec k tp s sp"] Cons.prems(3) b s show ?case by (simp add: tick_bound_def)
qed simp

lemma collect_stale_world:
  "w_reg (snd (collect_stale specs s)) = w_reg (snd s)" "w_out (snd (collect_stale specs s)) = w_out (snd s)"
  by (simp_all add: collect_stale_def Let_def split_beta)

lemma world_ok_reg: "w_reg w' = w_reg w \<Longrightarrow> w_out w' = w_out w \<Longrightarrow> world_ok owner w' = world_ok owner w"
  by (simp add: world_ok_def)

section \<open>The reconciliation under the contract\<close>

text \<open>What every step of a reconciliation keeps: the registry's agreement with the backend, the outside
  only moving forward.\<close>

definition ok_from :: "('b \<Rightarrow> replica_id \<rightharpoonup> string) \<Rightarrow> 'b \<Rightarrow> 'b world \<Rightarrow> bool" where
  "ok_from owner b w \<longleftrightarrow> world_ok owner w \<and> grows owner b (w_out w)"

lemma ok_from_step: "ok_from owner b w \<Longrightarrow> world_ok owner w' \<Longrightarrow> grows owner (w_out w) (w_out w') \<Longrightarrow> ok_from owner b w'"
  by (auto simp: ok_from_def intro: grows_trans)

lemma ok_from_prune: "ok_from owner b w \<Longrightarrow> ok_from owner b (prune_dead_replica k r reason w)"
  by (rule ok_from_step) (auto simp: ok_from_def intro: world_ok_remove)

lemma ok_from_call: "ok_from owner b w \<Longrightarrow> (\<And>b. grows owner b (snd (f b))) \<Longrightarrow> ok_from owner b (snd (call_out f w))"
  by (rule ok_from_step) (auto simp: ok_from_def call_out_eq intro: world_ok_out)

lemma ok_from_mark:
  assumes ok: "ok_from owner b w"
  shows "ok_from owner b (mark_restart_detected r now w)"
proof (rule ok_from_step [OF ok])
  have wf: "reg_wf (w_reg w)" using ok by (simp add: ok_from_def world_ok_def)
  show "world_ok owner (mark_restart_detected r now w)"
  proof (rule world_okI [OF _ _ grows_refl])
    show "reg_wf (w_reg (mark_restart_detected r now w))"
      unfolding mark_simps by (rule reg_wf_update [OF wf]) simp
    fix x assume "x \<in> set (reg_all (w_reg (mark_restart_detected r now w)))"
    then obtain y where "y \<in> set (reg_all (w_reg w))" "x = on_id (r_id r) (restarted now) y"
      unfolding mark_simps reg_all_update [OF wf] by auto
    with ok show "owner (w_out (mark_restart_detected r now w)) (r_id x) = Some (r_spec_id x)"
      by (auto simp: ok_from_def world_ok_def)
  qed
  show "grows owner (w_out w) (w_out (mark_restart_detected r now w))" by simp
qed

lemma reg_all_upsert: "reg_wf g \<Longrightarrow> x \<in> set (reg_all (reg_upsert r g)) \<Longrightarrow> x = r \<or> x \<in> set (reg_all g)"
proof -
  assume wf: "reg_wf g" and x: "x \<in> set (reg_all (reg_upsert r g))"
  have "mset (reg_all (reg_upsert r g)) = add_mset r (mset (reg_all (snd (reg_remove (r_id r) g))))"
    unfolding upsert_eq by (rule reg_all_add_mset)
  with x have "x = r \<or> x \<in> set (reg_all (snd (reg_remove (r_id r) g)))"
    by (metis insert_iff set_mset_add_mset_insert set_mset_mset)
  then show ?thesis unfolding reg_all_remove [OF wf] by auto
qed

lemma readopt_out: "honest k owner \<Longrightarrow> grows owner (w_out w) (w_out (readopt_running_replica k sp d w))"
proof -
  assume h: "honest k owner"
  show ?thesis
    by (auto simp: readopt_running_replica_def Let_def call_out_eq honest_grows [OF h]
        intro: grows_trans [OF honest_grows(3) [OF h] honest_grows(1) [OF h]] split: sum.split)
qed

lemma ok_from_readopt:
  assumes h: "honest k owner" and ok: "ok_from owner b w" and own: "owner b (r_id d) = Some (r_spec_id d)"
  shows "ok_from owner b (readopt_running_replica k sp d w)"
proof (rule ok_from_step [OF ok _ readopt_out [OF h]])
  let ?w' = "readopt_running_replica k sp d w"
  have wok: "world_ok owner w" and gb: "grows owner b (w_out w)" using ok by (simp_all add: ok_from_def)
  note wf = world_ok_wf [OF wok]
  have d: "owner (w_out w) (r_id d) = Some (r_spec_id d)"
    using gb own by (force simp: grows_def map_le_def dom_def)
  show "world_ok owner ?w'"
  proof (rule world_okI [OF readopt_wf [OF wf] _ readopt_out [OF h]])
    fix x assume x: "x \<in> set (reg_all (w_reg ?w'))"
    consider "w_reg ?w' = w_reg w" | "w_reg ?w' = snd (reg_remove (r_id d) (w_reg w))"
      | "w_reg ?w' = reg_upsert (adopted sp d) (w_reg w)" using readopt_reg [of k sp d w] by blast
    then have "x = adopted sp d \<or> x \<in> set (reg_all (w_reg w))"
      using x reg_all_upsert [OF wf] by cases (auto simp: reg_all_remove [OF wf])
    with d wok show "owner (w_out w) (r_id x) = Some (r_spec_id x)" by (auto simp: world_ok_def)
  qed
qed

definition owned_rows :: "('b \<Rightarrow> replica_id \<rightharpoonup> string) \<Rightarrow> 'b \<Rightarrow> running_table \<Rightarrow> bool" where
  "owned_rows owner b t \<longleftrightarrow> (\<forall>(i, d) \<in> set t. owner b (r_id d) = Some (r_spec_id d))"

lemma ok_from_known:
  assumes h: "honest k owner" and ok: "ok_from owner b w" and rows: "owned_rows owner b running"
  shows "ok_from owner b (snd (reconcile_known k specs rep now (running, w) r))"
proof -
  have re: "ok_from owner b (readopt_running_replica k sp d w)" if "table_get running (r_id r) = Some d" for sp d
    using that rows by (intro ok_from_readopt [OF h ok]) (auto simp: owned_rows_def dest!: table_get_key)
  have st: "ok_from owner b (snd (call_out (bk_stop k i) w))" for i
    by (rule ok_from_call [OF ok honest_grows(1) [OF h]])
  show ?thesis using ok re
    by (auto simp: reconcile_known_def Let_def st ok_from_prune ok_from_mark split: liveness.split option.split)
qed

lemma ok_from_known_all:
  assumes h: "honest k owner" and "ok_from owner b w" and "owned_rows owner b running"
  shows "ok_from owner b (snd (foldl (reconcile_known k specs rep now) (running, w) snap))
    \<and> owned_rows owner b (fst (foldl (reconcile_known k specs rep now) (running, w) snap))"
  using assms(2,3)
proof (induction snap arbitrary: running w)
  case (Cons r snap)
  obtain running' w' where step: "reconcile_known k specs rep now (running, w) r = (running', w')" by fastforce
  have "set running' \<subseteq> set running"
    using reconcile_known_running [of k specs rep now running w r] step running_sub [of "r_id r" running] by auto
  then have "owned_rows owner b running'" using Cons.prems(2) by (auto simp: owned_rows_def)
  with Cons.IH ok_from_known [OF h Cons.prems, of specs rep now r] step show ?case by simp
qed simp

lemma ok_from_discovered:
  assumes h: "honest k owner" and "ok_from owner b w" and "\<forall>d \<in> set ds. owner b (r_id d) = Some (r_spec_id d)"
  shows "ok_from owner b (foldl (reconcile_discovered k specs) w ds)"
  using assms(2,3)
proof (induction ds arbitrary: w)
  case (Cons d ds)
  then have "ok_from owner b (reconcile_discovered k specs w d)"
    by (auto simp: reconcile_discovered_def intro: ok_from_readopt [OF h] split: option.split)
  with Cons show ?case by simp
qed simp

lemma ok_from_reap:
  "honest k owner \<Longrightarrow> ok_from owner b w \<Longrightarrow> ok_from owner b (foldl (reap_orphan k regd now) w cs)"
proof (induction cs arbitrary: w)
  case (Cons c cs)
  have "ok_from owner b (reap_orphan k regd now w c)"
    using Cons.prems ok_from_call [OF Cons.prems(2) honest_grows(2) [OF Cons.prems(1)]]
    by (auto simp: reap_orphan_def split: option.split)
  with Cons show ?case by simp
qed simp

lemma ok_from_reconcile:
  assumes h: "honest k owner" and ok: "world_ok owner w"
    and own: "\<forall>d \<in> set (lr_running rep). owner (w_out w) (r_id d) = Some (r_spec_id d)"
  shows "world_ok owner (reconcile_backend_liveness k specs snap rep now w)"
proof -
  let ?b = "w_out w"
  obtain running w1 where f: "foldl (reconcile_known k specs rep now) (running_of rep, w) snap = (running, w1)"
    by fastforce
  have "ok_from owner ?b w" using ok by (simp add: ok_from_def)
  moreover have "owned_rows owner ?b (running_of rep)"
    using own running_of_mem by (fastforce simp: owned_rows_def)
  ultimately have 1: "ok_from owner ?b w1" "owned_rows owner ?b running"
    using ok_from_known_all [OF h, of ?b w "running_of rep" specs rep now snap] f by simp_all
  from 1(2) have "\<forall>d \<in> set (map snd running). owner ?b (r_id d) = Some (r_spec_id d)"
    by (auto simp: owned_rows_def)
  from ok_from_reap [OF h ok_from_discovered [OF h 1(1) this]] show ?thesis
    using f by (simp add: reconcile_backend_liveness_def Let_def ok_from_def)
qed

lemma snapshot_mem: "r \<in> set (snapshot specs g) \<Longrightarrow> r \<in> set (reg_all g)"
  by (auto simp: snapshot_def dest: replicas_of_in_all)

lemma pass_ok:
  assumes h: "honest k owner" and ok: "world_ok owner w" and cap: "all_capped specs w" and d: "distinct (map sp_id specs)"
  shows "world_ok owner (reconcile_pass k specs (snapshot specs (w_reg w)) w)
    \<and> all_capped specs (reconcile_pass k specs (snapshot specs (w_reg w)) w)"
proof -
  let ?snap = "snapshot specs (w_reg w)" and ?q = "map query_of (snapshot specs (w_reg w))"
  let ?w1 = "w\<lparr>w_out := snd (bk_liveness k ?q (w_out w))\<rparr>"
  have ok1: "world_ok owner ?w1" by (rule world_ok_out [OF ok]) (simp_all add: honest_grows [OF h])
  show ?thesis
  proof (cases "fst (bk_liveness k ?q (w_out w))")
    case (Inl e)
    with ok1 cap show ?thesis by (simp add: reconcile_pass_def call_out_eq all_capped_def)
  next
    case (Inr rep)
    let ?w2 = "reconcile_backend_liveness k specs ?snap rep (bk_now k (w_out ?w1)) ?w1"
    have w2: "reconcile_pass k specs ?snap w = ?w2" using Inr by (simp add: reconcile_pass_def call_out_eq)
    have own: "\<forall>d \<in> set (lr_running rep). owner (w_out ?w1) (r_id d) = Some (r_spec_id d)"
      using honest_report [OF h Inr] by simp
    have lab: "labels_agree ?snap rep"
    proof -
      have "r_spec_id d = r_spec_id r" if "r \<in> set ?snap" "d \<in> set (lr_running rep)" "r_id d = r_id r" for r d
      proof -
        have "owner (w_out ?w1) (r_id r) = Some (r_spec_id r)"
          using ok1 snapshot_mem [OF that(1)] by (simp add: world_ok_def)
        with own that show ?thesis by fastforce
      qed
      then show ?thesis by (auto simp: labels_agree_def list_all_iff)
    qed
    have "length (replicas_of (w_reg ?w2) (sp_id sp)) \<le> unat (effective_max_replicas sp)" if sp: "sp \<in> set specs" for sp
    proof -
      obtain sp' where f: "spec_named specs (sp_id sp) = Some sp'"
        using sp by (cases "spec_named specs (sp_id sp)") (auto simp: spec_named_def find_None_iff')
      then have "sp' \<in> set specs" "sp_id sp' = sp_id sp" by (auto simp: spec_named_def dest: find_Some_mem)
      with sp d have "sp' = sp" by (metis distinct_map inj_onD)
      with f have "spec_named specs (sp_id sp) = Some sp" by simp
      moreover have "capped (sp_id sp) (unat (effective_max_replicas sp)) ?w1"
        using cap sp world_ok_wf [OF ok1] by (simp add: capped_def all_capped_def list_all_iff)
      ultimately have "capped (sp_id sp) (unat (effective_max_replicas sp)) ?w2"
        by (intro capped_reconcile [OF _ _ order_refl lab])
      then show ?thesis by (simp only: capped_def)
    qed
    then have "all_capped specs ?w2" by (simp add: all_capped_def list_all_iff)
    with ok_from_reconcile [OF h ok1 own] w2 show ?thesis by simp
  qed
qed

end
