(* ===== verification/Scaler_Promises.thy ===== *)
theory Scaler_Promises
  imports Scaler_Bounds
begin

text \<open>
  The promises of the auto-scaler, over any backend that keeps the contract of \<open>Scaler_Bounds\<close>: the
  replica limit, who may be taken away, the cooldown after a scale-down and the refill to the minimum.
  A small backend that keeps the contract shows each promise at work.
\<close>

section \<open>A backend that keeps its word\<close>

text \<open>It numbers its containers and remembers the spec of each.\<close>

definition roster_owner :: "string list \<Rightarrow> replica_id \<rightharpoonup> string" where
  "roster_owner b i = (if unat i < length b then Some (b ! unat i) else None)"

definition roster_outside :: "string list outside" where
  "roster_outside = \<lparr>bk_now = (\<lambda>_. 100 * nanos), bk_instant = (\<lambda>_. 0), bk_stop = (\<lambda>_ b. (Inr (), b)),
     bk_spawn = (\<lambda>req b. if length b < 1000 then
        (Inr \<lparr>r_id = of_nat (length b), r_spec_id = sr_spec_id req, r_container_id = sr_spec_id req,
           r_upstream = [], r_state = Ready, r_started_at = 0, r_sessions_active = 0, r_sessions_max = 1, r_host = None\<rparr>,
         b @ [sr_spec_id req]) else (Inl (Backend ''full''), b)),
     bk_wait = (\<lambda>_ _ b. (Inr (), b)), bk_remove = (\<lambda>_ b. (Inr (), b)),
     bk_liveness = (\<lambda>q b. (Inr (unknown_report q), b)), bk_image_created = (\<lambda>_ b. (None, b)), bk_stamp_date = (\<lambda>_ _ b. b),
     bk_hash = (\<lambda>_. 0), bk_show_id = (\<lambda>_. []), bk_format_date = (\<lambda>_. None), bk_store = None,
     bk_environ = (\<lambda>_. NotPresent), bk_base_path = [], bk_has_db = False\<rparr>"

lemma roster_grows: "grows roster_owner b (b @ c)"
  by (auto simp: grows_def roster_owner_def map_le_def nth_append dom_def)

lemma roster_new: "length b < 1000 \<Longrightarrow> unat (of_nat (length b) :: replica_id) = length b"
  by (simp add: unat_of_nat take_bit_nat_eq_self)

lemma roster_honest: "honest roster_outside roster_owner"
  by (auto simp: honest_def roster_outside_def roster_grows unknown_report_def roster_owner_def roster_new)

definition roster_world :: "replica list \<Rightarrow> string list \<Rightarrow> string list world" where
  "roster_world rs b = \<lparr>w_reg = [(''app'', rs)], w_sessions = [], w_metrics = [], w_inflight = Map.empty,
     w_alerts = \<lparr>as_queue = [], as_open = True, as_recent = Map.empty\<rparr>, w_failures = Map.empty, w_locks = [], w_out = b\<rparr>"

definition still :: scaler_local where
  "still = \<lparr>sl_idle = Map.empty, sl_sat = Map.empty, sl_cool = Map.empty\<rparr>"

definition roster_spec :: "u32 \<Rightarrow> u32 \<Rightarrow> spec" where
  "roster_spec mn mx = (blank_spec ''app'')\<lparr>sp_container_image := Some ''img'', sp_min_replicas := Some mn,
     sp_max_replicas := Some mx\<rparr>"

definition idle_replica :: "replica_id \<Rightarrow> replica" where
  "idle_replica i = \<lparr>r_id = i, r_spec_id = ''app'', r_container_id = ''app'', r_upstream = [], r_state = Ready,
     r_started_at = 0, r_sessions_active = 0, r_sessions_max = 1, r_host = None\<rparr>"

lemma roster_ok: "world_ok roster_owner (roster_world [] b)"
  by (simp add: world_ok_def roster_world_def reg_wf_def reg_all_def)

lemma roster_ok_two: "world_ok roster_owner (roster_world [idle_replica 0, idle_replica 1] [''app'', ''app''])"
  by (simp add: world_ok_def roster_world_def reg_wf_def reg_all_def idle_replica_def roster_owner_def)

section \<open>The replica limit\<close>

text \<open>
  C4: The auto-scaler never exceeds a spec's replica limit: a whole pass (reconciliation with the backend,
  lifetime reap, scale-up, scale-down of every spec) that starts with every pool within its limit ends
  so, with the registry well formed and in agreement with the backend on what each container is for.
\<close>

theorem tick_respects_max:
  assumes "honest k owner" and "world_ok owner w" and "all_capped specs w" and "distinct (map sp_id specs)"
  shows "world_ok owner (snd (tick_with_interval (Some k) tp specs (l, w)))
    \<and> all_capped specs (snd (tick_with_interval (Some k) tp specs (l, w)))"
proof -
  let ?w1 = "reconcile_pass k specs (snapshot specs (w_reg w)) w"
  let ?l1 = "l\<lparr>sl_idle := update_idle_ticks (snapshot specs (w_reg w)) (bk_now k (w_out w)) (sl_idle l)\<rparr>"
  let ?s = "collect_stale specs (?l1, ?w1)"
  have 1: "world_ok owner ?w1 \<and> all_capped specs ?w1" by (rule pass_ok [OF assms])
  then have "world_ok owner (snd ?s)" "all_capped specs (snd ?s)"
    by (simp_all add: world_ok_def all_capped_def collect_stale_world)
  from tick_all_bound [OF assms(1) this assms(4) subset_refl] show ?thesis
    by (simp add: tick_with_interval_def Let_def)
qed

lemma roster_spec_simps [simp]:
  "sp_id (roster_spec mn mx) = ''app''" "sp_container_image (roster_spec mn mx) = Some ''img''"
  "effective_min_replicas (roster_spec mn mx) = mn" "mn \<le> mx \<Longrightarrow> effective_max_replicas (roster_spec mn mx) = mx"
  "spec_kind_of (roster_spec mn mx) = Shiny"
  by (simp_all add: roster_spec_def blank_spec_def effective_min_replicas_def effective_max_replicas_def spec_kind_of_def)

lemma tick_respects_max_witness:
  "length (replicas_of (w_reg (snd (tick_with_interval (Some roster_outside) production_params [roster_spec 1 2]
     (still, roster_world [] [])))) ''app'') \<le> 2"
proof -
  have "all_capped [roster_spec 1 2] (roster_world [] [])"
    by (simp add: all_capped_def roster_world_def replicas_of_def table_get_def)
  from tick_respects_max [OF roster_honest roster_ok this, of production_params still] show ?thesis
    by (simp add: all_capped_def)
qed

section \<open>Who may be taken away\<close>

lemma load_pool_unaged:
  "x \<in> set (load_pool sp w) \<Longrightarrow> r_id x = i \<Longrightarrow> reg_wf (w_reg w) \<Longrightarrow> r \<in> set (replicas_of (w_reg w) (sp_id sp)) \<Longrightarrow> r_id r = i \<Longrightarrow>
     r_sessions_active x = (if spec_kind_of sp = Api then inflight_count i (w_inflight w) else r_sessions_active r)"
proof (cases "spec_kind_of sp = Api")
  case False
  assume a: "x \<in> set (load_pool sp w)" "r_id x = i" "reg_wf (w_reg w)" "r \<in> set (replicas_of (w_reg w) (sp_id sp))" "r_id r = i"
  with False have "x \<in> set (replicas_of (w_reg w) (sp_id sp))" by (simp add: load_pool_def overlay_request_capacity_def)
  from rp.pool_id [OF a(3) this a(4)] a(2,5) False show ?thesis by simp
qed (auto simp: load_pool_def overlay_request_capacity_def)

lemma stop_all_gauge:
  "i \<notin> set is \<Longrightarrow> w_inflight (snd (snd (stop_all k is (l, w)))) i = w_inflight w i"
proof (induction "is" arbitrary: l w)
  case (Cons j "is")
  from Cons.IH [of "l\<lparr>sl_idle := (sl_idle l)(j := None)\<rparr>" "snd (stop_one k j w)"] Cons.prems show ?case
    by (simp only: stop_all_step) (simp add: inflight_forget_def)
qed simp


text \<open>Two idle replicas, one above the minimum, one of them past its grace.\<close>

definition long_idle :: scaler_local where
  "long_idle = still\<lparr>sl_idle := [0 \<mapsto> 5]\<rparr>"

lemma roster_spec_more [simp]:
  "effective_scale_up_threshold (roster_spec mn mx) = None" "effective_scale_down_threshold (roster_spec mn mx) = None"
  "effective_max_lifetime_secs (roster_spec mn mx) = None" "effective_container_lifetime_secs (roster_spec mn mx) = None"
  "sp_scale_down_grace (roster_spec mn mx) = None"
  by (simp_all add: roster_spec_def blank_spec_def effective_scale_up_threshold_def effective_scale_down_threshold_def
      effective_max_lifetime_secs_def effective_container_lifetime_secs_def)

lemma roster_aged [simp]: "aged_replicas k (roster_spec mn mx) w = []"
  by (simp add: aged_replicas_def lifetime_reap_candidates_def)

lemma roster_load [simp]: "load_pool (roster_spec mn mx) w = replicas_of (w_reg w) ''app''"
  by (simp add: load_pool_def overlay_request_capacity_def)

lemma roster_pool [simp]:
  "replicas_of [(''app'', rs)] ''app'' = rs" "w_out (roster_world rs b) = b"
  "w_reg (roster_world rs b) = [(''app'', rs)]"
  by (simp_all add: roster_world_def replicas_of_def table_get_def)

lemma cold_pool [simp]: "\<not> scale_up_triggered [idle_replica 0, idle_replica 1] None"
  by (simp add: scale_up_triggered_def all_saturated_def available_seats_def idle_replica_def sat_sub_def)

lemma production_simps [simp]:
  "drop_grace production_params (roster_spec mn mx) = 3"
  by (simp add: drop_grace_def production_params_def DEFAULT_IDLE_GRACE_TICKS_def)

lemma drop_candidates_one:
  "drop_candidates production_params (roster_spec 1 2) [0 \<mapsto> 5] [idle_replica 0, idle_replica 1] = [0]"
  by (simp add: drop_candidates_def idle_replica_def tick_of_def)

lemma drop_one:
  "replicas_of (w_reg (snd (tick_spec roster_outside production_params
     (long_idle, roster_world [idle_replica 0, idle_replica 1] [''app'', ''app'']) (roster_spec 1 2)))) ''app'' = [idle_replica 1]"
proof -
  let ?w = "roster_world [idle_replica 0, idle_replica 1] [''app'', ''app'']"
  have wf: "reg_wf (w_reg ?w)" using roster_ok_two by (rule world_ok_wf)
  have "snd (tick_spec roster_outside production_params (long_idle, ?w) (roster_spec 1 2)) =
      snd (snd (stop_all roster_outside [0] (long_idle\<lparr>sl_sat := (sl_sat long_idle)(''app'' := None)\<rparr>, ?w)))"
    by (simp add: tick_spec_def cool_step_def scale_down_step_def alert_saturated_def split_beta
        long_idle_def still_def drop_candidates_one Let_def del: stop_all.simps(2))
  then show ?thesis using stop_all_pool [OF wf, of roster_outside "[0]"] by (simp add: idle_replica_def)
qed


section \<open>The cooldown\<close>

lemma reaped_nothing:
  "aged_replicas k sp w = [] \<Longrightarrow> reaped k sp (l, w) = (l\<lparr>sl_cool := snd (cool_step (sp_id sp) (sl_cool l))\<rparr>, w)"
  by (simp add: reaped_def)

lemma scale_down_cool:
  "sl_cool (fst (scale_down_step k tp sp snap (l, w))) (sp_id sp) = sl_cool l (sp_id sp)
   \<or> sl_cool (fst (scale_down_step k tp sp snap (l, w))) (sp_id sp) = Some (cooldown_ticks_for_spec sp (tk_interval tp) (tk_default_cooldown tp))"
  using stop_all_frame [of k "drop_candidates tp sp (sl_idle l) snap" l w]
  by (auto simp: scale_down_step_def Let_def split: prod.split)

lemma cool_step_tick: "tick_of (snd (cool_step i cool)) i = sat_sub (tick_of cool i) 1"
  by (auto simp: cool_step_def tick_of_def sat_sub_def Let_def split: option.split)

text \<open>
  After a scale-down the spec rests: while its cooldown counter is above 0, a pass for a pool at or
  above its minimum with no replica past its lifetime starts no container and adds no replica, however
  saturated the pool is, and the counter goes down by one (or, if the pass itself took a replica away, is
  armed again): a cooldown of n ticks holds exactly n passes back.
\<close>

theorem cooldown_blocks_scale_up:
  assumes "reg_wf (w_reg w)" and "tick_of (sl_cool l) (sp_id sp) > 0" and "aged_replicas k sp w = []"
    and "unat (effective_min_replicas sp) \<le> length (replicas_of (w_reg w) (sp_id sp))"
    and "spec_kind_of sp \<noteq> External" and "sp_container_image sp \<noteq> None"
  shows "set (replicas_of (w_reg (snd (tick_spec k tp (l, w) sp))) (sp_id sp)) \<subseteq> set (replicas_of (w_reg w) (sp_id sp))
    \<and> (tick_of (sl_cool (fst (tick_spec k tp (l, w) sp))) (sp_id sp) = tick_of (sl_cool l) (sp_id sp) - 1
       \<or> tick_of (sl_cool (fst (tick_spec k tp (l, w) sp))) (sp_id sp) = cooldown_ticks_for_spec sp (tk_interval tp) (tk_default_cooldown tp))"
proof -
  let ?l1 = "l\<lparr>sl_cool := snd (cool_step (sp_id sp) (sl_cool l))\<rparr>"
  have c: "tick_of (sl_cool ?l1) (sp_id sp) = tick_of (sl_cool l) (sp_id sp) - 1"
    using assms(2) by (simp add: cool_step_tick sat_sub_def word_less_1 word_le_def word_less_def)
  note r = reaped_nothing [OF assms(3), of l]
  show ?thesis
  proof (cases rule: tick_spec_cases [of k tp "(l, w)" sp])
    case skip
    with assms(5,6) show ?thesis by simp
  next
    case refill
    with assms(4) show ?thesis by (simp add: r load_pool_length)
  next
    case hot
    with c assms(2) show ?thesis by (simp add: r saturated_step_def Let_def)
  next
    case calm
    let ?wa = "alert_saturated k sp (load_pool sp w) w"
    let ?l2 = "?l1\<lparr>sl_sat := (sl_sat ?l1)(sp_id sp := None)\<rparr>"
    have t: "tick_spec k tp (l, w) sp = scale_down_step k tp sp (load_pool sp w) (?l2, ?wa)" using calm(2) by (simp add: r)
    have "set (replicas_of (w_reg (snd (tick_spec k tp (l, w) sp))) (sp_id sp)) \<subseteq> set (replicas_of (w_reg w) (sp_id sp))"
      unfolding t scale_down_world using stop_all_pool [of ?wa] assms(1) by auto
    moreover from scale_down_cool [of k tp sp "load_pool sp w" ?l2 ?wa] c
    have "tick_of (sl_cool (fst (tick_spec k tp (l, w) sp))) (sp_id sp) = tick_of (sl_cool l) (sp_id sp) - 1
       \<or> tick_of (sl_cool (fst (tick_spec k tp (l, w) sp))) (sp_id sp) = cooldown_ticks_for_spec sp (tk_interval tp) (tk_default_cooldown tp)"
      unfolding t by (auto simp: tick_of_def)
    ultimately show ?thesis by blast
  qed
qed

text \<open>A full pool one below its limit, three ticks after a scale-down.\<close>

definition resting :: scaler_local where
  "resting = still\<lparr>sl_sat := [''app'' \<mapsto> 7], sl_cool := [''app'' \<mapsto> 3]\<rparr>"

definition full_replica :: "replica_id \<Rightarrow> replica" where
  "full_replica i = (idle_replica i)\<lparr>r_sessions_active := 1\<rparr>"

lemma cooldown_blocks_scale_up_witness:
  "set (replicas_of (w_reg (snd (tick_spec roster_outside production_params
      (resting, roster_world [full_replica 0] [''app'']) (roster_spec 1 2)))) ''app'') \<subseteq> {full_replica 0}"
proof -
  have "reg_wf (w_reg (roster_world [full_replica 0] [''app'']))"
    by (simp add: reg_wf_def reg_all_def full_replica_def idle_replica_def)
  then show ?thesis
    using cooldown_blocks_scale_up [of "roster_world [full_replica 0] [''app'']" resting "roster_spec 1 2" roster_outside production_params]
    by (simp add: resting_def still_def tick_of_def)
qed

section \<open>The minimum\<close>

lemma log_failure_recorded: "w_failures (log_spawn_failure k s ph e w) s \<noteq> None"
  by (auto simp: log_spawn_failure_def fail_observe_def Let_def split: prod.split fail_verdict.split option.split)

lemma spawn_one_adds:
  assumes "honest k owner" and "fst (spawn_one k AddCapacity sp w) = Inr ()"
    and "length (replicas_of (w_reg w) (sp_id sp)) < unat (effective_max_replicas sp)"
  shows "length (replicas_of (w_reg (snd (spawn_one k AddCapacity sp w))) (sp_id sp)) = Suc (length (replicas_of (w_reg w) (sp_id sp)))"
proof (cases "scaler_request (bk_store k) (bk_environ k) (bk_base_path k) sp")
  case (Inl e)
  with assms(2,3) show ?thesis by (simp add: spawn_one_def Let_def)
next
  case (Inr req)
  show ?thesis
  proof (cases "fst (bk_spawn k req (w_out w))")
    case (Inl e)
    with assms(2,3) Inr show ?thesis by (simp add: spawn_one_def Let_def call_out_eq)
  next
    case r: (Inr r)
    have "r_spec_id r = sp_id sp" using honest_spawn(1) [OF assms(1) r] request_spec [OF Inr] by simp
    with assms(3) Inr r show ?thesis by (simp add: spawn_one_def Let_def call_out_eq)
  qed
qed

lemma spawn_up_to_reaches:
  assumes "honest k owner"
  shows "length (replicas_of (w_reg w) (sp_id sp)) + n \<le> unat (effective_max_replicas sp) \<Longrightarrow>
    length (replicas_of (w_reg (spawn_up_to k sp n w)) (sp_id sp)) = length (replicas_of (w_reg w) (sp_id sp)) + n
    \<or> w_failures (spawn_up_to k sp n w) (sp_id sp) \<noteq> None"
proof (induction n arbitrary: w)
  case (Suc n)
  obtain res w1 where s: "spawn_one k AddCapacity sp w = (res, w1)" by fastforce
  show ?case
  proof (cases res)
    case (Inl e)
    with s show ?thesis using log_failure_recorded [of k "sp_id sp" "''scale-up''" e w1] by simp
  next
    case (Inr u)
    have "length (replicas_of (w_reg w1) (sp_id sp)) = Suc (length (replicas_of (w_reg w) (sp_id sp)))"
      using spawn_one_adds [OF assms, of sp w] s Inr Suc.prems by simp
    then show ?thesis
      using Suc.IH [of "w1\<lparr>w_failures := fail_clear (sp_id sp) (w_failures w1)\<rparr>"] Suc.prems s Inr by simp
  qed
qed simp

text \<open>
  C16: A pass brings a pool back to its minimum: after the pass for a spec that runs containers, the pool
  has at least the minimum number of replicas (when the limits allow it), or a spawn failed and the
  failure is on record. Neither the reap nor the scale-down of the pass can leave it below.
\<close>

theorem tick_restores_min:
  assumes "honest k owner" and "world_ok owner w" and "effective_min_replicas sp \<le> effective_max_replicas sp"
    and "spec_kind_of sp \<noteq> External" and "sp_container_image sp \<noteq> None"
  shows "unat (effective_min_replicas sp) \<le> length (replicas_of (w_reg (snd (tick_spec k tp (l, w) sp))) (sp_id sp))
    \<or> w_failures (snd (tick_spec k tp (l, w) sp)) (sp_id sp) \<noteq> None"
proof -
  let ?w1 = "snd (reaped k sp (l, w))"
  show ?thesis
  proof (cases "length (load_pool sp ?w1) < unat (effective_min_replicas sp)")
    case True
    then have t: "snd (tick_spec k tp (l, w) sp) = spawn_up_to k sp (unat (effective_min_replicas sp) - length (load_pool sp ?w1)) ?w1"
      using tick_spec_cases [of k tp "(l, w)" sp] assms(4,5) by metis
    have "unat (effective_min_replicas sp) \<le> unat (effective_max_replicas sp)" using assms(3) by (simp add: word_le_nat_alt)
    with True spawn_up_to_reaches [OF assms(1), of ?w1 sp "unat (effective_min_replicas sp) - length (load_pool sp ?w1)"]
    show ?thesis unfolding t load_pool_length by auto
  next
    case False
    then have "unat (effective_min_replicas sp) \<le> length (replicas_of (w_reg ?w1) (sp_id sp))" by (simp add: load_pool_length)
    then show ?thesis using tick_spec_bound [OF assms(1,2), of sp tp l] assms(4,5) by simp
  qed
qed

lemma tick_restores_min_witness:
  "2 \<le> length (replicas_of (w_reg (snd (tick_spec roster_outside production_params (still, roster_world [] []) (roster_spec 2 3)))) ''app'')
   \<or> ''app'' \<in> dom (w_failures (snd (tick_spec roster_outside production_params (still, roster_world [] []) (roster_spec 2 3))))"
  using tick_restores_min [OF roster_honest roster_ok [of "[]"], of "roster_spec 2 3" production_params still] by (simp add: domIff)

end
