(* ===== verification/Proxy_Routing.thy ===== *)
theory Proxy_Routing
  imports Scaler_Promises Sticky_Cookie
begin

text \<open>
  How the proxy chooses the replica of a request (\<open>crates/ruscker-admin/src/routes/proxy.rs\<close>): the routing
  strategies, the choice under the registry's write lock with the seat it reserves, the spawn for a first
  visitor, the sticky cookie, the questions of the cold-start gate and the reactive reap. The state is
  the shared state of \<open>Scaler_Ops\<close> and the round-robin counter. Decoding a sticky cookie is the argument
  \<open>dec\<close>, a fresh session id the argument \<open>sid\<close>.
\<close>

type_synonym 'b proxy_state = "'b world \<times> u64"

section \<open>Strategies\<close>

definition pick_index :: "nat \<Rightarrow> u64 \<Rightarrow> nat \<times> u64" where
  "pick_index n turn = (unat turn mod n, turn + 1)"

definition select :: "gauge \<Rightarrow> replica list \<Rightarrow> routing_strategy \<Rightarrow> bool \<Rightarrow> u64 \<Rightarrow> replica option \<times> u64" where
  "select g cands routing api turn =
     (if cands = [] then (None, turn)
      else (case routing of
          RoundRobin \<Rightarrow> (case pick_index (length cands) turn of (i, turn') \<Rightarrow> (Some (cands ! i), turn'))
        | _ \<Rightarrow> (if api then min_by_key (\<lambda>r. inflight_count (r_id r) g) cands
                else max_by_key available_seats cands, turn)))"

definition pick_accepting :: "gauge \<Rightarrow> replica list \<Rightarrow> routing_strategy \<Rightarrow> bool \<Rightarrow> u64 \<Rightarrow> replica option \<times> u64" where
  "pick_accepting g rs routing api turn = select g (filter is_accepting rs) routing api turn"

definition pick_replica :: "gauge \<Rightarrow> replica list \<Rightarrow> routing_strategy \<Rightarrow> bool \<Rightarrow> u64 \<Rightarrow> replica option \<times> u64" where
  "pick_replica g rs routing api turn =
     (case pick_accepting g rs routing api turn of
        (Some r, turn') \<Rightarrow> (Some r, turn')
      | (None, turn') \<Rightarrow> select g (filter (\<lambda>r. r_state r = Ready) rs) routing api turn')"

section \<open>Picking and spawning\<close>

definition seats_of :: "spec \<Rightarrow> bool" where
  "seats_of sp \<longleftrightarrow> spec_kind_of sp \<noteq> Api"

definition take_seat :: "spec \<Rightarrow> replica option \<times> u64 \<Rightarrow> 'b world \<Rightarrow> (replica \<times> bool) option \<times> 'b proxy_state" where
  "take_seat sp choice w =
     (case choice of
        (None, turn) \<Rightarrow> (None, (w, turn))
      | (Some r, turn) \<Rightarrow>
          (Some (r, seats_of sp),
           (if seats_of sp then w\<lparr>w_reg := inc_sessions (r_id r) (w_reg w)\<rparr> else w, turn)))"

definition pool_of :: "spec \<Rightarrow> 'b world \<Rightarrow> replica list" where
  "pool_of sp w = replicas_of (w_reg w) (sp_id sp)"

definition pick_fast :: "spec \<Rightarrow> 'b proxy_state \<Rightarrow> (replica \<times> bool) option \<times> 'b proxy_state" where
  "pick_fast sp s = (case s of (w, turn) \<Rightarrow>
     take_seat sp (pick_accepting (w_inflight w) (pool_of sp w) (effective_routing sp) (spec_kind_of sp = Api) turn) w)"

text \<open>The second look, under the lock of the spec.\<close>

definition pick_locked :: "spec \<Rightarrow> 'b proxy_state \<Rightarrow> (replica \<times> bool) option \<times> 'b proxy_state" where
  "pick_locked sp s =
     (case pick_fast sp s of
        (Some x, s1) \<Rightarrow> (Some x, s1)
      | (None, (w, turn)) \<Rightarrow>
          (case List.find (\<lambda>r. r_state r = Starting \<and> available_seats r > 0) (pool_of sp w) of
             Some r \<Rightarrow> take_seat sp (Some r, turn) w
           | None \<Rightarrow>
               if spec_kind_of sp = Api \<or> length (pool_of sp w) \<ge> unat (effective_max_replicas sp)
               then take_seat sp (pick_replica (w_inflight w) (pool_of sp w) (effective_routing sp) (spec_kind_of sp = Api) turn) w
               else (None, (w, turn))))"

definition spawn_for_visit :: "'b outside option \<Rightarrow> spec \<Rightarrow> 'b proxy_state \<Rightarrow> (string + replica \<times> bool) \<times> 'b proxy_state" where
  "spawn_for_visit backend sp s = (case s of (w, turn) \<Rightarrow>
     (case backend of
        None \<Rightarrow> (Inl ''no backend'', (w, turn))
      | Some k \<Rightarrow>
          (case on_demand_request (bk_store k) (bk_environ k) sp of
             Inl e \<Rightarrow> (Inl e, (w, turn))
           | Inr req \<Rightarrow>
               (case call_out (bk_spawn k req) w of
                  (Inl e, w1) \<Rightarrow> (Inl (''backend spawn: '' @ core_error_text e), (w1, turn))
                | (Inr r0, w1) \<Rightarrow>
                    (let r = r0\<lparr>r_sessions_max := effective_seats sp\<rparr>;
                         reg = reg_add r (w_reg w1)
                     in (Inr (r, seats_of sp),
                         (w1\<lparr>w_reg := if seats_of sp then inc_sessions (r_id r) reg else reg\<rparr>, turn)))))))"

definition pick_or_spawn :: "'b outside option \<Rightarrow> spec \<Rightarrow> 'b proxy_state \<Rightarrow> (string + replica \<times> bool) \<times> 'b proxy_state" where
  "pick_or_spawn backend sp s =
     (case pick_fast sp s of
        (Some x, s1) \<Rightarrow> (Inr x, s1)
      | (None, (w, turn)) \<Rightarrow>
          (case pick_locked sp (take_lock (sp_id sp) w, turn) of
             (Some x, s2) \<Rightarrow> (Inr x, s2)
           | (None, s2) \<Rightarrow> spawn_for_visit backend sp s2))"

section \<open>Sticky sessions\<close>

definition serves_session :: "replica \<Rightarrow> bool" where
  "serves_session r \<longleftrightarrow> r_state r = Ready \<or> r_state r = Draining"

definition sticky_target :: "(string \<Rightarrow> sticky_error + sticky_session) \<Rightarrow> spec \<Rightarrow> (string \<rightharpoonup> string) \<Rightarrow> registry \<Rightarrow>
    (replica \<times> uuid) option" where
  "sticky_target dec sp cookies reg =
     (case cookies (cookie_name (sp_id sp)) of None \<Rightarrow> None
      | Some raw \<Rightarrow> (case dec raw of Inl e \<Rightarrow> None
          | Inr s \<Rightarrow> if ssn_spec s \<noteq> sp_id sp then None
              else (case List.find (\<lambda>r. r_id r = ssn_replica s) (replicas_of reg (sp_id sp)) of
                  Some r \<Rightarrow> if serves_session r then Some (r, ssn_id s) else None
                | None \<Rightarrow> None)))"

record routed =
  rt_replica :: replica
  rt_session :: uuid
  rt_cookie_used :: bool
  rt_reserved :: bool
  rt_track :: bool

definition resolve_replica :: "(string \<Rightarrow> sticky_error + sticky_session) \<Rightarrow> uuid \<Rightarrow> 'b outside option \<Rightarrow> spec \<Rightarrow>
    (string \<rightharpoonup> string) \<Rightarrow> bool \<Rightarrow> 'b proxy_state \<Rightarrow> (string + routed) \<times> 'b proxy_state" where
  "resolve_replica dec sid backend sp cookies is_visit s = (case s of (w, turn) \<Rightarrow>
     (case sticky_target dec sp cookies (w_reg w) of
        Some (r, session) \<Rightarrow>
          (Inr \<lparr>rt_replica = r, rt_session = session, rt_cookie_used = True, rt_reserved = False, rt_track = True\<rparr>, s)
      | None \<Rightarrow>
          (case (if is_visit then (None, turn)
                 else pick_replica (w_inflight w) (pool_of sp w) (effective_routing sp) (spec_kind_of sp = Api) turn) of
             (Some r, turn') \<Rightarrow>
               (Inr \<lparr>rt_replica = r, rt_session = sid, rt_cookie_used = True, rt_reserved = False, rt_track = False\<rparr>, (w, turn'))
           | (None, turn') \<Rightarrow>
               (case pick_or_spawn backend sp (w, turn') of
                  (Inl e, s') \<Rightarrow> (Inl e, s')
                | (Inr (r, reserved), s') \<Rightarrow>
                    (Inr \<lparr>rt_replica = r, rt_session = sid, rt_cookie_used = False, rt_reserved = reserved, rt_track = True\<rparr>, s')))))"

section \<open>The cold-start gate and the reactive reap\<close>

definition has_ready_replica :: "spec \<Rightarrow> 'b proxy_state \<Rightarrow> bool \<times> 'b proxy_state" where
  "has_ready_replica sp s = (case s of (w, turn) \<Rightarrow>
     (case pick_accepting (w_inflight w) (pool_of sp w) (effective_routing sp) (spec_kind_of sp = Api) turn of
        (r, turn') \<Rightarrow> (r \<noteq> None, (w, turn'))))"

definition sticky_replica_is_live :: "registry \<Rightarrow> string \<Rightarrow> sticky_session \<Rightarrow> bool" where
  "sticky_replica_is_live reg i s \<longleftrightarrow>
     ssn_spec s = i \<and> list_ex (\<lambda>r. r_id r = ssn_replica s \<and> serves_session r) (replicas_of reg i)"

definition has_sticky_seat :: "(string \<Rightarrow> sticky_error + sticky_session) \<Rightarrow> spec \<Rightarrow> (string \<rightharpoonup> string) \<Rightarrow> registry \<Rightarrow> bool" where
  "has_sticky_seat dec sp cookies reg =
     (case cookies (cookie_name (sp_id sp)) of None \<Rightarrow> False
      | Some raw \<Rightarrow> (case dec raw of Inl e \<Rightarrow> False | Inr s \<Rightarrow> sticky_replica_is_live reg (sp_id sp) s))"

definition at_capacity :: "spec \<Rightarrow> registry \<Rightarrow> bool" where
  "at_capacity sp reg \<longleftrightarrow>
     length (filter (\<lambda>r. r_state r = Starting \<or> serves_session r) (replicas_of reg (sp_id sp))) \<ge> unat (effective_max_replicas sp)"

definition kick_replacement_spawn :: "'b outside option \<Rightarrow> spec \<Rightarrow> 'b world \<Rightarrow> 'b world" where
  "kick_replacement_spawn backend sp w =
     (if at_capacity sp (w_reg w) then w else snd (ensure_replica_available backend sp w))"

definition reap_if_confirmed_dead :: "'b outside option \<Rightarrow> replica \<Rightarrow> 'b world \<Rightarrow> bool \<times> 'b world" where
  "reap_if_confirmed_dead backend r w =
     (case backend of None \<Rightarrow> (False, w)
      | Some k \<Rightarrow>
          (case call_out (bk_liveness k [query_of r]) w of
             (Inl e, w1) \<Rightarrow> (False, w1)
           | (Inr rep, w1) \<Rightarrow>
               if list_ex (\<lambda>lo. lo_replica_id lo = r_id r \<and> lo_liveness lo = Missing) (lr_observations rep)
               then (True, snd (cleanup_replica_state (r_id r) w1))
               else (False, w1)))"

section \<open>What a strategy chooses\<close>

lemma select_None: "fst (select g cands routing api turn) = None \<longleftrightarrow> cands = []"
  by (cases routing; cases cands) (simp_all add: select_def pick_index_def)

lemma select_empty: "fst (select g cands routing api turn) = None \<Longrightarrow> select g cands routing api turn = (None, turn)"
  using select_None [of g cands routing api turn] by (simp add: select_def)

lemma select_mem: "fst (select g cands routing api turn) = Some r \<Longrightarrow> r \<in> set cands"
  by (cases routing) (auto simp: select_def pick_index_def dest: max_by_key_mem min_by_key_mem split: if_splits)

lemma select_least:
  "fst (select g cands routing api turn) = Some r \<Longrightarrow> routing \<noteq> RoundRobin \<Longrightarrow> x \<in> set cands \<Longrightarrow>
     (if api then inflight_count (r_id r) g \<le> inflight_count (r_id x) g else available_seats x \<le> available_seats r)"
  by (cases routing) (auto simp: select_def dest: max_by_key_max min_by_key_min split: if_splits)

lemma accepting_mem: "fst (pick_accepting g rs routing api turn) = Some r \<Longrightarrow> r \<in> set rs \<and> is_accepting r"
  unfolding pick_accepting_def by (drule select_mem) simp

lemma pick_replica_cases:
  "fst (pick_replica g rs routing api turn) = Some r \<Longrightarrow>
     fst (pick_accepting g rs routing api turn) = Some r
     \<or> (filter is_accepting rs = [] \<and> fst (select g (filter (\<lambda>r. r_state r = Ready) rs) routing api turn) = Some r)"
  using select_None [of g "filter is_accepting rs" routing api turn] select_empty [of g "filter is_accepting rs" routing api turn]
  by (auto simp: pick_replica_def pick_accepting_def split: option.splits prod.splits)

text \<open>
  The routing contract: a request finds no replica exactly when none is ready; otherwise it gets a
  ready replica of the pool, one with a free seat whenever there is one, and, unless the strategy is
  round-robin, the least loaded of those (fewest requests in flight for an API, most free seats else).
\<close>

theorem pick_replica_contract:
  "(fst (pick_replica g rs routing api turn) = None \<longleftrightarrow> \<not> list_ex (\<lambda>r. r_state r = Ready) rs)
   \<and> (\<forall>r. fst (pick_replica g rs routing api turn) = Some r \<longrightarrow>
        r \<in> set rs \<and> r_state r = Ready \<and> (list_ex is_accepting rs \<longrightarrow> is_accepting r)
        \<and> (routing \<noteq> RoundRobin \<longrightarrow> (\<forall>x \<in> set rs. is_accepting x \<longrightarrow>
             (if api then inflight_count (r_id r) g \<le> inflight_count (r_id x) g else available_seats x \<le> available_seats r))))"
proof (intro conjI allI impI)
  have acc: "is_accepting x \<Longrightarrow> r_state x = Ready" for x by (simp add: is_accepting_def)
  show "fst (pick_replica g rs routing api turn) = None \<longleftrightarrow> \<not> list_ex (\<lambda>r. r_state r = Ready) rs"
    using select_None [of g "filter is_accepting rs" routing api turn] select_None [of g "filter (\<lambda>r. r_state r = Ready) rs" routing api turn]
      select_empty [of g "filter is_accepting rs" routing api turn] acc
    by (auto simp: pick_replica_def pick_accepting_def list_ex_iff filter_empty_conv split: option.splits prod.splits)
  fix r assume r: "fst (pick_replica g rs routing api turn) = Some r"
  from pick_replica_cases [OF r]
  have *: "(fst (pick_accepting g rs routing api turn) = Some r) \<or> (filter is_accepting rs = [] \<and> r \<in> set rs \<and> r_state r = Ready)"
    by (auto dest: select_mem)
  then show "r \<in> set rs" "r_state r = Ready" by (auto dest: accepting_mem acc)
  from * show "is_accepting r" if "list_ex is_accepting rs"
    using that by (auto simp: list_ex_iff filter_empty_conv dest: accepting_mem)
  from * show "\<forall>x \<in> set rs. is_accepting x \<longrightarrow>
      (if api then inflight_count (r_id r) g \<le> inflight_count (r_id x) g else available_seats x \<le> available_seats r)"
    if "routing \<noteq> RoundRobin"
  proof (elim disjE conjE)
    assume "fst (pick_accepting g rs routing api turn) = Some r"
    then show ?thesis using select_least [OF _ that, of g "filter is_accepting rs" api turn r] by (auto simp: pick_accepting_def)
  qed (auto simp: filter_empty_conv)
qed

text \<open>Picks one after another, nothing else using the counter.\<close>

fun picks :: "gauge \<Rightarrow> replica list \<Rightarrow> nat \<Rightarrow> u64 \<Rightarrow> replica option list" where
  "picks g cands 0 turn = []"
| "picks g cands (Suc n) turn = (case select g cands RoundRobin False turn of (r, turn') \<Rightarrow> r # picks g cands n turn')"

lemma picks_nth:
  "cands \<noteq> [] \<Longrightarrow> unat turn + n < 2 ^ 64 \<Longrightarrow>
     picks g cands n turn = map (\<lambda>i. Some (cands ! ((unat turn + i) mod length cands))) [0..<n]"
proof (induction n arbitrary: turn)
  case (Suc n)
  have t: "unat (turn + 1) = unat turn + 1" using Suc.prems(2) by (simp add: unat_word_ariths)
  have "picks g cands (Suc n) turn = Some (cands ! (unat turn mod length cands)) # picks g cands n (turn + 1)"
    using Suc.prems(1) by (simp add: select_def pick_index_def)
  also have "picks g cands n (turn + 1) = map (\<lambda>i. Some (cands ! ((unat turn + Suc i) mod length cands))) [0..<n]"
    using Suc.IH [of "turn + 1"] Suc.prems t by simp
  finally show ?case by (simp add: upt_conv_Cons map_Suc_upt [symmetric] del: upt_Suc)
qed simp

text \<open>
  Round-robin is fair: as many picks in a row as there are candidates give every candidate once, in
  the order of the pool from where the counter stands.
\<close>

theorem round_robin_fair:
  assumes "cands \<noteq> []" and "unat turn + length cands < 2 ^ 64"
  shows "picks g cands (length cands) turn = map Some (rotate (unat turn) cands)"
proof (rule nth_equalityI)
  show "length (picks g cands (length cands) turn) = length (map Some (rotate (unat turn) cands))"
    by (simp add: picks_nth [OF assms])
  fix i assume "i < length (picks g cands (length cands) turn)"
  then have "i < length cands" by (simp add: picks_nth [OF assms])
  then show "picks g cands (length cands) turn ! i = map Some (rotate (unat turn) cands) ! i"
    by (simp add: picks_nth [OF assms] nth_rotate add.commute)
qed

lemma round_robin_fair_witness:
  "picks Map.empty [idle_replica 0, idle_replica 1] 2 5 = map Some [idle_replica 1, idle_replica 0]"
proof -
  have l: "length [idle_replica 0, idle_replica 1] = 2" by simp
  have "rotate 5 [idle_replica 0, idle_replica 1] = [idle_replica 1, idle_replica 0]"
    unfolding rotate_drop_take l by simp
  then show ?thesis
    using round_robin_fair [of "[idle_replica 0, idle_replica 1]" 5 Map.empty, unfolded l] by (simp del: picks.simps)
qed

lemma pick_replica_contract_witness:
  "fst (pick_replica Map.empty [full_replica 0] LeastConnections False 0) \<noteq> None"
  using pick_replica_contract [of Map.empty "[full_replica 0]" LeastConnections False 0] by (simp add: full_replica_def idle_replica_def)

end
