(* ===== verification/Proxy_Seats.thy ===== *)
theory Proxy_Seats
  imports Proxy_Routing
begin

text \<open>
  What the choice of a replica guarantees: a visitor of one app never lands in another, a seat handed out
  is counted once and no replica is filled beyond its seats while the pool can still grow, the cold-start
  gate and the choice agree, and only a replica whose container is gone is reaped on a failed request.
\<close>

section \<open>The outcomes of a pick\<close>

lemma take_seat_simps [simp]:
  "take_seat sp (None, turn) w = (None, (w, turn))"
  "take_seat sp (Some r, turn) w = (Some (r, seats_of sp),
     (if seats_of sp then w\<lparr>w_reg := inc_sessions (r_id r) (w_reg w)\<rparr> else w, turn))"
  by (simp_all add: take_seat_def)

lemma pick_fast_cases:
  obtains (none) "pick_fast sp (w, turn) = (None, (w, turn))" "\<not> list_ex is_accepting (pool_of sp w)"
  | (some) r turn' where "pick_fast sp (w, turn) = take_seat sp (Some r, turn') w" "r \<in> set (pool_of sp w)" "is_accepting r"
proof (cases "pick_accepting (w_inflight w) (pool_of sp w) (effective_routing sp) (spec_kind_of sp = Api) turn")
  case (Pair c turn')
  show ?thesis
  proof (cases c)
    case None
    then have n: "fst (pick_accepting (w_inflight w) (pool_of sp w) (effective_routing sp) (spec_kind_of sp = Api) turn) = None"
      using Pair by simp
    then have "filter is_accepting (pool_of sp w) = []" unfolding pick_accepting_def select_None .
    moreover from n have "turn' = turn" unfolding pick_accepting_def using select_empty Pair
      by (metis pick_accepting_def snd_conv)
    ultimately show ?thesis using Pair None by (intro none) (auto simp: pick_fast_def list_ex_iff filter_empty_conv)
  next
    case (Some r)
    with Pair accepting_mem [of "w_inflight w" "pool_of sp w" "effective_routing sp" "spec_kind_of sp = Api" turn r]
    show ?thesis by (intro some [of r turn']) (simp_all add: pick_fast_def)
  qed
qed

text \<open>A replica the choice may return: with a free seat, or, at the cap or for an API, a ready one.\<close>

definition reusable :: "spec \<Rightarrow> 'b world \<Rightarrow> replica \<Rightarrow> bool" where
  "reusable sp w r \<longleftrightarrow> r \<in> set (pool_of sp w) \<and>
     (available_seats r > 0 \<or>
      ((spec_kind_of sp = Api \<or> length (pool_of sp w) \<ge> unat (effective_max_replicas sp)) \<and> r_state r = Ready))"

lemma accepting_reusable: "r \<in> set (pool_of sp w) \<Longrightarrow> is_accepting r \<Longrightarrow> reusable sp w r"
  by (simp add: reusable_def is_accepting_def)

lemma pick_locked_cases:
  obtains (none) turn' where "pick_locked sp (w, turn) = (None, (w, turn'))"
      "(spec_kind_of sp = Api \<or> length (pool_of sp w) \<ge> unat (effective_max_replicas sp)) \<longrightarrow>
         \<not> list_ex (\<lambda>r. r_state r = Ready) (pool_of sp w)"
  | (some) r turn' where "pick_locked sp (w, turn) = take_seat sp (Some r, turn') w" "reusable sp w r"
proof (cases rule: pick_fast_cases [of sp w turn])
  case (some r turn')
  have "pick_locked sp (w, turn) = take_seat sp (Some r, turn') w" using some(1) by (simp add: pick_locked_def)
  then show ?thesis using that(2) accepting_reusable [OF some(2,3)] by blast
next
  case none
  show ?thesis
  proof (cases "List.find (\<lambda>r. r_state r = Starting \<and> available_seats r > 0) (pool_of sp w)")
    case (Some r)
    then have "reusable sp w r" by (auto simp: reusable_def find_Some_iff)
    moreover have "pick_locked sp (w, turn) = take_seat sp (Some r, turn) w" using none(1) Some by (simp add: pick_locked_def)
    ultimately show ?thesis using that(2) by blast
  next
    case None
    let ?cap = "spec_kind_of sp = Api \<or> length (pool_of sp w) \<ge> unat (effective_max_replicas sp)"
    let ?p = "pick_replica (w_inflight w) (pool_of sp w) (effective_routing sp) (spec_kind_of sp = Api) turn"
    have l: "pick_locked sp (w, turn) = (if ?cap then take_seat sp ?p w else (None, (w, turn)))"
      using none(1) None by (simp add: pick_locked_def)
    obtain c turn' where p: "?p = (c, turn')" by fastforce
    note contract = pick_replica_contract [of "w_inflight w" "pool_of sp w" "effective_routing sp" "spec_kind_of sp = Api" turn, unfolded p fst_conv]
    show ?thesis
    proof (cases c)
      case None
      with contract p l show ?thesis by (cases ?cap) (auto intro: that(1))
    next
      case (Some r)
      show ?thesis
      proof (cases ?cap)
        case True
        moreover from this contract Some have "reusable sp w r" by (auto simp: reusable_def)
        ultimately show ?thesis using p Some l by (intro that(2) [of r turn']) auto
      next
        case False
        with l show ?thesis by (intro that(1) [of turn]) auto
      qed
    qed
  qed
qed

lemma on_demand_spec: "on_demand_request st e sp = Inr req \<Longrightarrow> sr_spec_id req = sp_id sp"
  by (auto simp: on_demand_request_def build_request_fields split: option.splits sum.splits)

definition seated :: "spec \<Rightarrow> replica_id \<Rightarrow> registry \<Rightarrow> registry" where
  "seated sp i reg = (if seats_of sp then inc_sessions i reg else reg)"

lemma take_seat_reg [simp]: "w_reg (fst (snd (take_seat sp (Some r, turn) w))) = seated sp (r_id r) (w_reg w)"
  by (simp add: seated_def)

text \<open>Every way a pick can end.\<close>

lemma pick_or_spawn_cases:
  assumes "honest k owner" and "pick_or_spawn (Some k) sp (w, turn) = (res, (w', turn'))"
  obtains (failed) e where "res = Inl e" "w_reg w' = w_reg w"
  | (reused) r where "res = Inr (r, seats_of sp)" "w_reg w' = seated sp (r_id r) (w_reg w)" "reusable sp w r" "w_out w' = w_out w"
  | (fresh) r where "res = Inr (r, seats_of sp)" "w_reg w' = seated sp (r_id r) (reg_add r (w_reg w))" "r_spec_id r = sp_id sp"
      "owner (w_out w) (r_id r) = None" "r_sessions_max r = effective_seats sp"
      "\<exists>req r0. fst (bk_spawn k req (w_out w)) = Inr r0 \<and> r_sessions_active r = r_sessions_active r0"
      "\<not> list_ex is_accepting (pool_of sp w)"
      "length (pool_of sp w) < unat (effective_max_replicas sp) \<or> \<not> list_ex (\<lambda>r. r_state r = Ready) (pool_of sp w)"
proof (cases rule: pick_fast_cases [of sp w turn])
  case (some r t1)
  then have "res = Inr (r, seats_of sp)" "w_reg w' = seated sp (r_id r) (w_reg w)" "w_out w' = w_out w"
    using assms(2) by (auto simp: pick_or_spawn_def seated_def)
  with reused accepting_reusable [OF some(2,3)] show ?thesis by blast
next
  case none
  let ?w = "take_lock (sp_id sp) w"
  have pool: "pool_of sp ?w = pool_of sp w" by (simp add: pool_of_def)
  show ?thesis
  proof (cases rule: pick_locked_cases [of sp ?w turn])
    case (some r t1)
    then have "res = Inr (r, seats_of sp)" "w_reg w' = seated sp (r_id r) (w_reg w)" "w_out w' = w_out w"
      using assms(2) none(1) by (auto simp: pick_or_spawn_def seated_def)
    moreover have "reusable sp w r" using some(2) by (simp add: reusable_def pool)
    ultimately show ?thesis using reused by blast
  next
    case l: (none t1)
    then have eq: "spawn_for_visit (Some k) sp (?w, t1) = (res, (w', turn'))"
      using assms(2) none(1) by (simp add: pick_or_spawn_def)
    show ?thesis
    proof (cases "on_demand_request (bk_store k) (bk_environ k) sp")
      case (Inl e)
      with eq show ?thesis by (intro failed) (auto simp: spawn_for_visit_def)
    next
      case (Inr req)
      show ?thesis
      proof (cases "fst (bk_spawn k req (w_out w))")
        case (Inl e)
        with eq Inr show ?thesis by (intro failed) (auto simp: spawn_for_visit_def call_out_eq)
      next
        case r0: (Inr r0)
        note h = honest_spawn [OF assms(1) r0]
        have r: "res = Inr (r0\<lparr>r_sessions_max := effective_seats sp\<rparr>, seats_of sp)"
            "w_reg w' = seated sp (r_id r0) (reg_add (r0\<lparr>r_sessions_max := effective_seats sp\<rparr>) (w_reg w))"
          using eq Inr r0 by (auto simp: spawn_for_visit_def call_out_eq seated_def Let_def)
        have "\<exists>req r1. fst (bk_spawn k req (w_out w)) = Inr r1 \<and> r_sessions_active r0 = r_sessions_active r1" using r0 by blast
        with r h on_demand_spec [OF Inr] none(2) l(2) pool show ?thesis
          by (intro fresh [of "r0\<lparr>r_sessions_max := effective_seats sp\<rparr>"]) auto
      qed
    qed
  qed
qed

lemma pool_seated:
  "reg_wf reg \<Longrightarrow> replicas_of (seated sp i reg) s =
     map (on_id i (\<lambda>r. if seats_of sp then r\<lparr>r_sessions_active := sat_add (r_sessions_active r) 1\<rparr> else r)) (replicas_of reg s)"
  by (auto simp: seated_def inc_sessions_def replicas_of_update intro!: map_idI [symmetric])

lemma seated_ids:
  assumes "reg_wf reg"
  shows "r_id ` set (replicas_of (seated sp i reg) s) = r_id ` set (replicas_of reg s)"
proof -
  have "map r_id (replicas_of (seated sp i reg) s) = map r_id (replicas_of reg s)"
    unfolding pool_seated [OF assms] map_map by (rule map_cong) auto
  then show ?thesis by (metis list.set_map)
qed

section \<open>Seats\<close>

text \<open>No replica holds more sessions than it has seats.\<close>

definition seats_ok :: "replica list \<Rightarrow> bool" where
  "seats_ok rs \<longleftrightarrow> list_all (\<lambda>r. r_sessions_active r \<le> r_sessions_max r) rs"

lemma free_seat_add: "available_seats r > 0 \<Longrightarrow>
    sat_add (r_sessions_active r) 1 \<le> r_sessions_max r \<and> unat (sat_add (r_sessions_active r) 1) = unat (r_sessions_active r) + 1"
proof -
  assume "available_seats r > 0"
  then have lt: "unat (r_sessions_active r) < unat (r_sessions_max r)"
    using available_seats_0_iff [of r] by (simp add: word_less_nat_alt [symmetric] word_gt_0 not_le)
  moreover have "unat (r_sessions_max r) < 2 ^ 32" using unsigned_less [of "r_sessions_max r"] by simp
  ultimately show ?thesis by (simp add: word_le_nat_alt unat_sat_add)
qed

lemma seated_ok:
  assumes "reg_wf reg" and "seats_ok (replicas_of reg s)" and "r \<in> set (replicas_of reg s)" and "available_seats r > 0"
  shows "seats_ok (replicas_of (seated sp (r_id r) reg) s)"
  unfolding seats_ok_def list_all_iff
proof
  fix y assume "y \<in> set (replicas_of (seated sp (r_id r) reg) s)"
  then obtain x where x: "x \<in> set (replicas_of reg s)"
    and y: "y = (if r_id x = r_id r then if seats_of sp then x\<lparr>r_sessions_active := sat_add (r_sessions_active x) 1\<rparr> else x else x)"
    unfolding pool_seated [OF assms(1)] set_map image_iff by blast
  have ok: "r_sessions_active x \<le> r_sessions_max x" using assms(2) x by (simp add: seats_ok_def list_all_iff)
  show "r_sessions_active y \<le> r_sessions_max y"
  proof (cases "r_id x = r_id r")
    case True
    then have "x = r" by (rule rp.pool_id [OF assms(1) x assms(3)])
    with ok free_seat_add [OF assms(4)] y show ?thesis by simp
  qed (use ok y in simp)
qed

lemma seated_count:
  assumes "reg_wf reg" and "r \<in> set (replicas_of reg s)" and "seats_of sp"
  shows "r\<lparr>r_sessions_active := sat_add (r_sessions_active r) 1\<rparr> \<in> set (replicas_of (seated sp (r_id r) reg) s)"
  using assms(2,3) by (force simp: pool_seated [OF assms(1)])

text \<open>
  C23: Seats are respected: for an app with seats, a pick that starts with no replica over its seats and
  the pool below the replica limit ends so, whichever way it ends (a free seat, a starting replica, a
  new container), and the replica it hands out has exactly one session more than before.
\<close>

theorem visit_never_oversubscribes:
  assumes "honest k owner" and "world_ok owner w" and "seats_of sp" and "0 < effective_seats sp"
    and "\<forall>req b r. fst (bk_spawn k req b) = Inr r \<longrightarrow> r_sessions_active r = 0"
    and "length (replicas_of (w_reg w) (sp_id sp)) < unat (effective_max_replicas sp)"
    and "seats_ok (replicas_of (w_reg w) (sp_id sp))"
    and "pick_or_spawn (Some k) sp (w, turn) = (Inr (r, reserved), (w', turn'))"
  shows "reserved \<and> seats_ok (replicas_of (w_reg w') (sp_id sp))
    \<and> (\<exists>x \<in> set (replicas_of (w_reg w') (sp_id sp)). r_id x = r_id r \<and> unat (r_sessions_active x) = unat (r_sessions_active r) + 1)"
proof -
  have wf: "reg_wf (w_reg w)" using assms(2) by (rule world_ok_wf)
  have no_api: "spec_kind_of sp \<noteq> Api" using assms(3) by (simp add: seats_of_def)
  from assms(1,8) show ?thesis
  proof (cases rule: pick_or_spawn_cases)
    case (failed e)
    then show ?thesis by simp
  next
    case (reused x)
    then have x: "x = r" "reserved = seats_of sp" by simp_all
    have r: "r \<in> set (replicas_of (w_reg w) (sp_id sp))" "available_seats r > 0"
      using reused(3) assms(6) no_api x by (auto simp: reusable_def pool_of_def)
    show ?thesis
      using seated_ok [OF wf assms(7) r, of sp] seated_count [OF wf r(1) assms(3)] free_seat_add [OF r(2)] reused(2) x assms(3)
      by (auto intro: bexI [of _ "r\<lparr>r_sessions_active := sat_add (r_sessions_active r) 1\<rparr>"])
  next
    case (fresh x)
    then have x: "x = r" "reserved = seats_of sp" by simp_all
    have zero: "r_sessions_active r = 0" using fresh(6) assms(5) x by auto
    let ?reg = "reg_add r (w_reg w)"
    have wf': "reg_wf ?reg" by (rule reg_wf_add [OF wf]) (use fresh_id [OF assms(2) fresh(4)] x in simp)
    have mem: "r \<in> set (replicas_of ?reg (sp_id sp))" using fresh(3) x by simp
    have "seats_ok (replicas_of ?reg (sp_id sp))" using assms(7) fresh(3) x zero by (simp add: seats_ok_def)
    moreover have free: "available_seats r > 0"
      using assms(4) fresh(5) x zero by (simp add: available_seats_def sat_sub_def)
    ultimately show ?thesis
      using seated_ok [OF wf' _ mem free, of sp] seated_count [OF wf' mem assms(3)] free_seat_add [OF free] fresh(2) x assms(3)
      by (auto intro: bexI [of _ "r\<lparr>r_sessions_active := sat_add (r_sessions_active r) 1\<rparr>"])
  qed
qed

lemma roster_request: "\<exists>req. on_demand_request (bk_store roster_outside) (bk_environ roster_outside) (roster_spec mn mx) = Inr req"
  by (simp add: on_demand_request_def roster_outside_def roster_spec_def blank_spec_def resolve_creds_def creds_from_spec_def
      resolved_env_pairs_def env_pairs_def nonempty_def)

lemma visit_never_oversubscribes_witness:
  "\<exists>r w' t'. pick_or_spawn (Some roster_outside) (roster_spec 0 2) (roster_world [] [], 0) = (Inr (r, True), (w', t'))
     \<and> seats_ok (replicas_of (w_reg w') ''app'')"
proof -
  obtain req where req: "on_demand_request (bk_store roster_outside) (bk_environ roster_outside) (roster_spec 0 2) = Inr req"
    using roster_request by blast
  obtain r w' t' where p: "pick_or_spawn (Some roster_outside) (roster_spec 0 2) (roster_world [] [], 0) = (Inr (r, True), (w', t'))"
    using req by (simp add: pick_or_spawn_def pick_fast_def pick_locked_def pool_of_def pick_accepting_def select_def
        spawn_for_visit_def call_out_eq seats_of_def roster_outside_def Let_def)
  have "seats_of (roster_spec 0 2)" "0 < effective_seats (roster_spec 0 2)"
    by (simp_all add: seats_of_def effective_seats_def roster_spec_def blank_spec_def spec_kind_of_def DEFAULT_SEATS_PER_APP_def)
  moreover have "\<forall>req b r. fst (bk_spawn roster_outside req b) = Inr r \<longrightarrow> r_sessions_active r = 0"
    by (auto simp: roster_outside_def)
  ultimately have "seats_ok (replicas_of (w_reg w') ''app'')"
    using visit_never_oversubscribes [OF roster_honest roster_ok _ _ _ _ _ p] by (simp add: seats_ok_def)
  with p show ?thesis by blast
qed

section \<open>Apps are kept apart\<close>

lemma reused_id: "reg_wf (w_reg w) \<Longrightarrow> reusable sp w r \<Longrightarrow> w_reg w' = seated sp (r_id r) (w_reg w) \<Longrightarrow>
    r_id r \<in> r_id ` set (replicas_of (w_reg w') (sp_id sp)) \<and> r_spec_id r = sp_id sp"
proof -
  assume a: "reg_wf (w_reg w)" "reusable sp w r" "w_reg w' = seated sp (r_id r) (w_reg w)"
  then have r: "r \<in> set (replicas_of (w_reg w) (sp_id sp))" by (simp add: reusable_def pool_of_def)
  have "r_id ` set (replicas_of (w_reg w') (sp_id sp)) = r_id ` set (replicas_of (w_reg w) (sp_id sp))"
    unfolding a(3) by (rule seated_ids [OF a(1)])
  with r rp.pool_spec [OF a(1) r] show ?thesis by blast
qed

text \<open>
  Apps are kept apart: the replica a request for an app is routed to is in that app's pool, whatever
  cookies it carries; an existing session is continued only on the strength of a cookie that decodes to
  this app, this session and this replica, and any other request gets the fresh session id.
\<close>

theorem visitors_stay_in_app:
  assumes "honest k owner" and "world_ok owner w"
    and "resolve_replica dec sid (Some k) sp cookies is_visit (w, turn) = (Inr rt, (w', turn'))"
  shows "r_id (rt_replica rt) \<in> r_id ` set (replicas_of (w_reg w') (sp_id sp)) \<and> r_spec_id (rt_replica rt) = sp_id sp
    \<and> (rt_session rt = sid \<or> (\<exists>raw. cookies (cookie_name (sp_id sp)) = Some raw
         \<and> dec raw = Inr \<lparr>ssn_id = rt_session rt, ssn_spec = sp_id sp, ssn_replica = r_id (rt_replica rt)\<rparr>))"
proof -
  have wf: "reg_wf (w_reg w)" using assms(2) by (rule world_ok_wf)
  show ?thesis
  proof (cases "sticky_target dec sp cookies (w_reg w)")
    case (Some p)
    obtain r s where p: "p = (r, s)" by (cases p)
    with Some have "r \<in> set (replicas_of (w_reg w) (sp_id sp))"
      "\<exists>raw. cookies (cookie_name (sp_id sp)) = Some raw \<and> dec raw = Inr \<lparr>ssn_id = s, ssn_spec = sp_id sp, ssn_replica = r_id r\<rparr>"
      by (auto simp: sticky_target_def find_Some_iff split: option.splits sum.splits if_splits)
    moreover have "rt_replica rt = r" "rt_session rt = s" "w' = w" using assms(3) Some p by (auto simp: resolve_replica_def)
    ultimately show ?thesis using rp.pool_spec [OF wf] by auto
  next
    case None
    obtain c t1 where c: "(if is_visit then (None, turn)
        else pick_replica (w_inflight w) (pool_of sp w) (effective_routing sp) (spec_kind_of sp = Api) turn) = (c, t1)" by fastforce
    show ?thesis
    proof (cases c)
      case (Some r)
      then have "r \<in> set (replicas_of (w_reg w) (sp_id sp))"
        using c pick_replica_contract [of "w_inflight w" "pool_of sp w" "effective_routing sp" "spec_kind_of sp = Api" turn]
        by (auto simp: pool_of_def split: if_splits)
      moreover have "rt_replica rt = r" "rt_session rt = sid" "w' = w" using assms(3) None Some c by (auto simp: resolve_replica_def)
      ultimately show ?thesis using rp.pool_spec [OF wf] by auto
    next
      case n: None
      obtain r reserved where p: "pick_or_spawn (Some k) sp (w, t1) = (Inr (r, reserved), (w', turn'))"
        and rt: "rt_replica rt = r" "rt_session rt = sid"
        using assms(3) None n c by (auto simp: resolve_replica_def split: prod.splits sum.splits)
      from assms(1) p show ?thesis
      proof (cases rule: pick_or_spawn_cases)
        case (reused x)
        with reused_id [OF wf, of sp x w'] rt show ?thesis by simp
      next
        case (fresh x)
        have wf': "reg_wf (reg_add x (w_reg w))" by (rule reg_wf_add [OF wf fresh_id [OF assms(2) fresh(4)]])
        have "x \<in> set (replicas_of (reg_add x (w_reg w)) (sp_id sp))" using fresh(3) by simp
        then have "r_id x \<in> r_id ` set (replicas_of (w_reg w') (sp_id sp))"
          unfolding fresh(2) seated_ids [OF wf'] by (rule imageI)
        with fresh(1,3) rt show ?thesis by simp
      qed simp
    qed
  qed
qed

text \<open>A visitor with a cookie of another app.\<close>

definition foreign_cookie :: "string \<Rightarrow> sticky_error + sticky_session" where
  "foreign_cookie raw = Inr \<lparr>ssn_id = 9, ssn_spec = ''other'', ssn_replica = 0\<rparr>"

lemma visitors_stay_in_app_witness:
  "\<exists>rt s'. resolve_replica foreign_cookie 7 (Some roster_outside) (roster_spec 1 2)
     [cookie_name ''app'' \<mapsto> ''x''] True (roster_world [idle_replica 0, idle_replica 1] [''app'', ''app''], 0) = (Inr rt, s')
     \<and> r_spec_id (rt_replica rt) = ''app'' \<and> rt_session rt = 7"
proof -
  let ?w = "roster_world [idle_replica 0, idle_replica 1] [''app'', ''app'']"
  have "effective_routing (roster_spec 1 2) = LeastConnections"
    by (simp add: effective_routing_def roster_spec_def blank_spec_def spec_kind_of_def)
  then obtain rt w' t' where p: "resolve_replica foreign_cookie 7 (Some roster_outside) (roster_spec 1 2)
     [cookie_name ''app'' \<mapsto> ''x''] True (?w, 0) = (Inr rt, (w', t'))"
    by (simp add: resolve_replica_def sticky_target_def foreign_cookie_def pick_or_spawn_def pick_fast_def
        pick_accepting_def select_def pool_of_def is_accepting_iff idle_replica_def)
  with visitors_stay_in_app [OF roster_honest roster_ok_two p] show ?thesis
    by (auto simp: foreign_cookie_def)
qed

section \<open>The gate agrees with the choice\<close>

lemma has_ready_iff: "fst (has_ready_replica sp (w, turn)) \<longleftrightarrow> list_ex is_accepting (pool_of sp w)"
  using select_None [of "w_inflight w" "filter is_accepting (pool_of sp w)" "effective_routing sp" "spec_kind_of sp = Api" turn]
  by (auto simp: has_ready_replica_def pick_accepting_def list_ex_iff filter_empty_conv split: prod.split)

text \<open>
  The cold-start gate and the choice of a replica never disagree: the gate sees a ready replica
  exactly when a visit is then placed on a replica with a free seat without a spawn, and it takes a
  visitor for seated exactly when the choice continues a sticky session; so a visitor let through does
  not come back to the splash page.
\<close>

theorem gate_mirrors_routing:
  assumes "reg_wf (w_reg w)"
  shows "(fst (has_ready_replica sp (w, turn)) \<longleftrightarrow>
      (\<exists>r w' turn'. pick_or_spawn backend sp (w, turn) = (Inr (r, seats_of sp), (w', turn')) \<and> is_accepting r
         \<and> r \<in> set (pool_of sp w) \<and> w_out w' = w_out w))
    \<and> (has_sticky_seat dec sp cookies (w_reg w) \<longleftrightarrow> sticky_target dec sp cookies (w_reg w) \<noteq> None)"
proof (intro conjI iffI)
  assume "fst (has_ready_replica sp (w, turn))"
  then have "list_ex is_accepting (pool_of sp w)" by (simp only: has_ready_iff)
  then show "\<exists>r w' turn'. pick_or_spawn backend sp (w, turn) = (Inr (r, seats_of sp), (w', turn')) \<and> is_accepting r
         \<and> r \<in> set (pool_of sp w) \<and> w_out w' = w_out w"
    by (cases rule: pick_fast_cases [of sp w turn]) (auto simp: pick_or_spawn_def)
next
  assume "\<exists>r w' turn'. pick_or_spawn backend sp (w, turn) = (Inr (r, seats_of sp), (w', turn')) \<and> is_accepting r
         \<and> r \<in> set (pool_of sp w) \<and> w_out w' = w_out w"
  then show "fst (has_ready_replica sp (w, turn))" unfolding has_ready_iff by (auto simp: list_ex_iff)
next
  have first: "List.find (\<lambda>r. r_id r = i) rs = Some r" if "reg_wf (w_reg w)" "rs = replicas_of (w_reg w) s" "r \<in> set rs" "r_id r = i" for i rs s r
  proof (cases "List.find (\<lambda>r. r_id r = i) rs")
    case None
    with that show ?thesis by (auto simp: find_None_iff)
  next
    case (Some x)
    then have "x \<in> set rs" "r_id x = i" by (auto simp: find_Some_iff)
    with that rp.pool_id [OF that(1), of x s r] Some show ?thesis by simp
  qed
  show "has_sticky_seat dec sp cookies (w_reg w) \<Longrightarrow> sticky_target dec sp cookies (w_reg w) \<noteq> None"
    by (auto simp: has_sticky_seat_def sticky_target_def sticky_replica_is_live_def list_ex_iff first [OF assms refl]
        split: option.splits sum.splits)
  show "sticky_target dec sp cookies (w_reg w) \<noteq> None \<Longrightarrow> has_sticky_seat dec sp cookies (w_reg w)"
    by (auto simp: has_sticky_seat_def sticky_target_def sticky_replica_is_live_def list_ex_iff find_Some_iff
        split: option.splits sum.splits if_splits)
qed

lemma gate_mirrors_routing_witness:
  "\<not> fst (has_ready_replica (roster_spec 1 2) (roster_world [full_replica 0] [''app''], 0))
   \<and> \<not> has_sticky_seat foreign_cookie (roster_spec 1 2) [cookie_name ''app'' \<mapsto> ''x''] (w_reg (roster_world [full_replica 0] [''app'']))"
proof -
  have "reg_wf (w_reg (roster_world [full_replica 0] [''app'']))"
    by (simp add: reg_wf_def reg_all_def full_replica_def idle_replica_def)
  note g = gate_mirrors_routing [OF this, of "roster_spec 1 2" 0 "Some roster_outside" foreign_cookie "[cookie_name ''app'' \<mapsto> ''x'']"]
  have "\<not> is_accepting r" if "r \<in> set (pool_of (roster_spec 1 2) (roster_world [full_replica 0] [''app'']))" for r
    using that by (simp add: pool_of_def full_replica_def idle_replica_def is_accepting_iff)
  with g show ?thesis by (auto simp: sticky_target_def foreign_cookie_def)
qed

section \<open>The reactive reap\<close>

context liveness_source
begin

lemma reap_spares_alive:
  assumes "fst (bk_liveness k [query_of r] (w_out w)) = Inr (report o' [query_of r])" and "alive o' (query_of r)"
  shows "\<not> fst (reap_if_confirmed_dead (Some k) r w) \<and> w_reg (snd (reap_if_confirmed_dead (Some k) r w)) = w_reg w"
proof -
  have "lo_liveness lo \<noteq> Missing" if "lo \<in> set (lr_observations (report o' [query_of r]))" "lo_replica_id lo = r_id r" for lo
    using alive_not_dead [of "[query_of r]" "query_of r" o' lo] that assms(2) by (simp add: query_of_def)
  then show ?thesis using assms(1) by (auto simp: reap_if_confirmed_dead_def call_out_eq list_ex_iff)
qed

end

text \<open>
  A failed request never costs a live replica its place: with the report of the multi-host backend,
  whichever hosts answered, the reactive reap after a transport error leaves a replica whose container
  runs in the registry.
\<close>

theorem reactive_reap_spares_running:
  assumes "fst (bk_liveness k [query_of r] (w_out w)) = Inr (mh_report cluster [query_of r])" and "mh_alive cluster (query_of r)"
  shows "\<not> fst (reap_if_confirmed_dead (Some k) r w)
    \<and> w_reg (snd (reap_if_confirmed_dead (Some k) r w)) = w_reg w"
  using multi_liveness.reap_spares_alive [OF assms] .

definition cluster_outside :: "unit outside" where
  "cluster_outside = calm_outside\<lparr>bk_liveness := \<lambda>q b. (Inr (mh_report two_hosts q), b)\<rparr>"

lemma reactive_reap_spares_running_witness:
  "\<not> fst (reap_if_confirmed_dead (Some cluster_outside) ready_one (calm_world [ready_one]))"
proof -
  have "mh_alive two_hosts (query_of ready_one)"
    by (auto simp: mh_alive_def two_hosts_def query_owner_def or_option_def query_of_def ready_one_def demo_container_def)
  then show ?thesis
    using reactive_reap_spares_running [of cluster_outside ready_one "calm_world [ready_one]" two_hosts]
    by (simp add: cluster_outside_def)
qed

end
