(* ===== verification/Spawn_Lock.thy ===== *)
theory Spawn_Lock
  imports Proxy_Seats
begin

text \<open>
  The spawn coalescer: one mutex per spec (\<open>state.spawn_locks\<close>) under which the scaler, the reconciliation
  and the proxy start and re-adopt containers (\<open>spawn_one\<close>, \<open>readopt_running_replica\<close>, \<open>pick_or_spawn\<close>). Here
  the sections are interleaved: a task takes the lock, looks at the pool, waits for the backend and only
  then changes the registry, while other tasks remove replicas and count sessions at any time. The
  operations of \<open>Scaler_Ops\<close> and \<open>Proxy_Routing\<close>, which take a section as one step, are runs of this
  relation.
\<close>

section \<open>The relation\<close>

type_synonym task = nat

datatype job = Holding spec | Spawning spec | Adopting spec replica

fun job_spec :: "job \<Rightarrow> spec" where
  "job_spec (Holding sp) = sp"
| "job_spec (Spawning sp) = sp"
| "job_spec (Adopting sp r) = sp"

record lock_world =
  lw_reg :: registry
  lw_holder :: "string \<rightharpoonup> task"
  lw_job :: "task \<rightharpoonup> job"

definition lw_pool :: "lock_world \<Rightarrow> spec \<Rightarrow> replica list" where
  "lw_pool s sp = replicas_of (lw_reg s) (sp_id sp)"

definition release :: "task \<Rightarrow> spec \<Rightarrow> lock_world \<Rightarrow> lock_world" where
  "release t sp s = s\<lparr>lw_holder := (lw_holder s)(sp_id sp := None), lw_job := (lw_job s)(t := None)\<rparr>"

definition keeps_row :: "(replica \<Rightarrow> replica) \<Rightarrow> bool" where
  "keeps_row f \<longleftrightarrow> (\<forall>x. r_id (f x) = r_id x \<and> r_spec_id (f x) = r_spec_id x)"

text \<open>\<open>strict\<close> leaves out the one section that starts a container at the limit: the proxy's, when no replica
  of the full pool is ready.\<close>

inductive lock_step :: "bool \<Rightarrow> spec list \<Rightarrow> lock_world \<Rightarrow> lock_world \<Rightarrow> bool" for strict specs where
  take: "sp \<in> set specs \<Longrightarrow> lw_holder s (sp_id sp) = None \<Longrightarrow> lw_job s t = None \<Longrightarrow>
     lock_step strict specs s (s\<lparr>lw_holder := (lw_holder s)(sp_id sp \<mapsto> t), lw_job := (lw_job s)(t \<mapsto> Holding sp)\<rparr>)"
| give_up: "lw_job s t = Some (Holding sp) \<Longrightarrow> lock_step strict specs s (release t sp s)"
| spawn_begin: "lw_job s t = Some (Holding sp) \<Longrightarrow> length (lw_pool s sp) < unat (effective_max_replicas sp) \<Longrightarrow>
     lock_step strict specs s (s\<lparr>lw_job := (lw_job s)(t \<mapsto> Spawning sp)\<rparr>)"
| spawn_forced: "\<not> strict \<Longrightarrow> lw_job s t = Some (Holding sp) \<Longrightarrow> \<not> list_ex (\<lambda>r. r_state r = Ready) (lw_pool s sp) \<Longrightarrow>
     lock_step strict specs s (s\<lparr>lw_job := (lw_job s)(t \<mapsto> Spawning sp)\<rparr>)"
| spawn_ok: "lw_job s t = Some (Spawning sp) \<Longrightarrow> r_spec_id r = sp_id sp \<Longrightarrow> r_id r \<notin> reg_ids (lw_reg s) \<Longrightarrow>
     lock_step strict specs s (release t sp (s\<lparr>lw_reg := reg_add r (lw_reg s)\<rparr>))"
| spawn_failed: "lw_job s t = Some (Spawning sp) \<Longrightarrow> lock_step strict specs s (release t sp s)"
| adopt_begin: "lw_job s t = Some (Holding sp) \<Longrightarrow> r_spec_id r = sp_id sp \<Longrightarrow>
     r_id r \<in> r_id ` set (lw_pool s sp) \<or> length (lw_pool s sp) < unat (effective_max_replicas sp) \<Longrightarrow>
     lock_step strict specs s (s\<lparr>lw_job := (lw_job s)(t \<mapsto> Adopting sp r)\<rparr>)"
| adopt_ok: "lw_job s t = Some (Adopting sp r) \<Longrightarrow>
     lock_step strict specs s (release t sp (s\<lparr>lw_reg := reg_upsert (adopted sp r) (lw_reg s)\<rparr>))"
| adopt_failed: "lw_job s t = Some (Adopting sp r) \<Longrightarrow> lock_step strict specs s (release t sp s)"
| remove: "lock_step strict specs s (s\<lparr>lw_reg := snd (reg_remove i (lw_reg s))\<rparr>)"
| touch: "keeps_row f \<Longrightarrow> lock_step strict specs s (s\<lparr>lw_reg := reg_update i f (lw_reg s)\<rparr>)"

inductive_cases lock_stepE: "lock_step strict specs s s'"

abbreviation lock_steps :: "bool \<Rightarrow> spec list \<Rightarrow> lock_world \<Rightarrow> lock_world \<Rightarrow> bool" where
  "lock_steps strict specs \<equiv> (lock_step strict specs)\<^sup>*\<^sup>*"

section \<open>The invariant\<close>

fun job_room :: "job \<Rightarrow> replica list \<Rightarrow> nat" where
  "job_room (Holding sp) rs = length rs"
| "job_room (Spawning sp) rs = Suc (length rs)"
| "job_room (Adopting sp r) rs = Suc (length (filter (\<lambda>x. r_id x \<noteq> r_id r) rs))"

fun job_ok :: "job \<Rightarrow> bool" where
  "job_ok (Adopting sp r) \<longleftrightarrow> r_spec_id r = sp_id sp"
| "job_ok _ \<longleftrightarrow> True"

definition lock_inv :: "spec list \<Rightarrow> lock_world \<Rightarrow> bool" where
  "lock_inv specs s \<longleftrightarrow> reg_wf (lw_reg s)
     \<and> (\<forall>sp \<in> set specs. length (lw_pool s sp) \<le> unat (effective_max_replicas sp))
     \<and> (\<forall>t j. lw_job s t = Some j \<longrightarrow> job_ok j \<and> job_spec j \<in> set specs \<and> lw_holder s (sp_id (job_spec j)) = Some t
          \<and> job_room j (lw_pool s (job_spec j)) \<le> unat (effective_max_replicas (job_spec j)))"

lemma lock_invD:
  assumes "lock_inv specs s"
  shows "reg_wf (lw_reg s)" "sp \<in> set specs \<Longrightarrow> length (lw_pool s sp) \<le> unat (effective_max_replicas sp)"
    "lw_job s t = Some j \<Longrightarrow> job_ok j \<and> job_spec j \<in> set specs \<and> lw_holder s (sp_id (job_spec j)) = Some t
       \<and> job_room j (lw_pool s (job_spec j)) \<le> unat (effective_max_replicas (job_spec j))"
  using assms by (auto simp: lock_inv_def)

lemma release_simps [simp]:
  "lw_reg (release t sp s) = lw_reg s" "lw_job (release t sp s) = (lw_job s)(t := None)"
  "lw_holder (release t sp s) = (lw_holder s)(sp_id sp := None)" "lw_pool (release t sp s) = lw_pool s"
  by (simp_all add: release_def lw_pool_def fun_eq_iff)

text \<open>The holder of a lock is the only task at work on the spec.\<close>

lemma one_holder:
  "lock_inv specs s \<Longrightarrow> lw_job s t = Some j \<Longrightarrow> lw_job s t' = Some j' \<Longrightarrow> sp_id (job_spec j) = sp_id (job_spec j') \<Longrightarrow> t = t'"
  using lock_invD(3) [of specs s t j] lock_invD(3) [of specs s t' j'] by simp

lemma lock_inv_release:
  assumes "lock_inv specs s" and "lw_job s t = Some j"
  shows "lock_inv specs (release t (job_spec j) s)"
  using assms(1) one_holder [OF assms(1) _ assms(2)] by (fastforce simp: lock_inv_def)

lemma inv_job:
  assumes "lock_inv specs s" and "lw_job s t = Some (Holding sp)" and "job_spec j = sp" and "job_ok j"
    and "job_room j (lw_pool s sp) \<le> unat (effective_max_replicas sp)"
  shows "lock_inv specs (s\<lparr>lw_job := (lw_job s)(t \<mapsto> j)\<rparr>)"
  using assms lock_invD(3) [OF assms(1,2)] by (auto simp: lock_inv_def lw_pool_def)

text \<open>Pools that only shrink keep every promise.\<close>

lemma room_mono: "length rs' \<le> length rs \<Longrightarrow> (\<And>i. length (filter (\<lambda>x. r_id x \<noteq> i) rs') \<le> length (filter (\<lambda>x. r_id x \<noteq> i) rs)) \<Longrightarrow>
    job_room j rs' \<le> job_room j rs"
  by (cases j) auto

lemma inv_shrink:
  assumes "lock_inv specs s" and "reg_wf reg"
    and "\<And>i x. length (replicas_of reg i) \<le> length (replicas_of (lw_reg s) i)
       \<and> length (filter (\<lambda>y. r_id y \<noteq> x) (replicas_of reg i)) \<le> length (filter (\<lambda>y. r_id y \<noteq> x) (replicas_of (lw_reg s) i))"
  shows "lock_inv specs (s\<lparr>lw_reg := reg\<rparr>)"
  unfolding lock_inv_def
proof (intro conjI ballI allI impI)
  let ?s = "s\<lparr>lw_reg := reg\<rparr>"
  show "reg_wf (lw_reg ?s)" using assms(2) by simp
  fix sp assume "sp \<in> set specs"
  with lock_invD(2) [OF assms(1)] have "length (lw_pool s sp) \<le> unat (effective_max_replicas sp)" .
  moreover have "length (lw_pool ?s sp) \<le> length (lw_pool s sp)" using assms(3) by (simp add: lw_pool_def)
  ultimately show "length (lw_pool ?s sp) \<le> unat (effective_max_replicas sp)" by simp
next
  let ?s = "s\<lparr>lw_reg := reg\<rparr>"
  fix t j assume "lw_job ?s t = Some j"
  then have j: "lw_job s t = Some j" by simp
  note d = lock_invD(3) [OF assms(1) j]
  then show "job_ok j" "job_spec j \<in> set specs" "lw_holder ?s (sp_id (job_spec j)) = Some t" by simp_all
  have "job_room j (lw_pool ?s (job_spec j)) \<le> job_room j (lw_pool s (job_spec j))"
    unfolding lw_pool_def using assms(3) by (intro room_mono) simp_all
  with d show "job_room j (lw_pool ?s (job_spec j)) \<le> unat (effective_max_replicas (job_spec j))" by simp
qed

text \<open>The holder may use the room it has found.\<close>

lemma inv_grow:
  assumes inv: "lock_inv specs s" and j: "lw_job s t = Some j" and wf: "reg_wf reg" and d: "distinct (map sp_id specs)"
    and here: "length (replicas_of reg (sp_id (job_spec j))) \<le> unat (effective_max_replicas (job_spec j))"
    and other: "\<And>i x. i \<noteq> sp_id (job_spec j) \<Longrightarrow> length (replicas_of reg i) \<le> length (replicas_of (lw_reg s) i)
       \<and> length (filter (\<lambda>y. r_id y \<noteq> x) (replicas_of reg i)) \<le> length (filter (\<lambda>y. r_id y \<noteq> x) (replicas_of (lw_reg s) i))"
  shows "lock_inv specs (release t (job_spec j) (s\<lparr>lw_reg := reg\<rparr>))"
  unfolding lock_inv_def
proof (intro conjI ballI allI impI)
  let ?s = "release t (job_spec j) (s\<lparr>lw_reg := reg\<rparr>)"
  show "reg_wf (lw_reg ?s)" using wf by simp
  fix sp assume sp: "sp \<in> set specs"
  show "length (lw_pool ?s sp) \<le> unat (effective_max_replicas sp)"
  proof (cases "sp_id sp = sp_id (job_spec j)")
    case True
    then have "sp = job_spec j" using sp lock_invD(3) [OF inv j] d by (metis distinct_map inj_onD)
    with here show ?thesis by (simp add: lw_pool_def)
  next
    case False
    from lock_invD(2) [OF inv sp] have "length (lw_pool s sp) \<le> unat (effective_max_replicas sp)" .
    with other [OF False] show ?thesis by (simp add: lw_pool_def) (meson order_trans)
  qed
next
  let ?s = "release t (job_spec j) (s\<lparr>lw_reg := reg\<rparr>)"
  fix t' j' assume "lw_job ?s t' = Some j'"
  then have j': "lw_job s t' = Some j'" and "t' \<noteq> t" by (auto split: if_splits)
  then have ne: "sp_id (job_spec j') \<noteq> sp_id (job_spec j)" using one_holder [OF inv j' j] by blast
  note d' = lock_invD(3) [OF inv j']
  with ne show "job_ok j'" "job_spec j' \<in> set specs" "lw_holder ?s (sp_id (job_spec j')) = Some t'" by simp_all
  have "job_room j' (lw_pool ?s (job_spec j')) \<le> job_room j' (lw_pool s (job_spec j'))"
    using other [OF ne] by (intro room_mono) (simp_all add: lw_pool_def)
  with d' show "job_room j' (lw_pool ?s (job_spec j')) \<le> unat (effective_max_replicas (job_spec j'))" by simp
qed

section \<open>Every step keeps it\<close>

lemma inv_take:
  assumes "lock_inv specs s" and "sp \<in> set specs" and "lw_holder s (sp_id sp) = None" and "lw_job s t = None"
  shows "lock_inv specs (s\<lparr>lw_holder := (lw_holder s)(sp_id sp \<mapsto> t), lw_job := (lw_job s)(t \<mapsto> Holding sp)\<rparr>)"
  using assms lock_invD(3) [OF assms(1)] by (auto simp: lock_inv_def lw_pool_def split: if_splits) fastforce+

lemma filter_le_length: "length (filter P (filter Q xs)) \<le> length (filter P xs)"
  by (induction xs) auto

lemma remove_shrinks:
  assumes "reg_wf reg"
  shows "length (replicas_of (snd (reg_remove i reg)) s) \<le> length (replicas_of reg s)
    \<and> length (filter (\<lambda>y. r_id y \<noteq> x) (replicas_of (snd (reg_remove i reg)) s)) \<le> length (filter (\<lambda>y. r_id y \<noteq> x) (replicas_of reg s))"
  by (simp only: rp.pool_remove [OF assms] length_filter_le filter_le_length simp_thms)

lemma lock_inv_step:
  assumes "lock_step True specs s s'" and inv: "lock_inv specs s" and d: "distinct (map sp_id specs)"
  shows "lock_inv specs s'"
  using assms(1)
proof cases
  case (take sp t)
  with inv_take [OF inv] show ?thesis by simp
next
  case (give_up t sp)
  with lock_inv_release [OF inv] show ?thesis by force
next
  case (spawn_begin t sp)
  with inv_job [OF inv, of t sp "Spawning sp"] show ?thesis by simp
next
  case (spawn_ok t sp r)
  note j = lock_invD(3) [OF inv spawn_ok(2)]
  have "lock_inv specs (release t (job_spec (Spawning sp)) (s\<lparr>lw_reg := reg_add r (lw_reg s)\<rparr>))"
  proof (rule inv_grow [OF inv spawn_ok(2) _ d])
    show "reg_wf (reg_add r (lw_reg s))" using rp.inv_add [OF lock_invD(1) [OF inv] spawn_ok(4)] .
  qed (use j spawn_ok(3) in \<open>simp_all add: lw_pool_def\<close>)
  with spawn_ok(1) show ?thesis by simp
next
  case (spawn_failed t sp)
  with lock_inv_release [OF inv] show ?thesis by force
next
  case (adopt_begin t sp r)
  have "job_room (Adopting sp r) (lw_pool s sp) \<le> unat (effective_max_replicas sp)"
  proof (cases "r_id r \<in> r_id ` set (lw_pool s sp)")
    case True
    then obtain x where x: "x \<in> set (lw_pool s sp)" "r_id x = r_id r" by auto
    have "Suc (length (filter (\<lambda>y. r_id y \<noteq> r_id x) (lw_pool s sp))) = length (lw_pool s sp)"
      using x(1) rp.pool_distinct [OF lock_invD(1) [OF inv]] unfolding lw_pool_def by (intro rp.filter_ne_length)
    with x(2) lock_invD(3) [OF inv adopt_begin(2)] show ?thesis by simp
  next
    case False
    with adopt_begin(4) have "length (lw_pool s sp) < unat (effective_max_replicas sp)" by blast
    then show ?thesis unfolding job_room.simps Suc_le_eq by (rule le_less_trans [OF length_filter_le])
  qed
  with inv_job [OF inv adopt_begin(2), of "Adopting sp r"] adopt_begin(1,3) show ?thesis by simp
next
  case (adopt_ok t sp r)
  note j = lock_invD(3) [OF inv adopt_ok(2)]
  note wf = lock_invD(1) [OF inv]
  have pool: "replicas_of (reg_upsert (adopted sp r) (lw_reg s)) i = filter (\<lambda>x. r_id x \<noteq> r_id r) (replicas_of (lw_reg s) i)
      @ (if i = r_spec_id r then [adopted sp r] else [])" for i
    using rp.pool_upsert [OF wf, of "adopted sp r" i] by (simp add: upsert_eq)
  have "lock_inv specs (release t (job_spec (Adopting sp r)) (s\<lparr>lw_reg := reg_upsert (adopted sp r) (lw_reg s)\<rparr>))"
  proof (rule inv_grow [OF inv adopt_ok(2) _ d])
    show "reg_wf (reg_upsert (adopted sp r) (lw_reg s))" by (rule reg_wf_upsert [OF wf])
    show "length (replicas_of (reg_upsert (adopted sp r) (lw_reg s)) (sp_id (job_spec (Adopting sp r))))
       \<le> unat (effective_max_replicas (job_spec (Adopting sp r)))"
      unfolding pool using j by (simp add: lw_pool_def)
    fix i x assume "i \<noteq> sp_id (job_spec (Adopting sp r))"
    with j have "i \<noteq> r_spec_id r" by simp
    then show "length (replicas_of (reg_upsert (adopted sp r) (lw_reg s)) i) \<le> length (replicas_of (lw_reg s) i)
       \<and> length (filter (\<lambda>y. r_id y \<noteq> x) (replicas_of (reg_upsert (adopted sp r) (lw_reg s)) i)) \<le> length (filter (\<lambda>y. r_id y \<noteq> x) (replicas_of (lw_reg s) i))"
      unfolding pool by (simp only: if_False append_Nil2 length_filter_le filter_le_length simp_thms)
  qed
  with adopt_ok(1) show ?thesis by simp
next
  case (adopt_failed t sp r)
  with lock_inv_release [OF inv] show ?thesis by force
next
  case (remove i)
  with inv_shrink [OF inv reg_wf_remove [OF lock_invD(1) [OF inv]] remove_shrinks [OF lock_invD(1) [OF inv]]] show ?thesis by simp
next
  case (touch f i)
  note wf = lock_invD(1) [OF inv]
  have "reg_wf (reg_update i f (lw_reg s))" by (rule reg_wf_update [OF wf]) (use touch(2) in \<open>simp add: keeps_row_def\<close>)
  moreover have "length (filter (\<lambda>y. r_id y \<noteq> x) (map (on_id i f) rs)) \<le> length (filter (\<lambda>y. r_id y \<noteq> x) rs)" for x rs
    using touch(2) by (induction rs) (auto simp: keeps_row_def)
  ultimately show ?thesis using touch(1) inv_shrink [OF inv] by (simp add: replicas_of_update [OF wf])
qed simp

section \<open>Properties\<close>

definition idle_locks :: "registry \<Rightarrow> lock_world" where
  "idle_locks reg = \<lparr>lw_reg = reg, lw_holder = Map.empty, lw_job = Map.empty\<rparr>"

lemma lock_inv_run:
  "lock_steps True specs s s' \<Longrightarrow> lock_inv specs s \<Longrightarrow> distinct (map sp_id specs) \<Longrightarrow> lock_inv specs s'"
  by (induction rule: rtranclp_induct) (auto intro: lock_inv_step)


text \<open>Two tasks want a container for an app with one slot; the second gets nothing.\<close>

definition one_slot :: spec where
  "one_slot = roster_spec 0 1"

definition race_state :: "replica list \<Rightarrow> (string \<rightharpoonup> task) \<Rightarrow> (task \<rightharpoonup> job) \<Rightarrow> lock_world" where
  "race_state rs holder jobs = \<lparr>lw_reg = [(''app'', rs)], lw_holder = holder, lw_job = jobs\<rparr>"

lemma one_slot_simps [simp]: "sp_id one_slot = ''app''" "effective_max_replicas one_slot = 1"
  by (simp_all add: one_slot_def)

lemma race_reg: "reg_add (idle_replica 0) [(''app'', [])] = [(''app'', [idle_replica 0])]"
  by (simp add: reg_add_def replicas_of_def table_get_def table_put_def idle_replica_def)

lemma race_run:
  "lock_steps True [one_slot] (race_state [] Map.empty Map.empty) (race_state [idle_replica 0] Map.empty Map.empty)"
proof -
  let ?a = "race_state [] Map.empty Map.empty" and ?b = "race_state [] [''app'' \<mapsto> 1] [1 \<mapsto> Holding one_slot]"
    and ?c = "race_state [] [''app'' \<mapsto> 1] [1 \<mapsto> Spawning one_slot]"
  have "lock_step True [one_slot] ?a ?b"
    using take [of one_slot "[one_slot]" ?a 1] by (simp add: race_state_def)
  moreover have "lock_step True [one_slot] ?b ?c"
    using spawn_begin [of ?b 1 one_slot] by (simp add: race_state_def lw_pool_def)
  moreover have "lock_step True [one_slot] ?c (race_state [idle_replica 0] Map.empty Map.empty)"
    using spawn_ok [of ?c 1 one_slot "idle_replica 0" True "[one_slot]"]
    by (simp add: race_state_def release_def race_reg reg_ids_def reg_all_def) (simp add: idle_replica_def)
  ultimately show ?thesis by (meson rtranclp.rtrancl_into_rtrancl rtranclp.rtrancl_refl)
qed


section \<open>The code's sections are runs\<close>

lemma idle_update: "(idle_locks reg)\<lparr>lw_reg := reg'\<rparr> = idle_locks reg'"
  by (simp add: idle_locks_def)

lemma run_remove: "lock_steps strict specs (idle_locks reg) (idle_locks (snd (reg_remove i reg)))"
  using lock_step.remove [of strict specs "idle_locks reg" i] by (simp add: idle_update) (simp add: idle_locks_def)

lemma run_touch: "keeps_row f \<Longrightarrow> lock_steps strict specs (idle_locks reg) (idle_locks (reg_update i f reg))"
  using lock_step.touch [of f strict specs "idle_locks reg" i] by (simp add: idle_update) (simp add: idle_locks_def)

lemma run_section:
  assumes "sp \<in> set specs"
    and "lock_step strict specs (\<lparr>lw_reg = reg, lw_holder = [sp_id sp \<mapsto> 0], lw_job = [0 \<mapsto> Holding sp]\<rparr>)
           (\<lparr>lw_reg = reg, lw_holder = [sp_id sp \<mapsto> 0], lw_job = [0 \<mapsto> j]\<rparr>)"
    and "lock_step strict specs (\<lparr>lw_reg = reg, lw_holder = [sp_id sp \<mapsto> 0], lw_job = [0 \<mapsto> j]\<rparr>)
           (release 0 sp \<lparr>lw_reg = reg', lw_holder = [sp_id sp \<mapsto> 0], lw_job = [0 \<mapsto> j]\<rparr>)"
  shows "lock_steps strict specs (idle_locks reg) (idle_locks reg')"
proof -
  have "lock_step strict specs (idle_locks reg) (\<lparr>lw_reg = reg, lw_holder = [sp_id sp \<mapsto> 0], lw_job = [0 \<mapsto> Holding sp]\<rparr>)"
    using lock_step.take [OF assms(1), of "idle_locks reg" 0 strict] by (simp add: idle_locks_def)
  moreover have "release 0 sp \<lparr>lw_reg = reg', lw_holder = [sp_id sp \<mapsto> 0], lw_job = [0 \<mapsto> j]\<rparr> = idle_locks reg'"
    by (simp add: release_def idle_locks_def)
  ultimately show ?thesis using assms(2,3) by (metis rtranclp.rtrancl_into_rtrancl rtranclp.rtrancl_refl)
qed

lemma run_spawn:
  assumes "sp \<in> set specs" and "r_spec_id r = sp_id sp" and "r_id r \<notin> reg_ids reg"
    and "length (replicas_of reg (sp_id sp)) < unat (effective_max_replicas sp)
      \<or> (\<not> strict \<and> \<not> list_ex (\<lambda>r. r_state r = Ready) (replicas_of reg (sp_id sp)))"
  shows "lock_steps strict specs (idle_locks reg) (idle_locks (reg_add r reg))"
proof (rule run_section [OF assms(1), where j = "Spawning sp"])
  let ?h = "\<lparr>lw_reg = reg, lw_holder = [sp_id sp \<mapsto> 0], lw_job = [0 \<mapsto> Holding sp]\<rparr>"
  show "lock_step strict specs ?h (\<lparr>lw_reg = reg, lw_holder = [sp_id sp \<mapsto> 0], lw_job = [0 \<mapsto> Spawning sp]\<rparr>)"
    using assms(4) spawn_begin [of ?h 0 sp strict specs] spawn_forced [of strict ?h 0 sp specs] by (auto simp: lw_pool_def)
  show "lock_step strict specs (\<lparr>lw_reg = reg, lw_holder = [sp_id sp \<mapsto> 0], lw_job = [0 \<mapsto> Spawning sp]\<rparr>)
      (release 0 sp \<lparr>lw_reg = reg_add r reg, lw_holder = [sp_id sp \<mapsto> 0], lw_job = [0 \<mapsto> Spawning sp]\<rparr>)"
    using spawn_ok [of "\<lparr>lw_reg = reg, lw_holder = [sp_id sp \<mapsto> 0], lw_job = [0 \<mapsto> Spawning sp]\<rparr>" 0 sp r strict specs] assms(2,3) by simp
qed

lemma run_adopt:
  assumes "sp \<in> set specs" and "r_spec_id r = sp_id sp"
    and "r_id r \<in> r_id ` set (replicas_of reg (sp_id sp)) \<or> length (replicas_of reg (sp_id sp)) < unat (effective_max_replicas sp)"
  shows "lock_steps strict specs (idle_locks reg) (idle_locks (reg_upsert (adopted sp r) reg))"
proof (rule run_section [OF assms(1), where j = "Adopting sp r"])
  let ?h = "\<lparr>lw_reg = reg, lw_holder = [sp_id sp \<mapsto> 0], lw_job = [0 \<mapsto> Holding sp]\<rparr>"
  show "lock_step strict specs ?h (\<lparr>lw_reg = reg, lw_holder = [sp_id sp \<mapsto> 0], lw_job = [0 \<mapsto> Adopting sp r]\<rparr>)"
    using assms(2,3) adopt_begin [of ?h 0 sp r strict specs] by (simp add: lw_pool_def)
  show "lock_step strict specs (\<lparr>lw_reg = reg, lw_holder = [sp_id sp \<mapsto> 0], lw_job = [0 \<mapsto> Adopting sp r]\<rparr>)
      (release 0 sp \<lparr>lw_reg = reg_upsert (adopted sp r) reg, lw_holder = [sp_id sp \<mapsto> 0], lw_job = [0 \<mapsto> Adopting sp r]\<rparr>)"
    using adopt_ok [of "\<lparr>lw_reg = reg, lw_holder = [sp_id sp \<mapsto> 0], lw_job = [0 \<mapsto> Adopting sp r]\<rparr>" 0 sp r strict specs] by simp
qed

lemma run_seated: "lock_steps strict specs (idle_locks reg) (idle_locks (seated sp i reg))"
  unfolding seated_def inc_sessions_def by (simp add: run_touch keeps_row_def)

lemma run_pick:
  assumes "honest k owner" and "world_ok owner w" and "sp \<in> set specs"
    and "\<not> strict \<or> length (replicas_of (w_reg w) (sp_id sp)) < unat (effective_max_replicas sp)
      \<or> list_ex (\<lambda>r. r_state r = Ready) (replicas_of (w_reg w) (sp_id sp))"
  shows "lock_steps strict specs (idle_locks (w_reg w)) (idle_locks (w_reg (fst (snd (pick_or_spawn (Some k) sp (w, turn))))))"
proof -
  obtain res w' t' where p: "pick_or_spawn (Some k) sp (w, turn) = (res, (w', t'))" by (metis prod.exhaust)
  from assms(1) p have "lock_steps strict specs (idle_locks (w_reg w)) (idle_locks (w_reg w'))"
  proof (cases rule: pick_or_spawn_cases)
    case (reused r)
    show ?thesis unfolding reused(2) by (rule run_seated)
  next
    case (fresh r)
    have "r_id r \<notin> reg_ids (w_reg w)" using fresh_id [OF assms(2) fresh(4)] by (simp add: reg_ids_def)
    from run_spawn [OF assms(3) fresh(3) this, of strict] fresh(8) assms(4)
    have "lock_steps strict specs (idle_locks (w_reg w)) (idle_locks (reg_add r (w_reg w)))"
      by (auto simp: pool_of_def)
    also have "lock_steps strict specs \<dots> (idle_locks (w_reg w'))" unfolding fresh(2) by (rule run_seated)
    finally show ?thesis .
  qed simp
  with p show ?thesis by simp
qed



text \<open>The forced start: one slot, its container stopped, and the next visitor gets a second one.\<close>

definition stopped_replica :: "replica_id \<Rightarrow> replica" where
  "stopped_replica i = (idle_replica i)\<lparr>r_state := Stopped\<rparr>"

lemma cap_can_be_exceeded:
  "lock_steps False [one_slot] (idle_locks [(''app'', [stopped_replica 0])]) (idle_locks [(''app'', [stopped_replica 0, idle_replica 1])])"
proof -
  have "reg_add (idle_replica 1) [(''app'', [stopped_replica 0])] = [(''app'', [stopped_replica 0, idle_replica 1])]"
    by (simp add: reg_add_def replicas_of_def table_get_def table_put_def idle_replica_def)
  moreover have "lock_steps False [one_slot] (idle_locks [(''app'', [stopped_replica 0])])
      (idle_locks (reg_add (idle_replica 1) [(''app'', [stopped_replica 0])]))"
    by (rule run_spawn [of one_slot])
      (simp_all add: reg_ids_def reg_all_def stopped_replica_def idle_replica_def replicas_of_def table_get_def)
  ultimately show ?thesis by simp
qed

end
