(* ===== verification/Proxy_Headers.thy ===== *)
theory Proxy_Headers
  imports Spawn_Inputs Sticky_Cookie
begin

text \<open>
  The header rules of the proxy (\<open>crates/ruscker-admin/src/routes/proxy.rs\<close>): what is stripped from a request
  on its way to a container and from the response on its way back, the identity and routing headers,
  CORS, and the client's key for rate limiting. A header map is the multimap the \<open>http\<close> crate documents:
  for every (lower-case) name the list of its values; a value is its bytes.
\<close>

section \<open>Header maps\<close>

type_synonym headers = "string \<Rightarrow> string list"

definition hm_get :: "string \<Rightarrow> headers \<Rightarrow> string option" where
  "hm_get n h = (case h n of [] \<Rightarrow> None | v # _ \<Rightarrow> Some v)"

definition hm_remove :: "string \<Rightarrow> headers \<Rightarrow> headers" where
  "hm_remove n h = h(n := [])"

definition hm_insert :: "string \<Rightarrow> string \<Rightarrow> headers \<Rightarrow> headers" where
  "hm_insert n v h = h(n := [v])"

definition hm_append :: "string \<Rightarrow> string \<Rightarrow> headers \<Rightarrow> headers" where
  "hm_append n v h = h(n := h n @ [v])"

definition hm_or_insert :: "string \<Rightarrow> string \<Rightarrow> headers \<Rightarrow> headers" where
  "hm_or_insert n v h = (if h n = [] then h(n := [v]) else h)"

text \<open>A value that is text is visible ASCII; any value has no control characters.\<close>

definition visible_ascii :: "char \<Rightarrow> bool" where
  "visible_ascii c \<longleftrightarrow> (32 \<le> byte c \<and> byte c < (127::nat)) \<or> byte c = (9::nat)"

definition to_str :: "string \<Rightarrow> string option" where
  "to_str v = (if list_all visible_ascii v then Some v else None)"

definition value_from_str :: "string \<Rightarrow> string option" where
  "value_from_str s = to_str s"

definition value_from_bytes :: "string \<Rightarrow> string option" where
  "value_from_bytes s = (if list_all (\<lambda>c. (32 \<le> byte c \<and> byte c \<noteq> (127::nat)) \<or> byte c = (9::nat)) s then Some s else None)"

section \<open>Requests\<close>

definition HOP_BY_HOP :: "string list" where
  "HOP_BY_HOP = [''connection'', ''keep-alive'', ''proxy-authenticate'', ''proxy-authorization'', ''te'', ''trailers'',
     ''transfer-encoding'', ''upgrade'', ''host'', ''proxy-connection'']"

definition hop_extra :: "headers \<Rightarrow> string list" where
  "hop_extra h = (case Option.bind (hm_get ''connection'' h) to_str of
     None \<Rightarrow> [] | Some s \<Rightarrow> map (\<lambda>t. lowercase (trim t)) (split_on (CHR '','') s))"

definition strip_hop_headers :: "headers \<Rightarrow> headers" where
  "strip_hop_headers h =
     hm_remove ''x-forwarded-port'' (hm_remove ''x-forwarded-proto''
       (hm_or_insert ''via'' ''1.1 ruscker'' (fold hm_remove (HOP_BY_HOP @ hop_extra h) h)))"

definition RUSCKER_COOKIE_NAMES :: "string list" where
  "RUSCKER_COOKIE_NAMES = [''ruscker_admin_session'', ''ruscker_theme'', ''ruscker_locale'']"

definition is_ruscker_cookie :: "string \<Rightarrow> bool" where
  "is_ruscker_cookie name \<longleftrightarrow> name \<in> set RUSCKER_COOKIE_NAMES \<or> prefix COOKIE_NAME name \<or> prefix ''__ruscker_mfa_'' name"

definition pair_name :: "string \<Rightarrow> string" where
  "pair_name p = trim (takeWhile (\<lambda>c. c \<noteq> CHR ''='') p)"

definition cookie_pairs :: "string \<Rightarrow> string list" where
  "cookie_pairs raw = filter (\<lambda>p. p \<noteq> []) (map trim (split_on (CHR '';'') raw))"

definition filter_ruscker_cookies :: "string \<Rightarrow> string option" where
  "filter_ruscker_cookies raw =
     (let kept = filter (\<lambda>p. \<not> is_ruscker_cookie (pair_name p)) (cookie_pairs raw)
      in if kept = [] then None else Some (join ''; '' kept))"

definition strip_ruscker_cookies :: "headers \<Rightarrow> headers" where
  "strip_ruscker_cookies h =
     (case Option.bind (hm_get ''cookie'' h) to_str of
        None \<Rightarrow> h
      | Some raw \<Rightarrow>
          (case filter_ruscker_cookies raw of
             None \<Rightarrow> hm_remove ''cookie'' h
           | Some kept \<Rightarrow> (case value_from_str kept of Some v \<Rightarrow> hm_insert ''cookie'' v h | None \<Rightarrow> h)))"

definition reserved_identity :: "string \<Rightarrow> bool" where
  "reserved_identity n \<longleftrightarrow> prefix ''x-sp-'' n \<or> prefix ''x-ruscker-user-'' n"

definition strip_reserved_identity_headers :: "headers \<Rightarrow> headers" where
  "strip_reserved_identity_headers h = (\<lambda>n. if reserved_identity n then [] else h n)"

record identity =
  idn_username :: string
  idn_groups :: "string list"
  idn_email :: "string option"
  idn_setor :: "string option"

definition claim_pair :: "identity \<Rightarrow> identity_claim \<Rightarrow> (string \<times> string) list" where
  "claim_pair idn claim =
     (case (case claim of Email \<Rightarrow> (''X-Ruscker-User-Email'', idn_email idn) | Setor \<Rightarrow> (''X-Ruscker-User-Setor'', idn_setor idn)) of
        (n, Some v) \<Rightarrow> if trim v = [] then [] else [(n, v)]
      | (n, None) \<Rightarrow> [])"

definition header_pairs :: "identity \<Rightarrow> bool \<Rightarrow> identity_claim list \<Rightarrow> (string \<times> string) list" where
  "header_pairs idn add_default claims =
     (if add_default then [(''X-SP-UserId'', idn_username idn), (''X-SP-UserGroups'', join '','' (idn_groups idn))] else [])
     @ concat (map (claim_pair idn) claims)"

definition insert_identity :: "(string \<times> string) list \<Rightarrow> headers \<Rightarrow> headers" where
  "insert_identity pairs h =
     foldl (\<lambda>h (n, v). case value_from_bytes v of Some v' \<Rightarrow> hm_insert (lowercase n) v' h | None \<Rightarrow> h) h pairs"

definition apply_smart_routing_headers :: "string \<Rightarrow> bool \<Rightarrow> string option \<Rightarrow> headers \<Rightarrow> headers" where
  "apply_smart_routing_headers pre is_https fwd_host h0 =
     (let h1 = (case value_from_str pre of None \<Rightarrow> h0
            | Some v \<Rightarrow> hm_insert ''x-rstudio-root-path'' v (hm_insert ''x-script-name'' v (hm_insert ''x-forwarded-prefix'' v h0)));
          h2 = hm_insert ''x-forwarded-proto'' (if is_https then ''https'' else ''http'') h1
      in (case fwd_host of None \<Rightarrow> h2 | Some host \<Rightarrow> hm_insert ''x-forwarded-host'' host h2))"

text \<open>The headers a request leaves with.\<close>

definition upstream_headers :: "(string \<times> string) list \<Rightarrow> string \<Rightarrow> bool \<Rightarrow> headers \<Rightarrow> headers" where
  "upstream_headers pairs pre is_https h =
     apply_smart_routing_headers pre is_https (hm_get ''host'' h)
       (insert_identity pairs (strip_ruscker_cookies (strip_reserved_identity_headers (strip_hop_headers h))))"

definition forwarded_for :: "bool \<Rightarrow> string option \<Rightarrow> headers \<Rightarrow> headers" where
  "forwarded_for trusted peer h =
     (let chain = Option.bind (hm_get ''x-forwarded-for'' h) to_str;
          new_xff = (case (peer, chain) of
            (Some ip, Some c) \<Rightarrow> if trusted then Some (c @ '', '' @ ip) else Some ip
          | (Some ip, None) \<Rightarrow> Some ip
          | (None, Some c) \<Rightarrow> if trusted then Some c else None
          | (None, None) \<Rightarrow> None)
      in case Option.bind new_xff value_from_str of
           Some v \<Rightarrow> hm_insert ''x-forwarded-for'' v h | None \<Rightarrow> hm_remove ''x-forwarded-for'' h)"

section \<open>Responses\<close>

text \<open>\<open>str::from_utf8\<close> succeeds.\<close>

fun utf8_ok :: "string \<Rightarrow> bool" where
  "utf8_ok [] \<longleftrightarrow> True"
| "utf8_ok (a # s) \<longleftrightarrow>
     (let x = byte a in
      if x < (128::nat) then utf8_ok s
      else (case s of
          b # s1 \<Rightarrow>
            if 194 \<le> x \<and> x \<le> 223 then 128 \<le> byte b \<and> byte b \<le> (191::nat) \<and> utf8_ok s1
            else (case s1 of
                c # s2 \<Rightarrow>
                  if 224 \<le> x \<and> x \<le> 239
                  then (if x = 224 then 160 else 128) \<le> byte b \<and> byte b \<le> (if x = 237 then 159 else (191::nat))
                     \<and> 128 \<le> byte c \<and> byte c \<le> (191::nat) \<and> utf8_ok s2
                  else (case s2 of
                      d # s3 \<Rightarrow> 240 \<le> x \<and> x \<le> 244 \<and> (if x = 240 then 144 else 128) \<le> byte b
                        \<and> byte b \<le> (if x = 244 then 143 else (191::nat)) \<and> 128 \<le> byte c \<and> byte c \<le> (191::nat)
                        \<and> 128 \<le> byte d \<and> byte d \<le> (191::nat) \<and> utf8_ok s3
                    | [] \<Rightarrow> False)
              | [] \<Rightarrow> False)
        | [] \<Rightarrow> False))"

definition ascii_ws :: "char \<Rightarrow> bool" where
  "ascii_ws c \<longleftrightarrow> byte c \<in> {9, 10, 12, 13, 32::nat}"

definition set_cookie_name :: "string \<Rightarrow> string" where
  "set_cookie_name v = trim_matches ascii_ws (takeWhile (\<lambda>c. c \<noteq> CHR ''='') (takeWhile (\<lambda>c. c \<noteq> CHR '';'') v))"

definition reserved_set_cookie :: "string \<Rightarrow> bool" where
  "reserved_set_cookie v \<longleftrightarrow> utf8_ok (set_cookie_name v) \<and> is_ruscker_cookie (set_cookie_name v)"

definition strip_reserved_set_cookies :: "headers \<Rightarrow> headers" where
  "strip_reserved_set_cookies h =
     foldl (\<lambda>h v. if reserved_set_cookie v then h else hm_append ''set-cookie'' v h) (hm_remove ''set-cookie'' h) (h ''set-cookie'')"

definition SAFE_DIRECTIVES :: "string list" where
  "SAFE_DIRECTIVES = [''cache'', ''storage'', ''executionContexts'', ''clientHints'']"

definition quote :: string where "quote = [CHR 0x22]"

definition safe_directive :: "string \<Rightarrow> bool" where
  "safe_directive entry =
     (case Option.bind (strip_prefix quote entry) (strip_suffix quote) of
        None \<Rightarrow> False
      | Some inner \<Rightarrow> CHR 0x5C \<notin> set inner \<and> list_ex (\<lambda>d. eq_ignore_ascii_case d inner) SAFE_DIRECTIVES)"

definition kept_directives :: "string \<Rightarrow> string list" where
  "kept_directives raw = filter safe_directive (map trim (split_on (CHR '','') raw))"

definition sanitize_clear_site_data :: "headers \<Rightarrow> headers" where
  "sanitize_clear_site_data h =
     foldl (\<lambda>h v. case to_str v of
          None \<Rightarrow> h
        | Some raw \<Rightarrow> if kept_directives raw = [] then h
            else (case value_from_str (join '', '' (kept_directives raw)) of
                None \<Rightarrow> h | Some v' \<Rightarrow> hm_append ''clear-site-data'' v' h))
       (hm_remove ''clear-site-data'' h) (h ''clear-site-data'')"

definition downstream_headers :: "headers \<Rightarrow> headers" where
  "downstream_headers h = sanitize_clear_site_data (strip_reserved_set_cookies (strip_hop_headers h))"

section \<open>CORS, the scheme and the client\<close>

definition apply_cors_headers :: "headers \<Rightarrow> headers" where
  "apply_cors_headers h =
     hm_or_insert ''access-control-max-age'' ''86400'' (hm_or_insert ''access-control-allow-headers'' ''*''
       (hm_or_insert ''access-control-allow-methods'' ''GET, POST, PUT, PATCH, DELETE, OPTIONS, HEAD''
         (hm_or_insert ''access-control-allow-origin'' ''*'' h)))"

definition forward_headers_trusted :: "server \<Rightarrow> bool" where
  "forward_headers_trusted srv \<longleftrightarrow> srv_use_forward_headers srv
     \<or> (case srv_forward_headers_strategy srv of None \<Rightarrow> False | Some s \<Rightarrow> \<not> eq_ignore_ascii_case s ''none'')"

definition request_is_https :: "headers \<Rightarrow> bool \<Rightarrow> bool" where
  "request_is_https h trusted \<longleftrightarrow> trusted \<and>
     (case Option.bind (hm_get ''x-forwarded-proto'' h) to_str of None \<Rightarrow> False
      | Some s \<Rightarrow> eq_ignore_ascii_case (trim (last (split_on (CHR '','') s))) ''https'')"

text \<open>The address parser of the standard library, giving the canonical text, is \<open>parse_ip\<close>.\<close>

definition rightmost_forwarded_ip :: "(string \<Rightarrow> string option) \<Rightarrow> string \<Rightarrow> string option" where
  "rightmost_forwarded_ip parse_ip xff =
     Option.bind (List.find (\<lambda>p. p \<noteq> []) (map trim (rev (split_on (CHR '','') xff)))) parse_ip"

definition client_key :: "(string \<Rightarrow> string option) \<Rightarrow> server \<Rightarrow> headers \<Rightarrow> string option \<Rightarrow> string" where
  "client_key parse_ip srv h peer =
     (case (if forward_headers_trusted srv
            then Option.bind (Option.bind (hm_get ''x-forwarded-for'' h) to_str) (rightmost_forwarded_ip parse_ip) else None) of
        Some ip \<Rightarrow> ip
      | None \<Rightarrow> unwrap_or ''unknown'' peer)"

section \<open>What the rules change\<close>

named_theorems header_frame "values a rule leaves alone"

lemma hm_simps [simp]:
  "hm_remove n h m = (if m = n then [] else h m)" "hm_insert n v h m = (if m = n then [v] else h m)"
  "hm_append n v h m = (if m = n then h n @ [v] else h m)" "hm_or_insert n v h m = (if m = n \<and> h n = [] then [v] else h m)"
  by (auto simp: hm_remove_def hm_insert_def hm_append_def hm_or_insert_def)

lemma fold_remove [simp]: "fold hm_remove ns h n = (if n \<in> set ns then [] else h n)"
  by (induction ns arbitrary: h) auto

lemma strip_hop_at: "strip_hop_headers h n = (if n = ''x-forwarded-port'' \<or> n = ''x-forwarded-proto'' then []
    else if n \<in> set (HOP_BY_HOP @ hop_extra h) then (if n = ''via'' then [''1.1 ruscker''] else [])
    else if n = ''via'' \<and> h n = [] then [''1.1 ruscker''] else h n)"
  unfolding strip_hop_headers_def hm_simps fold_remove by (cases "n = ''via''"; cases "n \<in> set (HOP_BY_HOP @ hop_extra h)") simp_all

lemma strip_cookies_frame [header_frame]: "n \<noteq> ''cookie'' \<Longrightarrow> strip_ruscker_cookies h n = h n"
  by (simp add: strip_ruscker_cookies_def split: option.split)

lemma strip_cookies_empty: "h n = [] \<Longrightarrow> strip_ruscker_cookies h n = []"
  by (cases "n = ''cookie''") (simp_all add: strip_cookies_frame, simp add: strip_ruscker_cookies_def hm_get_def)

lemma insert_identity_simps [simp]:
  "insert_identity [] h = h"
  "insert_identity ((m, v) # ps) h =
     insert_identity ps (case value_from_bytes v of Some v' \<Rightarrow> hm_insert (lowercase m) v' h | None \<Rightarrow> h)"
  by (simp_all add: insert_identity_def)

lemma insert_identity_frame [header_frame]: "n \<notin> (\<lambda>(m, v). lowercase m) ` set pairs \<Longrightarrow> insert_identity pairs h n = h n"
  by (induction pairs arbitrary: h) (auto split: option.split)

lemma insert_identity_at: "h n = g n \<Longrightarrow> insert_identity pairs h n = insert_identity pairs g n"
proof (induction pairs arbitrary: h g)
  case (Cons p pairs)
  obtain m v where p: "p = (m, v)" by (cases p)
  let ?f = "\<lambda>h. case value_from_bytes v of Some v' \<Rightarrow> hm_insert (lowercase m) v' h | None \<Rightarrow> h"
  have "?f h n = ?f g n" using Cons.prems by (simp split: option.split)
  from Cons.IH [of "?f h" "?f g", OF this] p show ?case by simp
qed simp

definition routing_names :: "string list" where
  "routing_names = [''x-rstudio-root-path'', ''x-script-name'', ''x-forwarded-prefix'', ''x-forwarded-proto'', ''x-forwarded-host'']"

lemma smart_routing_frame [header_frame]: "n \<notin> set routing_names \<Longrightarrow> apply_smart_routing_headers pre s host h n = h n"
  by (simp add: apply_smart_routing_headers_def routing_names_def Let_def split: option.split)

lemma set_cookies_frame [header_frame]: "n \<noteq> ''set-cookie'' \<Longrightarrow> strip_reserved_set_cookies h n = h n"
proof -
  assume n: "n \<noteq> ''set-cookie''"
  have "foldl (\<lambda>h v. if reserved_set_cookie v then h else hm_append ''set-cookie'' v h) g vs n = g n" for vs g
    using n by (induction vs arbitrary: g) auto
  then show ?thesis using n by (simp add: strip_reserved_set_cookies_def)
qed

lemma clear_site_frame [header_frame]: "n \<noteq> ''clear-site-data'' \<Longrightarrow> sanitize_clear_site_data h n = h n"
proof -
  assume n: "n \<noteq> ''clear-site-data''"
  have "foldl (\<lambda>h v. case to_str v of None \<Rightarrow> h
        | Some raw \<Rightarrow> if kept_directives raw = [] then h
            else (case value_from_str (join '', '' (kept_directives raw)) of None \<Rightarrow> h | Some v' \<Rightarrow> hm_append ''clear-site-data'' v' h)) g vs n = g n" for vs g
  proof (induction vs arbitrary: g)
    case (Cons v vs)
    show ?case unfolding foldl_Cons Cons.IH using n by (simp split: option.split)
  qed simp
  then show ?thesis using n by (simp add: sanitize_clear_site_data_def)
qed

section \<open>Identity\<close>

lemma identity_values:
  "\<forall>v \<in> set (h n). P v \<Longrightarrow> (\<And>m v. (m, v) \<in> set pairs \<Longrightarrow> lowercase m = n \<Longrightarrow> P v) \<Longrightarrow> \<forall>v \<in> set (insert_identity pairs h n). P v"
proof (induction pairs arbitrary: h)
  case (Cons p pairs)
  obtain m v where p: "p = (m, v)" by (cases p)
  let ?h = "case value_from_bytes v of Some v' \<Rightarrow> hm_insert (lowercase m) v' h | None \<Rightarrow> h"
  have "\<forall>v \<in> set (?h n). P v"
    using Cons.prems(1) Cons.prems(2) [of m v] p by (auto simp: value_from_bytes_def)
  then have "\<forall>v \<in> set (insert_identity pairs ?h n). P v"
  proof (rule Cons.IH)
    show "P v" if "(m, v) \<in> set pairs" "lowercase m = n" for m v using Cons.prems(2) [of m v] that by simp
  qed
  then show ?case by (simp only: p insert_identity_simps)
qed simp

lemma upstream_identity: "reserved_identity n \<Longrightarrow> upstream_headers pairs pre s h n = insert_identity pairs (\<lambda>_. []) n"
proof -
  assume r: "reserved_identity n"
  then have n: "n \<notin> set routing_names" "n \<noteq> ''cookie''" by (auto simp: reserved_identity_def routing_names_def)
  have clean: "strip_ruscker_cookies (strip_reserved_identity_headers (strip_hop_headers h)) n = []"
    using r by (simp add: strip_cookies_frame [OF n(2)] strip_reserved_identity_headers_def)
  show ?thesis unfolding upstream_headers_def smart_routing_frame [OF n(1)] by (rule insert_identity_at) (simp add: clean)
qed

lemma inserted_pairs_only: "g n = [] \<Longrightarrow> \<forall>v \<in> set (insert_identity pairs g n). \<exists>m. (m, v) \<in> set pairs \<and> lowercase m = n"
  by (rule identity_values) auto

text \<open>
  C13: A client cannot forge an identity: whatever headers a request carries, the values the container
  sees under the reserved identity names (\<open>X-SP-*\<close>, \<open>X-Ruscker-User-*\<close>) are those the proxy inserts, each
  the value of an identity pair of the signed-in user, and there are none for an anonymous visitor.
\<close>

theorem identity_not_forgeable:
  assumes "reserved_identity n"
  shows "upstream_headers pairs pre s h n = insert_identity pairs (\<lambda>_. []) n
    \<and> (\<forall>v \<in> set (upstream_headers pairs pre s h n). \<exists>m. (m, v) \<in> set pairs \<and> lowercase m = n)
    \<and> upstream_headers [] pre s h n = []"
  using inserted_pairs_only [of "\<lambda>_. []" n pairs] by (simp add: upstream_identity [OF assms])

lemma identity_names:
  "lowercase ''X-SP-UserId'' = ''x-sp-userid''" "lowercase ''X-SP-UserGroups'' = ''x-sp-usergroups''"
  "lowercase ''X-Ruscker-User-Email'' = ''x-ruscker-user-email''" "lowercase ''X-Ruscker-User-Setor'' = ''x-ruscker-user-setor''"
  by code_simp+

definition demo_identity :: identity where
  "demo_identity = \<lparr>idn_username = ''ana'', idn_groups = [''a'', ''b''], idn_email = None, idn_setor = None\<rparr>"

lemma identity_not_forgeable_witness:
  "upstream_headers (header_pairs demo_identity True []) ''/app/x'' False (\<lambda>n. if n = ''x-sp-userid'' then [''root''] else [])
     ''x-sp-userid'' = [''ana'']"
proof -
  have "reserved_identity ''x-sp-userid''" by (simp add: reserved_identity_def)
  from identity_not_forgeable [OF this] show ?thesis
    by (simp add: header_pairs_def demo_identity_def value_from_bytes_def identity_names)
qed

section \<open>Cookies\<close>

lemma trim_ws_Cons: "is_ws c \<Longrightarrow> trim (c # s) = trim s"
  by (simp add: trim_def trim_start_def)

lemma map_trim_split_join:
  "ws \<noteq> [] \<Longrightarrow> \<forall>w \<in> set ws. c \<notin> set w \<Longrightarrow> is_ws d \<Longrightarrow> c \<noteq> d \<Longrightarrow>
     map trim (split_on c (join [c, d] ws)) = map trim ws"
proof (induction "[c, d]" ws rule: join.induct)
  case (2 x)
  then show ?case by (simp add: split_on_id)
next
  case (3 x y ys)
  have step: "map trim (split_on c (d # s)) = map trim (split_on c s)" for s
    using "3.prems"(3,4) by (cases "split_on c s") (simp_all add: trim_ws_Cons)
  have "split_on c (join [c, d] (x # y # ys)) = x # split_on c (d # join [c, d] (y # ys))"
    using "3.prems"(2) split_on_append_sep [of c x "d # join [c, d] (y # ys)"] by simp
  with 3 step show ?case by simp
qed simp

lemma split_pieces: "w \<in> set (split_on c s) \<Longrightarrow> set w \<subseteq> set s"
proof (induction s arbitrary: w)
  case (Cons x s)
  then show ?case by (cases "split_on c s") (fastforce split: if_splits)+
qed simp

lemma set_trim: "set (trim s) \<subseteq> set s"
  unfolding trim_eq_trim_matches by (rule set_trim_matches)

lemma cookie_pairs_props:
  "p \<in> set (cookie_pairs raw) \<Longrightarrow> p \<noteq> [] \<and> CHR '';'' \<notin> set p \<and> trim p = p \<and> set p \<subseteq> set raw"
proof -
  assume "p \<in> set (cookie_pairs raw)"
  then obtain w where w: "w \<in> set (split_on (CHR '';'') raw)" "p = trim w" "p \<noteq> []" by (auto simp: cookie_pairs_def)
  have "set p \<subseteq> set w" unfolding w(2) by (rule set_trim)
  with w split_pieces [OF w(1)] split_on_no_sep [OF w(1)] show ?thesis by auto
qed

lemma join_chars: "set (join sep ws) \<subseteq> set sep \<union> (\<Union>w \<in> set ws. set w)"
  by (induction sep ws rule: join.induct) auto

lemma cookie_pairs_join:
  assumes "\<forall>p \<in> set ps. p \<noteq> [] \<and> CHR '';'' \<notin> set p \<and> trim p = p" and "ps \<noteq> []"
  shows "cookie_pairs (join ''; '' ps) = ps"
proof -
  have "map trim (split_on (CHR '';'') (join ''; '' ps)) = map trim ps"
    using assms by (intro map_trim_split_join) (simp_all add: is_ws_def)
  also have "\<dots> = ps" using assms by (intro map_idI) simp
  finally show ?thesis using assms by (simp add: cookie_pairs_def filter_id_conv)
qed

text \<open>The pairs that are not the proxy's own go on, in their order.\<close>

lemma strip_cookies_pairs:
  assumes "hm_get ''cookie'' h = Some raw" and "list_all visible_ascii raw"
  shows "concat (map cookie_pairs (strip_ruscker_cookies h ''cookie'')) =
    filter (\<lambda>p. \<not> is_ruscker_cookie (pair_name p)) (cookie_pairs raw)"
proof -
  let ?kept = "filter (\<lambda>p. \<not> is_ruscker_cookie (pair_name p)) (cookie_pairs raw)"
  have raw: "Option.bind (hm_get ''cookie'' h) to_str = Some raw" using assms by (simp add: to_str_def)
  show ?thesis
  proof (cases "?kept = []")
    case True
    with raw show ?thesis by (simp add: strip_ruscker_cookies_def filter_ruscker_cookies_def Let_def)
  next
    case False
    have "set (join ''; '' ?kept) \<subseteq> set ''; '' \<union> set raw"
      using join_chars [of "''; ''" ?kept] cookie_pairs_props [of _ raw] by fastforce
    moreover have "visible_ascii (CHR '';'')" "visible_ascii (CHR '' '')" by (simp_all add: visible_ascii_def)
    ultimately have "list_all visible_ascii (join ''; '' ?kept)" using assms(2) by (auto simp: list_all_iff)
    with raw False have "strip_ruscker_cookies h ''cookie'' = [join ''; '' ?kept]"
      by (simp add: strip_ruscker_cookies_def filter_ruscker_cookies_def Let_def value_from_str_def to_str_def)
    moreover have "cookie_pairs (join ''; '' ?kept) = ?kept"
      using False cookie_pairs_props [of _ raw] by (intro cookie_pairs_join) auto
    ultimately show ?thesis by simp
  qed
qed

lemma upstream_cookie:
  assumes "\<forall>(m, v) \<in> set pairs. reserved_identity (lowercase m)"
  shows "upstream_headers pairs pre s h ''cookie'' = strip_ruscker_cookies (strip_reserved_identity_headers (strip_hop_headers h)) ''cookie''"
proof -
  have "''cookie'' \<notin> set routing_names" by (simp add: routing_names_def)
  moreover have "''cookie'' \<notin> (\<lambda>(m, v). lowercase m) ` set pairs"
  proof
    assume "''cookie'' \<in> (\<lambda>(m, v). lowercase m) ` set pairs"
    then obtain m v where "(m, v) \<in> set pairs" "lowercase m = ''cookie''" by auto
    with assms have "reserved_identity ''cookie''" by fastforce
    then show False by (simp add: reserved_identity_def)
  qed
  ultimately show ?thesis by (simp add: upstream_headers_def header_frame)
qed

lemma header_pairs_reserved: "\<forall>(m, v) \<in> set (header_pairs idn d cs). reserved_identity (lowercase m)"
proof -
  have "m \<in> {''X-SP-UserId'', ''X-SP-UserGroups'', ''X-Ruscker-User-Email'', ''X-Ruscker-User-Setor''}"
    if "(m, v) \<in> set (header_pairs idn d cs)" for m v
  proof -
    from that consider "m \<in> {''X-SP-UserId'', ''X-SP-UserGroups''}" | c where "c \<in> set cs" "(m, v) \<in> set (claim_pair idn c)"
      by (auto simp: header_pairs_def split: if_splits)
    then show ?thesis
    proof cases
      case (2 c)
      from 2(2) show ?thesis by (cases c) (auto simp: claim_pair_def split: option.splits if_splits)
    qed auto
  qed
  moreover have "reserved_identity (lowercase m)"
    if "m \<in> {''X-SP-UserId'', ''X-SP-UserGroups'', ''X-Ruscker-User-Email'', ''X-Ruscker-User-Setor''}" for m
    using that by (auto simp: identity_names reserved_identity_def)
  ultimately show ?thesis by blast
qed

lemma cookie_stage: "strip_reserved_identity_headers (strip_hop_headers h) ''cookie'' = [] \<or>
    strip_reserved_identity_headers (strip_hop_headers h) ''cookie'' = h ''cookie''"
  by (simp add: strip_reserved_identity_headers_def reserved_identity_def strip_hop_at)


definition cookie_headers :: "string \<Rightarrow> headers" where
  "cookie_headers raw = (\<lambda>n. if n = ''cookie'' then [raw] else [])"


section \<open>Responses keep off the portal's cookies\<close>

lemma set_cookies_kept:
  "strip_reserved_set_cookies h ''set-cookie'' = filter (\<lambda>v. \<not> reserved_set_cookie v) (h ''set-cookie'')"
proof -
  have "foldl (\<lambda>h v. if reserved_set_cookie v then h else hm_append ''set-cookie'' v h) g vs ''set-cookie''
      = g ''set-cookie'' @ filter (\<lambda>v. \<not> reserved_set_cookie v) vs" for g vs
  proof (induction vs arbitrary: g)
    case (Cons v vs)
    show ?case unfolding foldl_Cons Cons.IH by simp
  qed simp
  then show ?thesis by (simp add: strip_reserved_set_cookies_def)
qed

definition directives :: "string \<Rightarrow> string list" where
  "directives v = map trim (split_on (CHR '','') v)"

lemma directives_join:
  assumes "kept_directives raw \<noteq> []"
  shows "directives (join '', '' (kept_directives raw)) = kept_directives raw"
proof -
  have p: "CHR '','' \<notin> set e \<and> trim e = e" if "e \<in> set (kept_directives raw)" for e
  proof -
    from that obtain w where w: "w \<in> set (split_on (CHR '','') raw)" "e = trim w" by (auto simp: kept_directives_def)
    have "set e \<subseteq> set w" unfolding w(2) by (rule set_trim)
    with w split_on_no_sep [OF w(1)] show ?thesis by auto
  qed
  have "directives (join '', '' (kept_directives raw)) = map trim (kept_directives raw)"
    unfolding directives_def using p assms by (intro map_trim_split_join) (simp_all add: is_ws_def)
  also have "\<dots> = kept_directives raw" using p by (intro map_idI) simp
  finally show ?thesis .
qed

lemma clear_site_safe:
  "v \<in> set (sanitize_clear_site_data h ''clear-site-data'') \<Longrightarrow> list_all safe_directive (directives v)"
proof -
  let ?f = "\<lambda>h v. case to_str v of None \<Rightarrow> h
        | Some raw \<Rightarrow> if kept_directives raw = [] then h
            else (case value_from_str (join '', '' (kept_directives raw)) of None \<Rightarrow> h | Some v' \<Rightarrow> hm_append ''clear-site-data'' v' h)"
  let ?safe = "\<lambda>g. list_all (\<lambda>v. list_all safe_directive (directives v)) (g ''clear-site-data'')"
  have "?safe g \<Longrightarrow> ?safe (foldl ?f g vs)" for g vs
  proof (induction vs arbitrary: g)
    case (Cons v vs)
    have "list_all safe_directive (kept_directives raw)" for raw by (simp add: kept_directives_def list_all_iff)
    then have "?safe (?f g v)" using Cons.prems directives_join by (auto simp: value_from_str_def to_str_def)
    from Cons.IH [of "?f g v", OF this] show ?case by simp
  qed simp
  from this [of "hm_remove ''clear-site-data'' h"] show
    "v \<in> set (sanitize_clear_site_data h ''clear-site-data'') \<Longrightarrow> list_all safe_directive (directives v)"
    by (simp add: sanitize_clear_site_data_def list_all_iff)
qed



section \<open>Hop-by-hop headers\<close>

text \<open>
  Hop-by-hop headers stop at the proxy: a header of the fixed list or one the client's Connection header
  names does not reach the container, unless the proxy sets it itself afterwards; since the address of
  the client (X-Forwarded-For) is set before this step, a client that names it there removes it.
\<close>

theorem hop_headers_withheld:
  assumes "n \<in> set (HOP_BY_HOP @ hop_extra h)" and "n \<notin> set routing_names" and "n \<noteq> ''via''"
    and "n \<notin> (\<lambda>(m, v). lowercase m) ` set pairs"
  shows "upstream_headers pairs pre s (forwarded_for trusted peer h) n = []"
proof -
  have "hop_extra (forwarded_for trusted peer h) = hop_extra h"
    by (simp add: hop_extra_def forwarded_for_def hm_get_def Let_def split: option.split)
  with assms(1,3) have "strip_hop_headers (forwarded_for trusted peer h) n = []" by (simp add: strip_hop_at)
  then have "strip_reserved_identity_headers (strip_hop_headers (forwarded_for trusted peer h)) n = []"
    by (simp add: strip_reserved_identity_headers_def)
  then have "strip_ruscker_cookies (strip_reserved_identity_headers (strip_hop_headers (forwarded_for trusted peer h))) n = []"
    by (rule strip_cookies_empty)
  then show ?thesis by (simp add: upstream_headers_def smart_routing_frame [OF assms(2)] insert_identity_frame [OF assms(4)])
qed

definition dropping_client :: headers where
  "dropping_client = (\<lambda>n. if n = ''connection'' then [''x-forwarded-for''] else [])"

lemma hop_headers_withheld_witness:
  "upstream_headers [] ''/app/x'' False (forwarded_for True (Some ''10.0.0.9'') dropping_client) ''x-forwarded-for'' = []"
proof -
  have "hop_extra dropping_client = [''x-forwarded-for'']" by code_simp
  then show ?thesis
    by (intro hop_headers_withheld) (simp_all add: routing_names_def)
qed

section \<open>The client's key\<close>

lemma last_split: "c \<notin> set b \<Longrightarrow> split_on c (a @ c # b) = split_on c a @ [b]"
proof (induction a)
  case Nil
  then show ?case by (simp add: split_on_id)
next
  case (Cons x a)
  then show ?case by (cases "split_on c a") (auto split: list.splits)
qed

text \<open>
  A client cannot choose its rate-limit key: behind a trusted proxy, whatever the client wrote into
  X-Forwarded-For before the entry the proxy appended, the key is that of the appended entry alone; and
  without the opt-in the header plays no part.
\<close>

theorem client_key_not_forgeable:
  assumes "h ''x-forwarded-for'' = [forged @ '','' @ appended]" and "CHR '','' \<notin> set appended" and "trim appended \<noteq> []"
    and "list_all visible_ascii (forged @ '','' @ appended)"
  shows "client_key parse_ip srv h peer =
    (if forward_headers_trusted srv then unwrap_or (unwrap_or ''unknown'' peer) (parse_ip (trim appended)) else unwrap_or ''unknown'' peer)"
proof -
  have "hm_get ''x-forwarded-for'' h = Some (forged @ '','' @ appended)" using assms(1) by (simp add: hm_get_def)
  moreover have "to_str (forged @ '','' @ appended) = Some (forged @ '','' @ appended)" using assms(4) by (simp add: to_str_def)
  moreover have "rightmost_forwarded_ip parse_ip (forged @ '','' @ appended) = parse_ip (trim appended)"
    using assms(3) last_split [OF assms(2), of forged] by (simp add: rightmost_forwarded_ip_def)
  ultimately show ?thesis by (simp add: client_key_def unwrap_or_def split: option.split)
qed

definition behind_proxy :: server where
  "behind_proxy = \<lparr>srv_use_forward_headers = True, srv_forward_headers_strategy = None, srv_secure_cookies = False,
     srv_servlet = None, srv_flat_servlet_session_timeout = None, srv_context_path = None,
     srv_flat_servlet_context_path = None, srv_timezone = None\<rparr>"

lemma client_key_not_forgeable_witness:
  "client_key Some behind_proxy (\<lambda>n. if n = ''x-forwarded-for'' then [''1.1.1.1, 10.0.0.9''] else []) (Some ''127.0.0.1'') = ''10.0.0.9''"
proof -
  have v: "list_all visible_ascii ''1.1.1.1, 10.0.0.9''" and t: "trim '' 10.0.0.9'' = ''10.0.0.9''" by code_simp+
  show ?thesis
    using client_key_not_forgeable [of "\<lambda>n. if n = ''x-forwarded-for'' then [''1.1.1.1, 10.0.0.9''] else []" "''1.1.1.1''" "'' 10.0.0.9''"
        Some behind_proxy "Some ''127.0.0.1''"] v t
    by (simp add: forward_headers_trusted_def behind_proxy_def)
qed

end
