(* ===== verification/Mfa.thy ===== *)
theory Mfa
  imports Config_Schema Rate_Limiter Sticky_Cookie
begin

text \<open>
  The second factor (\<open>crates/ruscker-admin/src/mfa.rs\<close>): checking a time-based code, recovery codes and
  device tokens, the decision whether a browser's proof satisfies an app, and the limiter of attempts.
  SHA-256, hexadecimal text, the TOTP generator, random bytes and the rows of the database are
  parameters. Text is ASCII here: white space and upper case beyond ASCII are not told apart.
\<close>

section \<open>What is not ours\<close>

record mfa_crypto =
  cr_sha256 :: "u8 list \<Rightarrow> u8 list"
  cr_hex :: "u8 list \<Rightarrow> string"
  cr_unhex :: "string \<Rightarrow> u8 list option"
  cr_totp :: "string \<Rightarrow> string \<Rightarrow> string + (nat \<Rightarrow> string)"

definition bytes_of :: "string \<Rightarrow> u8 list" where
  "bytes_of s = map (\<lambda>c. of_nat (byte c)) s"

definition SHA256_OUTPUT_LEN :: nat where "SHA256_OUTPUT_LEN = 32"

text \<open>What the two crates document: hexadecimal text is digits and reads back; a digest has 32 bytes.\<close>

definition good_crypto :: "mfa_crypto \<Rightarrow> bool" where
  "good_crypto cr \<longleftrightarrow> (\<forall>bs. cr_unhex cr (cr_hex cr bs) = Some bs \<and> CHR '':'' \<notin> set (cr_hex cr bs))
     \<and> (\<forall>bs. length (cr_sha256 cr bs) = SHA256_OUTPUT_LEN)"

section \<open>Time-based codes\<close>

definition try_step :: "(nat \<Rightarrow> string) \<Rightarrow> string \<Rightarrow> int \<Rightarrow> bool" where
  "try_step generate code step \<longleftrightarrow> 0 \<le> step \<and> code = generate (nat (step * 30))"

definition verify_totp_step :: "mfa_crypto \<Rightarrow> (string + nat) \<Rightarrow> string \<Rightarrow> string \<Rightarrow> string \<Rightarrow> string + int option" where
  "verify_totp_step cr clock secret username code =
     (if length code \<noteq> 6 \<or> \<not> list_all is_digit code then Inr None
      else (case clock of
          Inl e \<Rightarrow> Inl e
        | Inr now \<Rightarrow>
            (case cr_totp cr secret username of
               Inl e \<Rightarrow> Inl e
             | Inr generate \<Rightarrow>
                 (let current = int (now div 30)
                  in Inr (List.find (try_step generate code) (map (\<lambda>off. current + off) [0, -1, 1]))))))"

definition verify_totp :: "mfa_crypto \<Rightarrow> (string + nat) \<Rightarrow> string \<Rightarrow> string \<Rightarrow> string \<Rightarrow> string + bool" where
  "verify_totp cr clock secret username code =
     (case verify_totp_step cr clock secret username code of Inl e \<Rightarrow> Inl e | Inr s \<Rightarrow> Inr (s \<noteq> None))"

section \<open>Recovery codes and device tokens\<close>

definition RECOVERY_ALPHABET :: string where
  "RECOVERY_ALPHABET = ''ABCDEFGHJKLMNPQRSTUVWXYZ23456789''"

definition RECOVERY_CODE_COUNT :: nat where "RECOVERY_CODE_COUNT = 10"
definition RECOVERY_CODE_LEN :: nat where "RECOVERY_CODE_LEN = 10"
definition RECOVERY_GROUP :: nat where "RECOVERY_GROUP = 5"

fun chunks :: "nat \<Rightarrow> 'a list \<Rightarrow> 'a list list" where
  "chunks n xs = (if n = 0 \<or> xs = [] then [] else take n xs # chunks n (drop n xs))"

declare chunks.simps [simp del]

definition recovery_char :: "u8 \<Rightarrow> char" where
  "recovery_char b = RECOVERY_ALPHABET ! unat (and b 31)"

definition generate_recovery_codes :: "u8 list option \<Rightarrow> string + string list" where
  "generate_recovery_codes random =
     (case random of None \<Rightarrow> Inl ''generate recovery codes''
      | Some bs \<Rightarrow> Inr (map (map recovery_char) (filter (\<lambda>c. length c = RECOVERY_CODE_LEN) (chunks RECOVERY_CODE_LEN bs))))"

definition upper_char :: "char \<Rightarrow> char" where
  "upper_char c = (if is_lower c then char_of (byte c - 32) else c)"

definition normalize_recovery_code :: "string \<Rightarrow> string" where
  "normalize_recovery_code code = map upper_char (filter (\<lambda>c. \<not> is_ws c \<and> c \<noteq> CHR ''-'') code)"

definition format_recovery_code :: "string \<Rightarrow> string" where
  "format_recovery_code code = join ''-'' (chunks RECOVERY_GROUP code)"

definition salted :: "mfa_crypto \<Rightarrow> u8 list \<Rightarrow> string \<Rightarrow> u8 list" where
  "salted cr salt s = cr_sha256 cr (salt @ bytes_of s)"

definition stored_hash :: "mfa_crypto \<Rightarrow> u8 list \<Rightarrow> string \<Rightarrow> string" where
  "stored_hash cr salt s = cr_hex cr salt @ '':'' @ cr_hex cr (salted cr salt s)"

definition hash_recovery_code :: "mfa_crypto \<Rightarrow> u8 list option \<Rightarrow> string \<Rightarrow> string + string" where
  "hash_recovery_code cr salt code =
     (case salt of None \<Rightarrow> Inl ''generate recovery-code salt''
      | Some s \<Rightarrow> Inr (stored_hash cr s (normalize_recovery_code code)))"

definition verify_stored :: "mfa_crypto \<Rightarrow> string \<Rightarrow> string \<Rightarrow> bool" where
  "verify_stored cr s stored =
     (case split_once (CHR '':'') stored of
        None \<Rightarrow> False
      | Some (salt_hex, hash_hex) \<Rightarrow>
          (case (cr_unhex cr salt_hex, cr_unhex cr hash_hex) of
             (Some salt, Some expected) \<Rightarrow>
               length salt = 16 \<and> length expected = SHA256_OUTPUT_LEN \<and> salted cr salt s = expected
           | _ \<Rightarrow> False))"

definition verify_recovery_code :: "mfa_crypto \<Rightarrow> string \<Rightarrow> string \<Rightarrow> bool" where
  "verify_recovery_code cr code stored = verify_stored cr (normalize_recovery_code code) stored"

definition hash_device_token :: "mfa_crypto \<Rightarrow> u8 list option \<Rightarrow> string \<Rightarrow> string + string" where
  "hash_device_token cr salt token =
     (case salt of None \<Rightarrow> Inl ''generate MFA device-token salt'' | Some s \<Rightarrow> Inr (stored_hash cr s token))"

definition verify_device_token :: "mfa_crypto \<Rightarrow> string \<Rightarrow> string \<Rightarrow> bool" where
  "verify_device_token cr token stored = verify_stored cr token stored"

definition session_binding :: "mfa_crypto \<Rightarrow> string \<Rightarrow> string" where
  "session_binding cr session_id = cr_hex cr (cr_sha256 cr (bytes_of session_id))"

definition device_cookie_parts :: "string \<Rightarrow> (string \<times> string) option" where
  "device_cookie_parts value =
     (case split_once (CHR ''.'') value of None \<Rightarrow> None
      | Some (i, token) \<Rightarrow> if i = [] \<or> length token \<noteq> 64 \<or> \<not> list_all is_hexdigit token then None else Some (i, token))"

section \<open>The decision\<close>

datatype mfa_decision = Satisfied | ChallengeRequired | EnrollmentRequired

record grant_row =
  gr_id :: string
  gr_username :: string
  gr_token_hash :: string
  gr_session_binding :: string
  gr_factor_confirmed_at :: timestamp
  gr_security_epoch :: int
  gr_verified_at :: timestamp
  gr_expires_at :: timestamp
  gr_created_at :: timestamp

record factor_row =
  fa_username :: string
  fa_secret_enc :: "u8 list"
  fa_secret_nonce :: "u8 list"
  fa_ceremony :: string
  fa_confirmed_at :: "timestamp option"
  fa_created_at :: timestamp
  fa_updated_at :: timestamp
  fa_last_used_step :: "int option"
  fa_security_epoch :: int

record mfa_db =
  md_grant :: "string \<Rightarrow> string + grant_row option"
  md_factor :: "string \<Rightarrow> string + factor_row option"

definition DEVICE_COOKIE :: string where "DEVICE_COOKIE = ''__ruscker_mfa_device''"

definition normalize_username :: "string \<Rightarrow> string" where
  "normalize_username raw = lowercase (trim raw)"

definition confirmed_factor :: "string + factor_row option \<Rightarrow> mfa_decision + factor_row" where
  "confirmed_factor res =
     (case res of
        Inl e \<Rightarrow> Inl ChallengeRequired
      | Inr (Some row) \<Rightarrow> if fa_confirmed_at row \<noteq> None then Inr row else Inl EnrollmentRequired
      | Inr None \<Rightarrow> Inl EnrollmentRequired)"

definition grant_matches :: "mfa_crypto \<Rightarrow> timestamp \<Rightarrow> string \<Rightarrow> string \<Rightarrow> grant_row \<Rightarrow> factor_row \<Rightarrow> bool" where
  "grant_matches cr now username token g f \<longleftrightarrow> verify_device_token cr token (gr_token_hash g)
     \<and> gr_username g = normalize_username username \<and> \<not> gr_expires_at g \<le> now
     \<and> Some (gr_factor_confirmed_at g) = fa_confirmed_at f \<and> gr_security_epoch g = fa_security_epoch f"

definition evaluate :: "mfa_crypto \<Rightarrow> timestamp \<Rightarrow> mfa_db option \<Rightarrow> string \<Rightarrow> string \<Rightarrow> (string \<rightharpoonup> string) \<Rightarrow> spec \<Rightarrow> mfa_decision" where
  "evaluate cr now db username session_id cookies sp =
     (if \<not> effective_require_mfa sp then Satisfied
      else (case db of None \<Rightarrow> ChallengeRequired
        | Some d \<Rightarrow>
            (case Option.bind (cookies DEVICE_COOKIE) device_cookie_parts of
               None \<Rightarrow> (case confirmed_factor (md_factor d username) of Inl dec \<Rightarrow> dec | Inr _ \<Rightarrow> ChallengeRequired)
             | Some (i, token) \<Rightarrow>
                 (case md_grant d i of
                    Inr (Some g) \<Rightarrow>
                      (case confirmed_factor (md_factor d username) of
                         Inl dec \<Rightarrow> dec
                       | Inr f \<Rightarrow>
                           if \<not> grant_matches cr now username token g f then ChallengeRequired
                           else if effective_mfa_validity_days sp = 0
                           then (if gr_session_binding g = session_binding cr session_id then Satisfied else ChallengeRequired)
                           else (let age = now - gr_verified_at g
                                 in if age < 0 \<or> age > int (unat (effective_mfa_validity_days sp)) * 86400 * nanos
                                    then ChallengeRequired else Satisfied))
                  | _ \<Rightarrow> ChallengeRequired))))"

section \<open>Attempts\<close>

record confirm_limiter =
  cl_failures :: "string \<rightharpoonup> nat list"
  cl_max :: nat
  cl_window :: nat

definition confirm_new :: "nat \<Rightarrow> nat \<Rightarrow> confirm_limiter" where
  "confirm_new mx window = \<lparr>cl_failures = Map.empty, cl_max = mx, cl_window = window\<rparr>"

definition attempts_of :: "confirm_limiter \<Rightarrow> string \<Rightarrow> nat list" where
  "attempts_of l u = unwrap_or [] (cl_failures l u)"

definition try_reserve :: "nat \<Rightarrow> string \<Rightarrow> confirm_limiter \<Rightarrow> bool \<times> confirm_limiter" where
  "try_reserve now u l =
     (let q = prune now (cl_window l) (attempts_of l u)
      in if length q \<ge> cl_max l then (False, l\<lparr>cl_failures := (cl_failures l)(u \<mapsto> q)\<rparr>)
         else (True, l\<lparr>cl_failures := (cl_failures l)(u \<mapsto> q @ [now])\<rparr>))"

definition record_success :: "string \<Rightarrow> confirm_limiter \<Rightarrow> confirm_limiter" where
  "record_success u l = l\<lparr>cl_failures := (cl_failures l)(u := None)\<rparr>"

section \<open>Lemmas\<close>

lemma concat_chunks: "0 < n \<Longrightarrow> concat (chunks n xs) = xs"
proof (induction n xs rule: chunks.induct)
  case (1 n xs)
  then show ?case by (cases "xs = []") (simp_all add: chunks.simps [of n xs] chunks.simps [of n "[]"])
qed

lemma filter_join: "\<not> P c \<Longrightarrow> filter P (join [c] xss) = concat (map (filter P) xss)"
  by (induction "[c]" xss rule: join.induct) auto

lemma normalize_format: "normalize_recovery_code (format_recovery_code code) = normalize_recovery_code code"
  by (simp add: normalize_recovery_code_def format_recovery_code_def filter_join concat_chunks RECOVERY_GROUP_def
      flip: filter_concat)

lemma verify_stored_hash:
  assumes "good_crypto cr" and "length salt = 16"
  shows "verify_stored cr s (stored_hash cr salt s') \<longleftrightarrow> salted cr salt s = salted cr salt s'"
proof -
  from assms(1) have "split_once (CHR '':'') (stored_hash cr salt s') = Some (cr_hex cr salt, cr_hex cr (salted cr salt s'))"
    by (simp add: split_once_Some_iff stored_hash_def good_crypto_def)
  with assms show ?thesis by (simp add: verify_stored_def good_crypto_def salted_def)
qed

lemma find_in_window:
  "List.find P (map (\<lambda>off. c + off) [0, -1, 1]) = Some (step :: int) \<longleftrightarrow>
     P step \<and> (step = c \<or> \<not> P c \<and> (step = c - 1 \<or> \<not> P (c - 1) \<and> step = c + 1))"
  by auto

lemma confirmed_factor_Inr: "confirmed_factor res = Inr f \<longleftrightarrow> res = Inr (Some f) \<and> fa_confirmed_at f \<noteq> None"
  by (auto simp: confirmed_factor_def split: sum.splits option.splits)

lemma confirmed_factor_Inl: "confirmed_factor res = Inl d \<Longrightarrow> d \<noteq> Satisfied"
  by (auto simp: confirmed_factor_def split: sum.splits option.splits if_splits)

section \<open>Properties: codes\<close>

text \<open>
  A time-based code is accepted exactly when it is six digits and is the code of the current
  30-second step or of one of its two neighbours, and the step reported, which replay prevention
  stores, is one whose code it is, the current one when that matches.
\<close>

theorem totp_window:
  assumes "cr_totp cr secret username = Inr generate"
  shows "verify_totp cr (Inr now) secret username code = Inr (length code = 6 \<and> list_all is_digit code
      \<and> (\<exists>k. \<bar>int k - int (now div 30)\<bar> \<le> 1 \<and> generate (30 * k) = code))
    \<and> (\<forall>step. verify_totp_step cr (Inr now) secret username code = Inr (Some step) \<longrightarrow>
      \<bar>step - int (now div 30)\<bar> \<le> 1 \<and> 0 \<le> step \<and> generate (nat (step * 30)) = code
        \<and> (generate (30 * (now div 30)) = code \<longrightarrow> step = int (now div 30)))"
proof -
  let ?c = "int (now div 30)" and ?ok = "length code = 6 \<and> list_all is_digit code"
  let ?find = "List.find (try_step generate code) (map (\<lambda>off. ?c + off) [0, -1, 1])"
  have v: "verify_totp_step cr (Inr now) secret username code = Inr (if ?ok then ?find else None)"
    using assms by (auto simp: verify_totp_step_def Let_def)
  have ok_at: "try_step generate code (int k) \<longleftrightarrow> generate (30 * k) = code" for k
    by (auto simp: try_step_def nat_mult_distrib mult.commute)
  have sound: "\<bar>step - ?c\<bar> \<le> 1 \<and> 0 \<le> step \<and> generate (nat (step * 30)) = code
        \<and> (generate (30 * (now div 30)) = code \<longrightarrow> step = ?c)" if "?find = Some step" for step
    using that [unfolded find_in_window] ok_at [of "now div 30"] by (auto simp: try_step_def)
  have "?find \<noteq> None \<longleftrightarrow> (\<exists>k. \<bar>int k - ?c\<bar> \<le> 1 \<and> generate (30 * k) = code)" (is "?l \<longleftrightarrow> ?r")
  proof
    assume ?l
    then obtain step where "?find = Some step" by blast
    from sound [OF this] have "0 \<le> step" "generate (nat (step * 30)) = code" "\<bar>step - ?c\<bar> \<le> 1" by auto
    moreover from this have "nat (step * 30) = 30 * nat step" by (simp add: nat_mult_distrib)
    ultimately show ?r by (intro exI [of _ "nat step"]) auto
  next
    assume ?r
    then obtain k where k: "\<bar>int k - ?c\<bar> \<le> 1" "generate (30 * k) = code" by blast
    then have "try_step generate code (int k)" by (simp add: ok_at)
    moreover from k(1) have "int k \<in> set (map (\<lambda>off. ?c + off) [0, -1, 1])" by auto
    ultimately show ?l unfolding find_None_iff by blast
  qed
  then have "verify_totp cr (Inr now) secret username code = Inr (?ok
      \<and> (\<exists>k. \<bar>int k - ?c\<bar> \<le> 1 \<and> generate (30 * k) = code))"
    unfolding verify_totp_def v by auto
  then show ?thesis unfolding v using sound by (auto simp del: find.simps list.map)
qed

definition demo_crypto :: mfa_crypto where
  "demo_crypto = \<lparr>cr_sha256 = (\<lambda>bs. take 32 (bs @ replicate 32 0)), cr_hex = show_hex, cr_unhex = decode_hex,
     cr_totp = (\<lambda>s u. Inr (\<lambda>t. if t < 90 then ''111111'' else if t = 90 then ''222222'' else ''333333''))\<rparr>"

lemma totp_window_witness:
  "verify_totp demo_crypto (Inr 65) ''S'' ''ann'' ''222222'' = Inr True
     \<and> verify_totp demo_crypto (Inr 65) ''S'' ''ann'' ''333333'' = Inr False"
proof -
  have t: "cr_totp demo_crypto ''S'' ''ann'' = Inr (\<lambda>t. if t < 90 then ''111111'' else if t = 90 then ''222222'' else ''333333'')"
    by (simp add: demo_crypto_def)
  have "\<bar>int k - 2\<bar> \<le> 1 \<Longrightarrow> k \<le> 3" for k by simp
  then show ?thesis
    using totp_window [OF t, of 65 "''222222''"] totp_window [OF t, of 65 "''333333''"]
    by (auto simp: is_digit_def intro!: exI [of _ "3::nat"])
qed

lemma demo_crypto_good: "good_crypto demo_crypto"
proof -
  have "CHR '':'' \<notin> set (show_hex bs)" for bs
    using show_hex_digits(1) [of bs] by (auto simp: list_all_iff is_hexdigit_def hex_val_def is_digit_def)
  then show ?thesis by (auto simp: good_crypto_def demo_crypto_def decode_show_hex SHA256_OUTPUT_LEN_def min_def)
qed



section \<open>Properties: the decision\<close>

lemma mfa_satisfied_iff:
  assumes "effective_require_mfa sp"
  shows "evaluate cr now db username session_id cookies sp = Satisfied \<longleftrightarrow>
    (\<exists>d i token g f. db = Some d \<and> Option.bind (cookies DEVICE_COOKIE) device_cookie_parts = Some (i, token)
       \<and> md_grant d i = Inr (Some g) \<and> md_factor d username = Inr (Some f) \<and> grant_matches cr now username token g f
       \<and> (if effective_mfa_validity_days sp = 0 then gr_session_binding g = session_binding cr session_id
          else gr_verified_at g \<le> now \<and> now - gr_verified_at g \<le> int (unat (effective_mfa_validity_days sp)) * 86400 * nanos))"
    (is "?l \<longleftrightarrow> ?r")
proof
  assume ?l
  with assms show ?r
    by (simp add: evaluate_def Let_def split: option.splits prod.splits sum.splits if_splits)
      (auto simp: confirmed_factor_Inr dest: confirmed_factor_Inl)
next
  assume ?r
  then obtain d i token g f where r: "db = Some d" "md_factor d username = Inr (Some f)" "md_grant d i = Inr (Some g)"
      "Option.bind (cookies DEVICE_COOKIE) device_cookie_parts = Some (i, token)"
      "grant_matches cr now username token g f"
    and v: "if effective_mfa_validity_days sp = 0 then gr_session_binding g = session_binding cr session_id
          else gr_verified_at g \<le> now \<and> now - gr_verified_at g \<le> int (unat (effective_mfa_validity_days sp)) * 86400 * nanos"
    by blast
  from r(5) have "fa_confirmed_at f \<noteq> None" unfolding grant_matches_def by (metis option.discI)
  then have "confirmed_factor (md_factor d username) = Inr f" by (simp add: confirmed_factor_Inr r(2))
  with r v assms show ?l by (auto simp: evaluate_def Let_def split: if_splits)
qed

section \<open>Properties: attempts\<close>

datatype mfa_event = Attempt nat string | Succeeded nat string

fun event_time :: "mfa_event \<Rightarrow> nat" where
  "event_time (Attempt t u) = t"
| "event_time (Succeeded t u) = t"

text \<open>
  Along a run: the attempts granted to each user since that user's last success, and what each attempt
  was told.
\<close>

fun cl_run :: "mfa_event list \<Rightarrow> confirm_limiter \<Rightarrow> (string \<Rightarrow> nat list) \<Rightarrow> bool list \<times> (string \<Rightarrow> nat list)" where
  "cl_run [] l h = ([], h)"
| "cl_run (Attempt now u # es) l h =
     (case try_reserve now u l of (ok, l') \<Rightarrow>
       (case cl_run es l' (if ok then h(u := h u @ [now]) else h) of (bs, h') \<Rightarrow> (ok # bs, h')))"
| "cl_run (Succeeded now u # es) l h = cl_run es (record_success u l) (h(u := []))"

fun ref_attempts :: "nat \<Rightarrow> nat \<Rightarrow> mfa_event list \<Rightarrow> (string \<Rightarrow> nat list) \<Rightarrow> bool list" where
  "ref_attempts m w [] h = []"
| "ref_attempts m w (Attempt now u # es) h =
     (let ok = admitted_in now w (h u) < m in
      ok # ref_attempts m w es (if ok then h(u := h u @ [now]) else h))"
| "ref_attempts m w (Succeeded now u # es) h = ref_attempts m w es (h(u := []))"

definition cl_rel :: "nat \<Rightarrow> (string \<Rightarrow> nat list) \<Rightarrow> confirm_limiter \<Rightarrow> bool" where
  "cl_rel now h l \<longleftrightarrow> (\<forall>u. queue_rel now (cl_window l) (cl_max l) (h u) (attempts_of l u)
     \<and> (\<forall>a. count_if (in_span a (cl_window l)) (h u) \<le> cl_max l))"

lemma try_reserve_rel:
  assumes "cl_rel now h l"
  shows "case try_reserve now u l of (ok, l') \<Rightarrow>
    (ok \<longleftrightarrow> admitted_in now (cl_window l) (h u) < cl_max l) \<and> cl_max l' = cl_max l \<and> cl_window l' = cl_window l
    \<and> cl_rel now (if ok then h(u := h u @ [now]) else h) l'"
proof -
  let ?q = "prune now (cl_window l) (attempts_of l u)"
  from assms have r: "queue_rel now (cl_window l) (cl_max l) (h u) (attempts_of l u)"
    and s: "\<forall>a. count_if (in_span a (cl_window l)) (h u) \<le> cl_max l" by (auto simp: cl_rel_def)
  note c = queue_rel_count [OF r] and p = queue_rel_prune [OF r]
  show ?thesis
  proof (cases "length ?q < cl_max l")
    case True
    from span_push [OF s] True c assms queue_rel_push [OF p True] show ?thesis
      by (auto simp: try_reserve_def Let_def cl_rel_def attempts_of_def)
  next
    case False
    with c assms p show ?thesis by (auto simp: try_reserve_def Let_def cl_rel_def attempts_of_def)
  qed
qed

lemma cl_rel_later: "cl_rel now h l \<Longrightarrow> now \<le> now' \<Longrightarrow> cl_rel now' h l"
  by (auto simp: cl_rel_def intro: queue_rel_later)

lemma record_success_rel: "cl_rel now h l \<Longrightarrow> cl_rel now (h(u := [])) (record_success u l)"
  by (auto simp: cl_rel_def record_success_def attempts_of_def queue_rel_def)

lemma cl_run_rel:
  assumes "cl_rel t h l" and "sorted (t # map event_time es)"
  shows "fst (cl_run es l h) = ref_attempts (cl_max l) (cl_window l) es h
    \<and> (\<forall>u a. count_if (in_span a (cl_window l)) (snd (cl_run es l h) u) \<le> cl_max l)"
  using assms
proof (induction es arbitrary: t h l)
  case Nil
  then show ?case by (simp add: cl_rel_def)
next
  case (Cons e es)
  from Cons.prems have le: "t \<le> event_time e" and srt: "sorted (event_time e # map event_time es)" by auto
  note now = cl_rel_later [OF Cons.prems(1) le]
  show ?case
  proof (cases e)
    case (Attempt now' u)
    obtain ok l' where tr: "try_reserve now' u l = (ok, l')" by fastforce
    with try_reserve_rel [of now' h l u] now Attempt
    have "ok \<longleftrightarrow> admitted_in now' (cl_window l) (h u) < cl_max l" "cl_max l' = cl_max l" "cl_window l' = cl_window l"
      "cl_rel now' (if ok then h(u := h u @ [now']) else h) l'" by auto
    with Cons.IH [OF this(4)] srt Attempt tr show ?thesis by (auto simp: Let_def split: prod.splits)
  next
    case (Succeeded now' u)
    have "cl_max (record_success u l) = cl_max l" "cl_window (record_success u l) = cl_window l"
      by (simp_all add: record_success_def)
    with Cons.IH [OF record_success_rel [OF now, of u]] srt Succeeded show ?thesis by (simp del: fun_upd_apply)
  qed
qed

text \<open>
  C28: Guessing a second factor is bounded. For every sequence of attempts and successes of any users, made
  at non-decreasing clock readings, an attempt is let through exactly when fewer than \<open>max\<close> of that user's
  attempts since the last success were let through within the window, and so in every closed interval as
  long as the window at most \<open>max\<close> attempts of a user are let through between two successes.
\<close>

theorem attempts_bounded:
  assumes "sorted (map event_time es)"
  shows "fst (cl_run es (confirm_new m w) (\<lambda>_. [])) = ref_attempts m w es (\<lambda>_. [])
    \<and> count_if (in_span a w) (snd (cl_run es (confirm_new m w) (\<lambda>_. [])) u) \<le> m"
proof -
  have "cl_rel 0 (\<lambda>_. []) (confirm_new m w)"
    by (simp add: cl_rel_def confirm_new_def attempts_of_def queue_rel_def)
  from cl_run_rel [OF this, of es] assms show ?thesis by (simp add: confirm_new_def)
qed

lemma attempts_bounded_witness:
  "fst (cl_run [Attempt 0 ''a'', Attempt 1 ''a'', Attempt 2 ''a'', Succeeded 3 ''a'', Attempt 4 ''a'']
     (confirm_new 2 60) (\<lambda>_. [])) = [True, True, False, True]"
  using attempts_bounded [of "[Attempt 0 ''a'', Attempt 1 ''a'', Attempt 2 ''a'', Succeeded 3 ''a'', Attempt 4 ''a'']"]
  by (simp add: admitted_in_def)

end
