(* ===== verification/Mfa_Store.thy ===== *)
theory Mfa_Store
  imports Mfa
begin

text \<open>
  The tables of the second factor (\<open>crates/ruscker-admin/src/db/mfa.rs\<close> and \<open>db/mfa_grants.rs\<close>):
  enrolled factors, recovery codes, trusted-device grants and the audit log, with every transaction of the
  two files. A transaction is one function on the tables, the same for both databases: its statements run
  under the row locks it takes, and an early return rolls it back. A failing database is no step at all.
  \<open>new_id\<close> yields the fresh identifiers a transaction draws.
\<close>

section \<open>Tables\<close>

record recovery_row =
  rv_id :: string
  rv_username :: string
  rv_hash :: string
  rv_used_at :: "timestamp option"
  rv_created_at :: timestamp

record audit_row =
  au_actor :: "string option"
  au_action :: string
  au_target :: string
  au_at :: timestamp

record mfa_tables =
  mt_users :: "string list"
  mt_factors :: "string \<rightharpoonup> factor_row"
  mt_recovery :: "recovery_row list"
  mt_grants :: "grant_row list"
  mt_audit :: "audit_row list"

definition audit :: "string option \<Rightarrow> string \<Rightarrow> string \<Rightarrow> timestamp \<Rightarrow> mfa_tables \<Rightarrow> mfa_tables" where
  "audit actor action u now T =
     T\<lparr>mt_audit := mt_audit T @ [\<lparr>au_actor = actor, au_action = action, au_target = ''user:'' @ u, au_at = now\<rparr>]\<rparr>"

text \<open>\<open>UPDATE user_mfa SET \<dots> WHERE username = u AND cond\<close>: whether a row was changed, and the table.\<close>

definition update_factor :: "string \<Rightarrow> (factor_row \<Rightarrow> bool) \<Rightarrow> (factor_row \<Rightarrow> factor_row) \<Rightarrow> mfa_tables \<Rightarrow> bool \<times> mfa_tables" where
  "update_factor u cond upd T =
     (case mt_factors T u of
        None \<Rightarrow> (False, T)
      | Some f \<Rightarrow> if cond f then (True, T\<lparr>mt_factors := (mt_factors T)(u \<mapsto> upd f)\<rparr>) else (False, T))"

section \<open>Factors\<close>

definition begin_enrollment :: "timestamp \<Rightarrow> string \<Rightarrow> u8 list \<Rightarrow> u8 list \<Rightarrow> string \<Rightarrow> mfa_tables \<Rightarrow> string + mfa_tables" where
  "begin_enrollment now username enc nonce ceremony T =
     (let u = normalize_username username in
      if u \<notin> set (mt_users T) then Inl (''begin MFA enrollment for '' @ u)
      else (case mt_factors T u of
          None \<Rightarrow> Inr (T\<lparr>mt_factors := (mt_factors T)(u \<mapsto> \<lparr>fa_username = u, fa_secret_enc = enc, fa_secret_nonce = nonce,
              fa_ceremony = ceremony, fa_confirmed_at = None, fa_created_at = now, fa_updated_at = now,
              fa_last_used_step = None, fa_security_epoch = 0\<rparr>)\<rparr>)
        | Some f \<Rightarrow>
            if fa_confirmed_at f \<noteq> None
            then Inl (''MFA is already confirmed for '' @ u @ ''; reset it before re-enrolling'')
            else Inr (T\<lparr>mt_factors := (mt_factors T)(u \<mapsto> f\<lparr>fa_secret_enc := enc, fa_secret_nonce := nonce,
              fa_ceremony := ceremony, fa_confirmed_at := None, fa_created_at := now, fa_updated_at := now,
              fa_last_used_step := None\<rparr>)\<rparr>)))"

definition write_codes :: "(nat \<Rightarrow> string) \<Rightarrow> timestamp \<Rightarrow> string \<Rightarrow> string list \<Rightarrow> mfa_tables \<Rightarrow> mfa_tables" where
  "write_codes new_id now u hashes T =
     T\<lparr>mt_recovery := filter (\<lambda>r. rv_username r \<noteq> u) (mt_recovery T)
        @ map (\<lambda>(i, h). \<lparr>rv_id = new_id i, rv_username = u, rv_hash = h, rv_used_at = None, rv_created_at = now\<rparr>)
            (enumerate 0 hashes)\<rparr>"

definition confirm_with_recovery_codes ::
    "(nat \<Rightarrow> string) \<Rightarrow> timestamp \<Rightarrow> string \<Rightarrow> string \<Rightarrow> string list option \<Rightarrow> string \<Rightarrow> mfa_tables \<Rightarrow> string + mfa_tables" where
  "confirm_with_recovery_codes new_id now username actor hashes ceremony T =
     (let u = normalize_username username in
      case update_factor u (\<lambda>f. fa_confirmed_at f = None \<and> fa_ceremony f = ceremony)
          (\<lambda>f. f\<lparr>fa_confirmed_at := Some now, fa_updated_at := now\<rparr>) T of
        (False, _) \<Rightarrow> Inl (''pending MFA enrollment not found for '' @ u)
      | (True, T1) \<Rightarrow> Inr (audit (Some actor) ''mfa.enroll'' u now
          (case hashes of None \<Rightarrow> T1 | Some hs \<Rightarrow> write_codes new_id now u hs T1)))"

definition confirm_enrollment :: "(nat \<Rightarrow> string) \<Rightarrow> timestamp \<Rightarrow> string \<Rightarrow> string \<Rightarrow> string \<Rightarrow> mfa_tables \<Rightarrow> string + mfa_tables" where
  "confirm_enrollment new_id now username actor ceremony T =
     confirm_with_recovery_codes new_id now username actor None ceremony T"

definition mfa_fetch :: "string \<Rightarrow> mfa_tables \<Rightarrow> factor_row option" where
  "mfa_fetch username T = mt_factors T (normalize_username username)"

definition is_enrolled :: "string \<Rightarrow> mfa_tables \<Rightarrow> bool" where
  "is_enrolled username T =
     (case mt_factors T (normalize_username username) of None \<Rightarrow> False | Some f \<Rightarrow> fa_confirmed_at f \<noteq> None)"

definition fresher :: "int \<Rightarrow> factor_row \<Rightarrow> bool" where
  "fresher step f \<longleftrightarrow> (case fa_last_used_step f of None \<Rightarrow> True | Some s \<Rightarrow> s < step)"

definition record_used_step :: "string \<Rightarrow> int \<Rightarrow> mfa_tables \<Rightarrow> bool \<times> mfa_tables" where
  "record_used_step username step T =
     update_factor (normalize_username username) (fresher step) (\<lambda>f. f\<lparr>fa_last_used_step := Some step\<rparr>) T"

section \<open>Recovery codes\<close>

definition replace_recovery_codes :: "(nat \<Rightarrow> string) \<Rightarrow> timestamp \<Rightarrow> string \<Rightarrow> string list \<Rightarrow> mfa_tables \<Rightarrow> mfa_tables" where
  "replace_recovery_codes new_id now username hashes T = write_codes new_id now (normalize_username username) hashes T"

definition unused_codes :: "string \<Rightarrow> mfa_tables \<Rightarrow> recovery_row list" where
  "unused_codes u T = filter (\<lambda>r. rv_username r = u \<and> rv_used_at r = None) (mt_recovery T)"

definition recovery_code_counts :: "string \<Rightarrow> mfa_tables \<Rightarrow> nat \<times> nat" where
  "recovery_code_counts username T =
     (let u = normalize_username username
      in (length (unused_codes u T), length (filter (\<lambda>r. rv_username r = u) (mt_recovery T))))"

definition recovery_generation :: "factor_row \<Rightarrow> int" where
  "recovery_generation f = fa_updated_at f div 1000"

datatype regenerate_outcome = RegenDone | RegenNotEnrolled | RegenStale

definition regenerate_recovery_codes ::
    "(nat \<Rightarrow> string) \<Rightarrow> timestamp \<Rightarrow> string \<Rightarrow> string \<Rightarrow> string list \<Rightarrow> int \<Rightarrow> mfa_tables \<Rightarrow> regenerate_outcome \<times> mfa_tables" where
  "regenerate_recovery_codes new_id now username actor hashes expected T =
     (let u = normalize_username username in
      case mt_factors T u of
        None \<Rightarrow> (RegenNotEnrolled, T)
      | Some f \<Rightarrow>
          if fa_confirmed_at f = None then (RegenNotEnrolled, T)
          else if recovery_generation f \<noteq> expected then (RegenStale, T)
          else (case update_factor u (\<lambda>g. fa_confirmed_at g \<noteq> None \<and> fa_updated_at g = fa_updated_at f)
                  (\<lambda>g. g\<lparr>fa_updated_at := now\<rparr>) T of
              (False, _) \<Rightarrow> (RegenStale, T)
            | (True, T1) \<Rightarrow> (RegenDone, audit (Some actor) ''mfa.recovery_regenerated'' u now (write_codes new_id now u hashes T1))))"

definition find_recovery_candidate :: "mfa_crypto \<Rightarrow> string \<Rightarrow> string \<Rightarrow> mfa_tables \<Rightarrow> string option" where
  "find_recovery_candidate cr username code T =
     map_option rv_id (List.find (\<lambda>r. verify_recovery_code cr code (rv_hash r)) (unused_codes (normalize_username username) T))"

text \<open>\<open>UPDATE user_mfa_recovery SET used_at = now WHERE \<dots> AND used_at IS NULL\<close>: rows changed, and the table.\<close>

definition spend_where :: "timestamp \<Rightarrow> (recovery_row \<Rightarrow> bool) \<Rightarrow> mfa_tables \<Rightarrow> nat \<times> mfa_tables" where
  "spend_where now cond T =
     (let hit = (\<lambda>r. cond r \<and> rv_used_at r = None)
      in (count_if hit (mt_recovery T),
          T\<lparr>mt_recovery := map (\<lambda>r. if hit r then r\<lparr>rv_used_at := Some now\<rparr> else r) (mt_recovery T)\<rparr>))"

definition consume_recovery_code :: "mfa_crypto \<Rightarrow> timestamp \<Rightarrow> string \<Rightarrow> string \<Rightarrow> mfa_tables \<Rightarrow> bool \<times> mfa_tables" where
  "consume_recovery_code cr now username code T =
     (case find_recovery_candidate cr username code T of
        None \<Rightarrow> (False, T)
      | Some i \<Rightarrow> (case spend_where now (\<lambda>r. rv_id r = i) T of (changed, T1) \<Rightarrow> (changed = 1, T1)))"

section \<open>Grants\<close>

datatype issue_refusal = StaleEpoch | RecoverySpent | Replayed

text \<open>What a challenge hands to \<open>issue\<close>: the proof to spend and the factor it has read.\<close>

record challenge =
  ch_username :: string
  ch_token_hash :: string
  ch_session_binding :: string
  ch_factor_confirmed_at :: timestamp
  ch_verified_at :: timestamp
  ch_expires_at :: timestamp
  ch_expected_epoch :: int
  ch_recovery_id :: "string option"
  ch_totp_step :: "int option"
  ch_action :: string
  ch_actor :: string

definition grant_of :: "string \<Rightarrow> string \<Rightarrow> challenge \<Rightarrow> grant_row" where
  "grant_of i u ch = \<lparr>gr_id = i, gr_username = u, gr_token_hash = ch_token_hash ch,
     gr_session_binding = ch_session_binding ch, gr_factor_confirmed_at = ch_factor_confirmed_at ch,
     gr_security_epoch = ch_expected_epoch ch, gr_verified_at = ch_verified_at ch,
     gr_expires_at = ch_expires_at ch, gr_created_at = ch_verified_at ch\<rparr>"

definition same_browser :: "grant_row \<Rightarrow> grant_row \<Rightarrow> bool" where
  "same_browser g h \<longleftrightarrow> gr_username g = gr_username h \<and> gr_session_binding g = gr_session_binding h"

definition at_epoch :: "string \<Rightarrow> int \<Rightarrow> mfa_tables \<Rightarrow> bool" where
  "at_epoch u e T \<longleftrightarrow> (case mt_factors T u of None \<Rightarrow> False | Some f \<Rightarrow> fa_security_epoch f = e)"

text \<open>
  \<open>create\<close> inserts; a second grant of the same browser violates the uniqueness of (user, session). \<open>issue\<close>
  replaces it.
\<close>

definition create_grant :: "string \<Rightarrow> challenge \<Rightarrow> mfa_tables \<Rightarrow> (string + string option) \<times> mfa_tables" where
  "create_grant new ch T =
     (let u = normalize_username (ch_username ch); g = grant_of new u ch in
      if \<not> at_epoch u (ch_expected_epoch ch) T then (Inr None, T)
      else if list_ex (same_browser g) (mt_grants T) then (Inl (''create MFA device grant for '' @ u), T)
      else (Inr (Some new), T\<lparr>mt_grants := mt_grants T @ [g]\<rparr>))"

definition upsert_grant :: "grant_row \<Rightarrow> grant_row list \<Rightarrow> grant_row list" where
  "upsert_grant g gs = (if list_ex (same_browser g) gs then map (\<lambda>h. if same_browser g h then g else h) gs else gs @ [g])"

definition fetch_valid :: "timestamp \<Rightarrow> string \<Rightarrow> mfa_tables \<Rightarrow> grant_row option" where
  "fetch_valid now i T = List.find (\<lambda>g. gr_id g = i \<and> gr_expires_at g > now) (mt_grants T)"

definition spend_step :: "string \<Rightarrow> int option \<Rightarrow> mfa_tables \<Rightarrow> bool \<times> mfa_tables" where
  "spend_step u step T =
     (case step of None \<Rightarrow> (True, T)
      | Some s \<Rightarrow> update_factor u (fresher s) (\<lambda>f. f\<lparr>fa_last_used_step := Some s\<rparr>) T)"

definition spend_code :: "timestamp \<Rightarrow> string \<Rightarrow> string option \<Rightarrow> mfa_tables \<Rightarrow> bool \<times> mfa_tables" where
  "spend_code now u rid T =
     (case rid of None \<Rightarrow> (True, T)
      | Some i \<Rightarrow> (case spend_where now (\<lambda>r. rv_id r = i \<and> rv_username r = u) T of (n, T1) \<Rightarrow> (n = 1, T1)))"

definition sweep_expired :: "timestamp \<Rightarrow> string \<Rightarrow> mfa_tables \<Rightarrow> mfa_tables" where
  "sweep_expired now u T = T\<lparr>mt_grants := filter (\<lambda>g. \<not> (gr_username g = u \<and> gr_expires_at g < now)) (mt_grants T)\<rparr>"

definition issue :: "string \<Rightarrow> timestamp \<Rightarrow> challenge \<Rightarrow> mfa_tables \<Rightarrow> (issue_refusal + string) \<times> mfa_tables" where
  "issue new now ch T =
     (let u = normalize_username (ch_username ch) in
      if \<not> at_epoch u (ch_expected_epoch ch) T then (Inl StaleEpoch, T)
      else (case spend_step u (ch_totp_step ch) T of
          (False, _) \<Rightarrow> (Inl Replayed, T)
        | (True, T1) \<Rightarrow>
            (let T2 = T1\<lparr>mt_grants := upsert_grant (grant_of new u ch) (mt_grants T1)\<rparr> in
             case spend_code now u (ch_recovery_id ch) T2 of
               (False, _) \<Rightarrow> (Inl RecoverySpent, T)
             | (True, T3) \<Rightarrow> (Inr new, audit (Some (ch_actor ch)) (ch_action ch) u now (sweep_expired now u T3)))))"

definition delete_all_grants :: "string \<Rightarrow> mfa_tables \<Rightarrow> mfa_tables" where
  "delete_all_grants u T =
     (let T1 = snd (update_factor u (\<lambda>_. True) (\<lambda>f. f\<lparr>fa_security_epoch := fa_security_epoch f + 1\<rparr>) T)
      in T1\<lparr>mt_grants := filter (\<lambda>g. gr_username g \<noteq> u) (mt_grants T1)\<rparr>)"

definition revoke_all :: "timestamp \<Rightarrow> string \<Rightarrow> string \<Rightarrow> mfa_tables \<Rightarrow> nat \<times> mfa_tables" where
  "revoke_all now username actor T =
     (let u = normalize_username username;
          changed = count_if (\<lambda>g. gr_username g = u) (mt_grants T);
          T1 = delete_all_grants u T
      in (changed, if changed > 0 then audit (Some actor) ''mfa.trusted_device.revoke'' u now T1 else T1))"

definition revoke_one :: "timestamp \<Rightarrow> string \<Rightarrow> string \<Rightarrow> string \<Rightarrow> mfa_tables \<Rightarrow> bool \<times> mfa_tables" where
  "revoke_one now i username actor T =
     (let u = normalize_username username;
          hit = (\<lambda>g. gr_id g = i \<and> gr_username g = u);
          changed = (count_if hit (mt_grants T) = 1);
          T1 = T\<lparr>mt_grants := filter (\<lambda>g. \<not> hit g) (mt_grants T)\<rparr>
      in (changed, if changed then audit (Some actor) ''mfa.trusted_device.revoke'' u now T1 else T1))"

definition mfa_reset :: "timestamp \<Rightarrow> string \<Rightarrow> string \<Rightarrow> mfa_tables \<Rightarrow> mfa_tables" where
  "mfa_reset now username actor T =
     (let u = normalize_username username; T1 = delete_all_grants u T
      in audit (Some actor) ''mfa.reset'' u now
        (T1\<lparr>mt_recovery := filter (\<lambda>r. rv_username r \<noteq> u) (mt_recovery T1), mt_factors := (mt_factors T1)(u := None)\<rparr>))"

text \<open>
  The part of \<open>users::set_password\<close> and \<open>users::delete\<close> that concerns these tables: a new password revokes
  the grants; deleting the user cascades to every row of theirs.
\<close>

definition password_changed :: "timestamp \<Rightarrow> string \<Rightarrow> string \<Rightarrow> mfa_tables \<Rightarrow> string + mfa_tables" where
  "password_changed now username actor T =
     (let u = normalize_username username in
      if u \<notin> set (mt_users T) then Inl (''user '' @ u @ '' not found'')
      else Inr (audit (Some actor) ''user.password'' u now (delete_all_grants u T)))"

definition user_deleted :: "timestamp \<Rightarrow> string \<Rightarrow> string \<Rightarrow> mfa_tables \<Rightarrow> string + mfa_tables" where
  "user_deleted now username actor T =
     (let u = normalize_username username in
      if u \<notin> set (mt_users T) then Inl (''delete user '' @ u @ '': no-op'')
      else Inr (audit (Some actor) ''user.delete'' u now
        (T\<lparr>mt_users := filter (\<lambda>v. v \<noteq> u) (mt_users T), mt_factors := (mt_factors T)(u := None),
           mt_recovery := filter (\<lambda>r. rv_username r \<noteq> u) (mt_recovery T),
           mt_grants := filter (\<lambda>g. gr_username g \<noteq> u) (mt_grants T)\<rparr>)))"

text \<open>What the decision of \<open>mfa::evaluate\<close> reads.\<close>

definition db_view :: "timestamp \<Rightarrow> mfa_tables \<Rightarrow> mfa_db" where
  "db_view now T = \<lparr>md_grant = (\<lambda>i. Inr (fetch_valid now i T)), md_factor = (\<lambda>u. Inr (mfa_fetch u T))\<rparr>"

section \<open>Histories\<close>

datatype mfa_op =
    OpAddUser string
  | OpBegin string "u8 list" "u8 list" string
  | OpConfirm string string "string list option" string
  | OpReplace string "string list"
  | OpRegenerate string string "string list" int
  | OpConsume string string
  | OpStep string int
  | OpIssue challenge
  | OpCreate challenge
  | OpRevokeAll string string
  | OpRevokeOne string string string
  | OpReset string string
  | OpPassword string string
  | OpDeleteUser string string

text \<open>A committed transaction: when it ran, the identifiers it drew, and what it was.\<close>

type_synonym mfa_entry = "timestamp \<times> (nat \<Rightarrow> string) \<times> mfa_op"

definition committed :: "mfa_tables \<Rightarrow> string + mfa_tables \<Rightarrow> mfa_tables" where
  "committed T r = (case r of Inl e \<Rightarrow> T | Inr T' \<Rightarrow> T')"

lemma committed_simps [simp]: "committed T (Inl e) = T" "committed T (Inr T') = T'"
  by (simp_all add: committed_def)

fun mfa_apply :: "mfa_crypto \<Rightarrow> mfa_entry \<Rightarrow> mfa_tables \<Rightarrow> mfa_tables" where
  "mfa_apply cr (now, new, OpAddUser v) T = T\<lparr>mt_users := normalize_username v # mt_users T\<rparr>"
| "mfa_apply cr (now, new, OpBegin v enc nonce cer) T = committed T (begin_enrollment now v enc nonce cer T)"
| "mfa_apply cr (now, new, OpConfirm v actor hs cer) T = committed T (confirm_with_recovery_codes new now v actor hs cer T)"
| "mfa_apply cr (now, new, OpReplace v hs) T = replace_recovery_codes new now v hs T"
| "mfa_apply cr (now, new, OpRegenerate v actor hs gen) T = snd (regenerate_recovery_codes new now v actor hs gen T)"
| "mfa_apply cr (now, new, OpConsume v code) T = snd (consume_recovery_code cr now v code T)"
| "mfa_apply cr (now, new, OpStep v s) T = snd (record_used_step v s T)"
| "mfa_apply cr (now, new, OpIssue ch) T = snd (issue (new 0) now ch T)"
| "mfa_apply cr (now, new, OpCreate ch) T = snd (create_grant (new 0) ch T)"
| "mfa_apply cr (now, new, OpRevokeAll v actor) T = snd (revoke_all now v actor T)"
| "mfa_apply cr (now, new, OpRevokeOne i v actor) T = snd (revoke_one now i v actor T)"
| "mfa_apply cr (now, new, OpReset v actor) T = mfa_reset now v actor T"
| "mfa_apply cr (now, new, OpPassword v actor) T = committed T (password_changed now v actor T)"
| "mfa_apply cr (now, new, OpDeleteUser v actor) T = committed T (user_deleted now v actor T)"

definition mfa_run :: "mfa_crypto \<Rightarrow> mfa_entry list \<Rightarrow> mfa_tables \<Rightarrow> mfa_tables" where
  "mfa_run cr es T = fold (mfa_apply cr) es T"

section \<open>What a transaction does to a factor\<close>

lemma audit_simps [simp]:
  "mt_factors (audit a x u n T) = mt_factors T" "mt_recovery (audit a x u n T) = mt_recovery T"
  "mt_grants (audit a x u n T) = mt_grants T" "mt_users (audit a x u n T) = mt_users T"
  by (simp_all add: audit_def)

lemma write_codes_simps [simp]:
  "mt_factors (write_codes new n u hs T) = mt_factors T" "mt_grants (write_codes new n u hs T) = mt_grants T"
  "mt_users (write_codes new n u hs T) = mt_users T"
  by (simp_all add: write_codes_def)

lemma spend_where_simps [simp]:
  "mt_factors (snd (spend_where n c T)) = mt_factors T" "mt_grants (snd (spend_where n c T)) = mt_grants T"
  "mt_users (snd (spend_where n c T)) = mt_users T"
  by (simp_all add: spend_where_def Let_def)

lemma update_factor_cases:
  obtains (same) "update_factor u c upd T = (False, T)"
    | (upd) f where "mt_factors T u = Some f" "c f" "update_factor u c upd T = (True, T\<lparr>mt_factors := (mt_factors T)(u \<mapsto> upd f)\<rparr>)"
  unfolding update_factor_def by (cases "mt_factors T u"; cases "c (the (mt_factors T u))") auto

lemma update_factor_frame [simp]:
  "mt_grants (snd (update_factor u c upd T)) = mt_grants T" "mt_recovery (snd (update_factor u c upd T)) = mt_recovery T"
  "mt_users (snd (update_factor u c upd T)) = mt_users T"
  by (cases rule: update_factor_cases [of u c upd T]; simp)+

text \<open>
  The life of one user's factor: it may go, start or restart pending, be confirmed now when it was pending,
  or keep its confirmation with an epoch and a last step that only grow.
\<close>

definition pending :: "factor_row option \<Rightarrow> bool" where
  "pending x \<longleftrightarrow> (case x of None \<Rightarrow> True | Some f \<Rightarrow> fa_confirmed_at f = None)"

definition grows :: "factor_row \<Rightarrow> factor_row \<Rightarrow> bool" where
  "grows f g \<longleftrightarrow> fa_confirmed_at g = fa_confirmed_at f \<and> fa_security_epoch f \<le> fa_security_epoch g
     \<and> (fa_last_used_step g = fa_last_used_step f \<or> (\<exists>s. fa_last_used_step g = Some s \<and> fresher s f))"

definition factor_step :: "timestamp \<Rightarrow> factor_row option \<Rightarrow> factor_row option \<Rightarrow> bool" where
  "factor_step now x y \<longleftrightarrow> y = None
     \<or> (\<exists>g. y = Some g \<and> (pending x \<and> (fa_confirmed_at g = None \<or> fa_confirmed_at g = Some now)
          \<or> (\<exists>f. x = Some f \<and> grows f g)))"

lemma factor_grows_refl [simp]: "grows f f"
  by (simp add: grows_def)

lemma factor_step_refl [simp]: "factor_step now x x"
  by (cases x) (auto simp: factor_step_def)

lemma factor_step_gone [simp]: "factor_step now x None"
  by (simp add: factor_step_def)

lemma factor_step_grows: "x = Some f \<Longrightarrow> grows f g \<Longrightarrow> factor_step now x (Some g)"
  by (auto simp: factor_step_def)

lemma factor_step_pending:
  "pending x \<Longrightarrow> fa_confirmed_at g = None \<or> fa_confirmed_at g = Some now \<Longrightarrow> factor_step now x (Some g)"
  by (auto simp: factor_step_def)

lemmas factor_steps = factor_step_grows factor_step_pending

lemma delete_all_factor [simp]:
  "mt_factors (delete_all_grants v T) = (mt_factors T)(v := map_option (\<lambda>f. f\<lparr>fa_security_epoch := fa_security_epoch f + 1\<rparr>) (mt_factors T v))"
  "mt_grants (delete_all_grants v T) = filter (\<lambda>g. gr_username g \<noteq> v) (mt_grants T)"
  "mt_recovery (delete_all_grants v T) = mt_recovery T" "mt_users (delete_all_grants v T) = mt_users T"
  by (cases "mt_factors T v"; simp add: delete_all_grants_def update_factor_def Let_def)
    (auto simp: delete_all_grants_def Let_def)

lemma spend_step_factor: "factor_step now (mt_factors T u) (mt_factors (snd (spend_step v s T)) u)"
proof (cases s)
  case (Some k)
  show ?thesis
  proof (cases rule: update_factor_cases [of v "fresher k" "\<lambda>f. f\<lparr>fa_last_used_step := Some k\<rparr>" T])
    case (upd f)
    with Some show ?thesis
      by (cases "u = v") (simp_all add: spend_step_def, simp add: factor_step_def grows_def)
  qed (simp add: Some spend_step_def)
qed (simp add: spend_step_def)

lemma spend_code_frame [simp]:
  "mt_factors (snd (spend_code now u rid T)) = mt_factors T" "mt_grants (snd (spend_code now u rid T)) = mt_grants T"
  "mt_users (snd (spend_code now u rid T)) = mt_users T"
  by (cases rid; simp add: spend_code_def split_def)+

text \<open>What \<open>issue\<close> leaves behind, when it grants and when it refuses.\<close>

lemma issue_cases:
  defines "u ch \<equiv> normalize_username (ch_username ch)"
  obtains (refused) e where "issue new now ch T = (Inl e, T)"
    | (granted) T1 T2 T3 where "issue new now ch T = (Inr new, audit (Some (ch_actor ch)) (ch_action ch) (u ch) now (sweep_expired now (u ch) T3))"
        "at_epoch (u ch) (ch_expected_epoch ch) T" "spend_step (u ch) (ch_totp_step ch) T = (True, T1)"
        "T2 = T1\<lparr>mt_grants := upsert_grant (grant_of new (u ch) ch) (mt_grants T1)\<rparr>"
        "spend_code now (u ch) (ch_recovery_id ch) T2 = (True, T3)"
proof -
  obtain b T1 where s: "spend_step (u ch) (ch_totp_step ch) T = (b, T1)" by fastforce
  let ?T2 = "T1\<lparr>mt_grants := upsert_grant (grant_of new (u ch) ch) (mt_grants T1)\<rparr>"
  obtain c T3 where c: "spend_code now (u ch) (ch_recovery_id ch) ?T2 = (c, T3)" by fastforce
  show thesis
  proof (cases "at_epoch (u ch) (ch_expected_epoch ch) T \<and> b \<and> c")
    case True
    with s c show thesis by (intro granted [OF _ _ _ refl]) (auto simp: issue_def u_def Let_def)
  next
    case False
    with s c have "\<exists>e. issue new now ch T = (Inl e, T)" by (cases b; cases c) (auto simp: issue_def u_def Let_def)
    then show thesis using refused by blast
  qed
qed

lemma sweep_expired_simps [simp]:
  "mt_factors (sweep_expired now u T) = mt_factors T" "mt_recovery (sweep_expired now u T) = mt_recovery T"
  "mt_users (sweep_expired now u T) = mt_users T"
  by (simp_all add: sweep_expired_def)

lemma spend_step_frame [simp]:
  "mt_grants (snd (spend_step u s T)) = mt_grants T" "mt_recovery (snd (spend_step u s T)) = mt_recovery T"
  "mt_users (snd (spend_step u s T)) = mt_users T"
  by (cases s; simp add: spend_step_def)+

lemma issue_granted_tables:
  assumes "fst (issue new now ch T) = Inr i"
  defines "v \<equiv> normalize_username (ch_username ch)" and "T' \<equiv> snd (issue new now ch T)"
  shows "i = new \<and> at_epoch v (ch_expected_epoch ch) T \<and> fst (spend_step v (ch_totp_step ch) T)
    \<and> fst (spend_code now v (ch_recovery_id ch) T)
    \<and> mt_factors T' = mt_factors (snd (spend_step v (ch_totp_step ch) T))
    \<and> mt_recovery T' = mt_recovery (snd (spend_code now v (ch_recovery_id ch) T))
    \<and> mt_users T' = mt_users T
    \<and> mt_grants T' = filter (\<lambda>g. \<not> (gr_username g = v \<and> gr_expires_at g < now)) (upsert_grant (grant_of new v ch) (mt_grants T))"
proof (cases rule: issue_cases [of new now ch T])
  case (refused e)
  with assms(1) show ?thesis by simp
next
  case (granted T1 T2 T3)
  have "fst (spend_code now v rid A) = fst (spend_code now v rid B)"
    "mt_recovery (snd (spend_code now v rid A)) = mt_recovery (snd (spend_code now v rid B))"
    if "mt_recovery A = mt_recovery B" for rid A B
    using that by (cases rid; simp add: spend_code_def spend_where_def Let_def)+
  moreover have "mt_recovery T2 = mt_recovery T"
    using granted spend_step_frame(2) [of v "ch_totp_step ch" T] by (simp add: v_def)
  ultimately have "fst (spend_code now v (ch_recovery_id ch) T) = fst (spend_code now v (ch_recovery_id ch) T2)"
    "mt_recovery (snd (spend_code now v (ch_recovery_id ch) T)) = mt_recovery T3"
    using granted by (metis snd_conv v_def)+
  moreover have "mt_factors T3 = mt_factors T1" "mt_grants T3 = upsert_grant (grant_of new v ch) (mt_grants T)" "mt_users T3 = mt_users T"
    using granted spend_code_frame [of now v "ch_recovery_id ch" T2] spend_step_frame [of v "ch_totp_step ch" T]
    by (auto simp: v_def)
  ultimately show ?thesis
    using assms(1) granted by (simp add: T'_def v_def sweep_expired_def)
qed

lemma issue_refused_tables: "fst (issue new now ch T) = Inl e \<Longrightarrow> snd (issue new now ch T) = T"
  by (cases rule: issue_cases [of new now ch T]) auto

lemma consume_recovery_frame [simp]:
  "mt_factors (snd (consume_recovery_code cr now v code T)) = mt_factors T"
  "mt_grants (snd (consume_recovery_code cr now v code T)) = mt_grants T"
  "mt_users (snd (consume_recovery_code cr now v code T)) = mt_users T"
  by (cases "find_recovery_candidate cr v code T"; simp add: consume_recovery_code_def split_def)+

lemma issue_factor: "factor_step now (mt_factors T u) (mt_factors (snd (issue new now ch T)) u)"
  by (cases "fst (issue new now ch T)") (simp_all add: issue_refused_tables issue_granted_tables spend_step_factor)

lemma regenerate_factor: "factor_step now (mt_factors T u) (mt_factors (snd (regenerate_recovery_codes new now v actor hs gen T)) u)"
  by (auto simp: regenerate_recovery_codes_def update_factor_def Let_def grows_def split: option.splits intro: factor_steps)

lemma begin_factor: "factor_step now (mt_factors T u) (mt_factors (committed T (begin_enrollment now v enc nonce cer T)) u)"
  by (auto simp: begin_enrollment_def committed_def Let_def pending_def split: option.splits intro: factor_steps)

lemma confirm_factor:
  "factor_step now (mt_factors T u) (mt_factors (committed T (confirm_with_recovery_codes new now v actor hs cer T)) u)"
  by (auto simp: confirm_with_recovery_codes_def committed_def update_factor_def Let_def pending_def
      split: option.splits intro: factor_steps)

lemma delete_all_step: "factor_step now (mt_factors T u) (mt_factors (delete_all_grants v T) u)"
  by (cases "mt_factors T u") (auto simp: grows_def intro!: factor_step_grows [OF refl])

lemma mfa_apply_factor: "factor_step now (mt_factors T u) (mt_factors (mfa_apply cr (now, new, op) T) u)"
proof (cases op)
  case (OpStep v s)
  have "record_used_step v s T = spend_step (normalize_username v) (Some s) T"
    by (simp add: record_used_step_def spend_step_def)
  with OpStep show ?thesis by (simp add: spend_step_factor)
next
  case (OpPassword v actor)
  then show ?thesis by (auto simp: password_changed_def committed_def Let_def delete_all_step simp del: delete_all_factor)
next
  case (OpDeleteUser v actor)
  then show ?thesis by (cases "u = normalize_username v") (auto simp: user_deleted_def committed_def Let_def)
next
  case (OpReset v actor)
  then show ?thesis by (cases "u = normalize_username v") (auto simp: mfa_reset_def Let_def)
next
  case (OpCreate ch)
  then show ?thesis by (auto simp: create_grant_def Let_def)
next
  case (OpRevokeAll v actor)
  then show ?thesis by (auto simp: revoke_all_def Let_def delete_all_step simp del: delete_all_factor)
next
  case (OpRevokeOne i v actor)
  then show ?thesis by (auto simp: revoke_one_def Let_def)
qed (simp_all add: issue_factor regenerate_factor begin_factor confirm_factor replace_recovery_codes_def)

section \<open>Properties: revocation\<close>

text \<open>What a challenge read of a factor confirmed at \<open>c\<close> with epoch \<open>e\<close>, or of an earlier one, is left behind.\<close>

definition newer :: "timestamp \<times> int \<Rightarrow> timestamp \<times> int \<Rightarrow> bool" where
  "newer p q \<longleftrightarrow> fst q < fst p \<or> fst p = fst q \<and> snd q < snd p"

definition moved_on :: "timestamp \<times> int \<Rightarrow> factor_row option \<Rightarrow> bool" where
  "moved_on q x \<longleftrightarrow> (case x of None \<Rightarrow> True | Some f \<Rightarrow>
     (case fa_confirmed_at f of None \<Rightarrow> True | Some c \<Rightarrow> newer (c, fa_security_epoch f) q))"

lemma moved_on_step: "factor_step now x y \<Longrightarrow> moved_on q x \<Longrightarrow> fst q < now \<Longrightarrow> moved_on q y"
  by (auto simp: factor_step_def moved_on_def grows_def newer_def pending_def split: option.splits)

lemma moved_on_run:
  "moved_on q (mt_factors T u) \<Longrightarrow> \<forall>(now, _) \<in> set es. fst q < now \<Longrightarrow> moved_on q (mt_factors (mfa_run cr es T) u)"
proof (induction es arbitrary: T)
  case (Cons e es)
  obtain now new op where e: "e = (now, new, op)" by (cases e)
  with Cons.prems have "moved_on q (mt_factors (mfa_apply cr e T) u)"
    using moved_on_step [OF mfa_apply_factor] by auto
  with Cons.IH [of "mfa_apply cr e T"] Cons.prems(2) show ?case by (simp add: mfa_run_def)
qed (simp add: mfa_run_def)

lemma fetch_valid_Some: "fetch_valid now i T = Some g \<Longrightarrow> g \<in> set (mt_grants T) \<and> gr_id g = i \<and> now < gr_expires_at g"
  unfolding fetch_valid_def find_Some_iff by (metis (no_types, lifting) nth_mem)

text \<open>The transactions that revoke the trust in a user's devices.\<close>

definition revokes :: "string \<Rightarrow> mfa_op \<Rightarrow> mfa_tables \<Rightarrow> bool" where
  "revokes u op T = (case op of
       OpRevokeAll v _ \<Rightarrow> normalize_username v = u
     | OpReset v _ \<Rightarrow> normalize_username v = u
     | OpPassword v _ \<Rightarrow> normalize_username v = u \<and> u \<in> set (mt_users T)
     | OpDeleteUser v _ \<Rightarrow> normalize_username v = u \<and> u \<in> set (mt_users T)
     | _ \<Rightarrow> False)"

lemma revokes_moves_on:
  assumes "revokes u op T" and "mt_factors T u = Some f" and "fa_confirmed_at f = Some c"
  shows "moved_on (c, fa_security_epoch f) (mt_factors (mfa_apply cr (now, new, op) T) u)"
  using assms
  by (cases op)
    (auto simp: revokes_def moved_on_def newer_def revoke_all_def mfa_reset_def password_changed_def user_deleted_def
      committed_def Let_def)

text \<open>
  C6: Revocation wins. Let a user's factor be confirmed at \<open>c\<close> with epoch \<open>e\<close>, and let the user's devices be
  forgotten, the factor reset, the password changed or the user deleted. Whatever transactions follow, at
  later times and in any order, the issue of grants by challenges that were under way included: a browser
  satisfies the second factor only with a grant whose challenge read a factor state newer than the one
  before the revocation.
\<close>

theorem revocation_wins:
  assumes "mt_factors T (normalize_username username) = Some f" and "fa_confirmed_at f = Some c"
    and "revokes (normalize_username username) op T" and "\<forall>(now, _) \<in> set es. c < now"
    and "effective_require_mfa sp"
    and "evaluate cr now (Some (db_view read (mfa_run cr ((t0, new, op) # es) T))) username sid cookies sp = Satisfied"
  shows "\<exists>i token g. Option.bind (cookies DEVICE_COOKIE) device_cookie_parts = Some (i, token)
    \<and> g \<in> set (mt_grants (mfa_run cr ((t0, new, op) # es) T)) \<and> gr_id g = i
    \<and> gr_username g = normalize_username username
    \<and> newer (gr_factor_confirmed_at g, gr_security_epoch g) (c, fa_security_epoch f)"
proof -
  let ?u = "normalize_username username" and ?T = "mfa_run cr ((t0, new, op) # es) T"
  from moved_on_run [OF revokes_moves_on [OF assms(3,1,2), of cr t0 new], of es cr] assms(4)
  have moved: "moved_on (c, fa_security_epoch f) (mt_factors ?T ?u)" by (simp add: mfa_run_def)
  from assms(6) obtain i token g f' where
    g: "Option.bind (cookies DEVICE_COOKIE) device_cookie_parts = Some (i, token)"
      "fetch_valid read i ?T = Some g" "mt_factors ?T ?u = Some f'" "grant_matches cr now username token g f'"
    unfolding mfa_satisfied_iff [OF assms(5)] by (auto simp: db_view_def mfa_fetch_def)
  then have "newer (gr_factor_confirmed_at g, gr_security_epoch g) (c, fa_security_epoch f)"
    using moved by (auto simp: grant_matches_def moved_on_def split: option.splits dest!: sym [of "Some _"])
  moreover have "g \<in> set (mt_grants ?T)" "gr_id g = i" using fetch_valid_Some [OF g(2)] by auto
  moreover have "gr_username g = ?u" using g(4) by (simp add: grant_matches_def)
  ultimately show ?thesis using g(1) by blast
qed

section \<open>Properties: proofs are spent once\<close>

text \<open>The step of a time-based code that a transaction accepts for a user.\<close>

definition accepted_step :: "string \<Rightarrow> mfa_entry \<Rightarrow> mfa_tables \<Rightarrow> int option" where
  "accepted_step u e T = (case e of (now, new, op) \<Rightarrow> (case op of
       OpStep v s \<Rightarrow> if normalize_username v = u \<and> fst (record_used_step v s T) then Some s else None
     | OpIssue ch \<Rightarrow> if normalize_username (ch_username ch) = u \<and> \<not> isl (fst (issue (new 0) now ch T)) then ch_totp_step ch else None
     | _ \<Rightarrow> None))"

fun accepted_steps :: "mfa_crypto \<Rightarrow> string \<Rightarrow> mfa_entry list \<Rightarrow> mfa_tables \<Rightarrow> int list" where
  "accepted_steps cr u [] T = []"
| "accepted_steps cr u (e # es) T =
     (case accepted_step u e T of None \<Rightarrow> [] | Some s \<Rightarrow> [s]) @ accepted_steps cr u es (mfa_apply cr e T)"

definition drops_factor :: "string \<Rightarrow> mfa_op \<Rightarrow> bool" where
  "drops_factor u op = (case op of
       OpReset v _ \<Rightarrow> normalize_username v = u | OpDeleteUser v _ \<Rightarrow> normalize_username v = u | _ \<Rightarrow> False)"

definition above :: "int option \<Rightarrow> int \<Rightarrow> bool" where
  "above b s \<longleftrightarrow> (case b of None \<Rightarrow> True | Some k \<Rightarrow> k < s)"

lemma accepted_step_stored:
  assumes "accepted_step u (now, new, op) T = Some s" and "mt_factors T u = Some f"
  shows "above (fa_last_used_step f) s
    \<and> map_option fa_last_used_step (mt_factors (mfa_apply cr (now, new, op) T) u) = Some (Some s)"
proof (cases op)
  case (OpStep v k)
  with assms show ?thesis
    by (auto simp: accepted_step_def record_used_step_def update_factor_def fresher_def above_def split: if_splits option.splits)
next
  case (OpIssue ch)
  with assms(1) obtain i where i: "fst (issue (new 0) now ch T) = Inr i" "normalize_username (ch_username ch) = u" "ch_totp_step ch = Some s"
    by (cases "fst (issue (new 0) now ch T)") (auto simp: accepted_step_def split: if_splits)
  from issue_granted_tables [OF i(1)] i assms(2) OpIssue show ?thesis
    by (auto simp: spend_step_def update_factor_def fresher_def above_def split: if_splits option.splits)
qed (use assms in \<open>simp_all add: accepted_step_def\<close>)

lemma enrolled_keeps_step:
  assumes "mt_factors T u = Some f" and "fa_confirmed_at f = Some c" and "\<not> drops_factor u op"
  obtains g where "mt_factors (mfa_apply cr (now, new, op) T) u = Some g" and "grows f g"
proof -
  have "mt_factors (mfa_apply cr (now, new, op) T) u \<noteq> None"
  proof (cases "drops_factor u op")
    case False
    show ?thesis
    proof (cases op)
      case (OpIssue ch)
      have "mt_factors (snd (spend_step v s T)) u \<noteq> None" for v s
        using assms(1) by (cases s) (auto simp: spend_step_def update_factor_def split: option.splits)
      with OpIssue assms(1) show ?thesis
        by (cases "fst (issue (new 0) now ch T)") (simp_all add: issue_refused_tables issue_granted_tables)
    qed (use assms in \<open>auto simp: committed_def begin_enrollment_def confirm_with_recovery_codes_def update_factor_def
        replace_recovery_codes_def regenerate_recovery_codes_def record_used_step_def create_grant_def revoke_all_def
        revoke_one_def mfa_reset_def password_changed_def user_deleted_def drops_factor_def Let_def
        split: option.splits\<close>)
  qed (use assms in simp)
  with that mfa_apply_factor [of now T u cr new op] assms(1,2) show thesis
    by (auto simp: factor_step_def pending_def)
qed

lemma above_grows: "grows f g \<Longrightarrow> above (fa_last_used_step g) s \<Longrightarrow> above (fa_last_used_step f) s"
  by (auto simp: grows_def fresher_def above_def split: option.splits)

lemma accepted_steps_above:
  assumes "mt_factors T u = Some f" and "fa_confirmed_at f = Some c" and "\<forall>(_, _, op) \<in> set es. \<not> drops_factor u op"
  shows "sorted_wrt (<) (accepted_steps cr u es T) \<and> (\<forall>s \<in> set (accepted_steps cr u es T). above (fa_last_used_step f) s)"
  using assms
proof (induction es arbitrary: T f)
  case (Cons e es)
  obtain now new op where e: "e = (now, new, op)" by (cases e)
  with Cons.prems obtain g where g: "mt_factors (mfa_apply cr e T) u = Some g" "grows f g"
    using enrolled_keeps_step [of T u f c op cr now new] by auto
  with Cons.prems(2) have "fa_confirmed_at g = Some c" by (simp add: grows_def)
  with Cons.IH [OF g(1)] Cons.prems(3)
  have ih: "sorted_wrt (<) (accepted_steps cr u es (mfa_apply cr e T))"
    "\<forall>s \<in> set (accepted_steps cr u es (mfa_apply cr e T)). above (fa_last_used_step g) s" by auto
  show ?case
  proof (cases "accepted_step u e T")
    case None
    with ih above_grows [OF g(2)] show ?thesis by simp
  next
    case (Some s)
    with accepted_step_stored [of u now new op T s f cr] Cons.prems(1) e g(1)
    have "above (fa_last_used_step f) s" "fa_last_used_step g = Some s" by auto
    with Some ih above_grows [OF g(2)] show ?thesis by (auto simp: above_def)
  qed
qed simp

text \<open>
  C35: A time-based code is accepted once. As long as a confirmed factor is neither reset nor deleted with its
  user, the steps accepted for it, by the recording of a step or by the issue of a grant, strictly increase
  whatever else happens to the tables, so no step is ever accepted twice.
\<close>

theorem totp_steps_never_replayed:
  assumes "mt_factors T u = Some f" and "fa_confirmed_at f = Some c" and "\<forall>(_, _, op) \<in> set es. \<not> drops_factor u op"
  shows "sorted_wrt (<) (accepted_steps cr u es T) \<and> distinct (accepted_steps cr u es T)
    \<and> (\<forall>s \<in> set (accepted_steps cr u es T). \<forall>k. fa_last_used_step f = Some k \<longrightarrow> k < s)"
  using accepted_steps_above [OF assms, of cr] strict_sorted_iff by (fastforce simp: above_def)

text \<open>Recovery codes: what a transaction redeems, and which transactions write new codes.\<close>

definition redeems :: "mfa_crypto \<Rightarrow> string \<Rightarrow> mfa_entry \<Rightarrow> mfa_tables \<Rightarrow> bool" where
  "redeems cr u e T = (case e of (now, new, op) \<Rightarrow> (case op of
       OpConsume v code \<Rightarrow> normalize_username v = u \<and> fst (consume_recovery_code cr now v code T)
     | OpIssue ch \<Rightarrow> normalize_username (ch_username ch) = u \<and> \<not> isl (fst (issue (new 0) now ch T)) \<and> ch_recovery_id ch \<noteq> None
     | _ \<Rightarrow> False))"

definition writes_codes :: "string \<Rightarrow> mfa_op \<Rightarrow> bool" where
  "writes_codes u op = (case op of
       OpConfirm v _ hs _ \<Rightarrow> normalize_username v = u \<and> hs \<noteq> None
     | OpReplace v _ \<Rightarrow> normalize_username v = u
     | OpRegenerate v _ _ _ \<Rightarrow> normalize_username v = u
     | _ \<Rightarrow> False)"

fun redemptions :: "mfa_crypto \<Rightarrow> string \<Rightarrow> mfa_entry list \<Rightarrow> mfa_tables \<Rightarrow> nat" where
  "redemptions cr u [] T = 0"
| "redemptions cr u (e # es) T = (if redeems cr u e T then 1 else 0) + redemptions cr u es (mfa_apply cr e T)"

definition unused_of :: "string \<Rightarrow> recovery_row list \<Rightarrow> nat" where
  "unused_of u rs = count_if (\<lambda>r. rv_username r = u \<and> rv_used_at r = None) rs"

lemma unused_codes_count: "length (unused_codes u T) = unused_of u (mt_recovery T)"
  by (simp add: unused_codes_def unused_of_def count_if_def)

lemma unused_of_append [simp]: "unused_of u (xs @ ys) = unused_of u xs + unused_of u ys"
  by (simp add: unused_of_def)

lemma unused_of_filter: "unused_of u (filter P rs) \<le> unused_of u rs"
  by (induction rs) (auto simp: unused_of_def)

lemma unused_of_filter_other: "v \<noteq> u \<Longrightarrow> unused_of u (filter (\<lambda>r. rv_username r \<noteq> v) rs) = unused_of u rs"
  by (induction rs) (auto simp: unused_of_def)

lemma spend_unused:
  "unused_of u (mt_recovery (snd (spend_where now cond T)))
     + count_if (\<lambda>r. rv_username r = u \<and> cond r \<and> rv_used_at r = None) (mt_recovery T) = unused_of u (mt_recovery T)"
proof -
  have "unused_of u (map (\<lambda>r. if cond r \<and> rv_used_at r = None then r\<lparr>rv_used_at := Some now\<rparr> else r) rs)
      + count_if (\<lambda>r. rv_username r = u \<and> cond r \<and> rv_used_at r = None) rs = unused_of u rs" for rs
    by (induction rs) (auto simp: unused_of_def)
  then show ?thesis by (simp add: spend_where_def Let_def)
qed

lemma count_if_pos: "r \<in> set rs \<Longrightarrow> P r \<Longrightarrow> 0 < count_if P rs"
  by (induction rs) auto

lemma consume_unused:
  "unused_of u (mt_recovery (snd (consume_recovery_code cr now v code T)))
     + (if normalize_username v = u \<and> fst (consume_recovery_code cr now v code T) then 1 else 0) \<le> unused_of u (mt_recovery T)"
proof (cases "find_recovery_candidate cr v code T")
  case None
  then show ?thesis by (simp add: consume_recovery_code_def)
next
  case (Some i)
  then obtain r where r: "List.find (\<lambda>r. verify_recovery_code cr code (rv_hash r)) (unused_codes (normalize_username v) T) = Some r"
    and "rv_id r = i" by (auto simp: find_recovery_candidate_def)
  from r have "r \<in> set (unused_codes (normalize_username v) T)" unfolding find_Some_iff by (metis nth_mem)
  with \<open>rv_id r = i\<close> have "0 < count_if (\<lambda>r. rv_username r = normalize_username v \<and> rv_id r = i \<and> rv_used_at r = None) (mt_recovery T)"
    by (intro count_if_pos [of r]) (auto simp: unused_codes_def)
  with spend_unused [of u now "\<lambda>r. rv_id r = i" T] Some show ?thesis
    by (auto simp: consume_recovery_code_def split_def)
qed

lemma spend_code_unused:
  "unused_of u (mt_recovery (snd (spend_code now v rid T)))
     + (if v = u \<and> fst (spend_code now v rid T) \<and> rid \<noteq> None then 1 else 0) \<le> unused_of u (mt_recovery T)"
proof (cases rid)
  case (Some i)
  have "count_if (\<lambda>r. rv_username r = u \<and> (rv_id r = i \<and> rv_username r = u) \<and> rv_used_at r = None) (mt_recovery T)
      = count_if (\<lambda>r. (rv_id r = i \<and> rv_username r = u) \<and> rv_used_at r = None) (mt_recovery T)"
    by (rule arg_cong [where f = "\<lambda>P. count_if P (mt_recovery T)"]) auto
  with spend_unused [of u now "\<lambda>r. rv_id r = i \<and> rv_username r = v" T] Some show ?thesis
    by (auto simp: spend_code_def spend_where_def Let_def)
qed (simp add: spend_code_def)

lemma write_codes_other [simp]:
  "w \<noteq> u \<Longrightarrow> unused_of u (mt_recovery (write_codes new now w l A)) = unused_of u (mt_recovery A)"
  by (auto simp: write_codes_def unused_of_filter_other) (auto simp: unused_of_def count_if_def filter_empty_conv)

lemma redemption_step:
  assumes "\<not> writes_codes u op"
  shows "unused_of u (mt_recovery (mfa_apply cr (now, new, op) T)) + (if redeems cr u (now, new, op) T then 1 else 0)
    \<le> unused_of u (mt_recovery T)"
proof (cases op)
  case (OpConsume v code)
  with consume_unused [of u cr now v code T] show ?thesis by (simp add: redeems_def)
next
  case (OpIssue ch)
  with spend_code_unused [of u now "normalize_username (ch_username ch)" "ch_recovery_id ch" T] show ?thesis
    by (cases "fst (issue (new 0) now ch T)") (auto simp: redeems_def issue_refused_tables issue_granted_tables)
next
  case (OpConfirm v actor hs cer)
  with OpConfirm assms show ?thesis
    by (auto simp: redeems_def writes_codes_def confirm_with_recovery_codes_def committed_def update_factor_def Let_def
        split: option.splits)
next
  case (OpReplace v hs)
  with assms show ?thesis
    by (simp add: redeems_def writes_codes_def replace_recovery_codes_def)
next
  case (OpRegenerate v actor hs gen)
  with OpRegenerate assms show ?thesis
    by (auto simp: redeems_def writes_codes_def regenerate_recovery_codes_def update_factor_def Let_def split: option.splits)
qed (auto simp: redeems_def committed_def begin_enrollment_def record_used_step_def create_grant_def revoke_all_def
    revoke_one_def mfa_reset_def password_changed_def user_deleted_def Let_def unused_of_filter split: option.splits)


section \<open>Properties: the issue of a grant\<close>

text \<open>Well-formed tables: the foreign keys, one grant per browser, and no grant ahead of its factor's epoch.\<close>

definition browser :: "grant_row \<Rightarrow> string \<times> string" where
  "browser g = (gr_username g, gr_session_binding g)"

definition mfa_wf :: "mfa_tables \<Rightarrow> bool" where
  "mfa_wf T \<longleftrightarrow> distinct (map browser (mt_grants T))
     \<and> (\<forall>u f. mt_factors T u = Some f \<longrightarrow> fa_username f = u \<and> u \<in> set (mt_users T) \<and> 0 \<le> fa_security_epoch f)
     \<and> (\<forall>g \<in> set (mt_grants T). \<exists>f. mt_factors T (gr_username g) = Some f \<and> gr_security_epoch g \<le> fa_security_epoch f)"

lemma mfa_wfI:
  assumes "mfa_wf T" and "distinct (map browser (mt_grants T'))" and "set (mt_users T') = set (mt_users T)"
    and "\<And>u g. mt_factors T' u = Some g \<Longrightarrow> \<exists>f. mt_factors T u = Some f \<and> fa_username g = fa_username f \<and> fa_security_epoch f \<le> fa_security_epoch g"
    and "\<And>u f. mt_factors T u = Some f \<Longrightarrow> mt_factors T' u \<noteq> None"
    and "\<And>g. g \<in> set (mt_grants T') \<Longrightarrow> g \<in> set (mt_grants T) \<or> (\<exists>f. mt_factors T (gr_username g) = Some f \<and> gr_security_epoch g \<le> fa_security_epoch f)"
  shows "mfa_wf T'"
proof -
  have keep: "\<exists>f'. mt_factors T' u = Some f' \<and> fa_security_epoch f \<le> fa_security_epoch f'" if f: "mt_factors T u = Some f" for u f
    using assms(5) [OF f] assms(4) [of u] f by fastforce
  have "\<exists>f. mt_factors T' (gr_username g) = Some f \<and> gr_security_epoch g \<le> fa_security_epoch f" if "g \<in> set (mt_grants T')" for g
    using assms(6) [OF that] assms(1) keep unfolding mfa_wf_def by (meson order_trans)
  moreover have "fa_username f = u \<and> u \<in> set (mt_users T') \<and> 0 \<le> fa_security_epoch f" if "mt_factors T' u = Some f" for u f
    using assms(4) [OF that] assms(1,3) unfolding mfa_wf_def by fastforce
  ultimately show ?thesis using assms(2) by (simp add: mfa_wf_def)
qed

lemma same_browser_iff: "same_browser g h \<longleftrightarrow> browser g = browser h"
  by (auto simp: same_browser_def browser_def)

lemma browsers_upsert: "distinct (map browser gs) \<Longrightarrow> distinct (map browser (upsert_grant g gs))"
proof -
  have "map browser (map (\<lambda>h. if same_browser g h then g else h) gs) = map browser gs"
    by (auto simp: same_browser_iff)
  moreover assume "distinct (map browser gs)"
  ultimately show ?thesis
    by (auto simp: upsert_grant_def list_ex_iff same_browser_iff simp del: map_map)
qed

lemma set_upsert: "set (upsert_grant g gs) = insert g {h \<in> set gs. \<not> same_browser g h}"
  by (auto simp: upsert_grant_def list_ex_iff)

lemma distinct_map_filter_browser: "distinct (map browser gs) \<Longrightarrow> distinct (map browser (filter P gs))"
  by (simp add: distinct_map_filter)

lemma wf_frame:
  assumes "mfa_wf T" and "mt_grants T' = mt_grants T" and "mt_users T' = mt_users T" and "mt_factors T' = mt_factors T"
  shows "mfa_wf T'"
  using assms by (simp add: mfa_wf_def)

lemma wf_update_factor:
  assumes "mfa_wf T" and "\<And>f. c f \<Longrightarrow> fa_username (upd f) = fa_username f \<and> fa_security_epoch f \<le> fa_security_epoch (upd f)"
  shows "mfa_wf (snd (update_factor v c upd T))"
proof (cases rule: update_factor_cases [of v c upd T])
  case (upd f)
  with assms(2) show ?thesis
    by (intro mfa_wfI [OF assms(1)]) (use assms(1) in \<open>auto simp: mfa_wf_def split: if_splits\<close>)
qed (simp add: assms(1))

lemma wf_fewer_grants: "mfa_wf T \<Longrightarrow> mfa_wf (T\<lparr>mt_grants := filter P (mt_grants T)\<rparr>)"
  by (auto simp: mfa_wf_def distinct_map_filter_browser)

lemma wf_delete_all: "mfa_wf T \<Longrightarrow> mfa_wf (delete_all_grants v T)"
  unfolding delete_all_grants_def Let_def by (intro wf_fewer_grants wf_update_factor) auto

lemma wf_audit [simp]: "mfa_wf (audit a x u n T) \<longleftrightarrow> mfa_wf T"
  by (simp add: mfa_wf_def)

lemma wf_write_codes [simp]: "mfa_wf (write_codes new n u hs T) \<longleftrightarrow> mfa_wf T"
  by (simp add: mfa_wf_def)

lemma wf_spend_where [simp]: "mfa_wf (snd (spend_where n c T)) \<longleftrightarrow> mfa_wf T"
  by (simp add: mfa_wf_def)

lemma wf_consume: "mfa_wf T \<Longrightarrow> mfa_wf (snd (consume_recovery_code cr now v code T))"
  by (simp add: consume_recovery_code_def split_def split: option.split)

lemma wf_spend_step: "mfa_wf T \<Longrightarrow> mfa_wf (snd (spend_step v s T))"
  by (cases s) (auto simp: spend_step_def intro!: wf_update_factor)

lemma wf_confirm: "mfa_wf T \<Longrightarrow> mfa_wf (committed T (confirm_with_recovery_codes new now v actor hs cer T))"
  using wf_update_factor [of T "\<lambda>f. fa_confirmed_at f = None \<and> fa_ceremony f = cer"
      "\<lambda>f. f\<lparr>fa_confirmed_at := Some now, fa_updated_at := now\<rparr>" "normalize_username v"]
  by (auto simp: confirm_with_recovery_codes_def committed_def Let_def split: prod.splits bool.splits option.splits)

lemma wf_begin: "mfa_wf T \<Longrightarrow> mfa_wf (committed T (begin_enrollment now v enc nonce cer T))"
  by (auto simp: begin_enrollment_def committed_def Let_def mfa_wf_def split: option.splits)

lemma wf_regenerate: "mfa_wf T \<Longrightarrow> mfa_wf (snd (regenerate_recovery_codes new now v actor hs gen T))"
proof -
  assume wf: "mfa_wf T"
  have "mfa_wf (snd (update_factor u c (\<lambda>g. g\<lparr>fa_updated_at := now\<rparr>) T))" for u c
    by (rule wf_update_factor [OF wf]) simp
  then have "update_factor u c (\<lambda>g. g\<lparr>fa_updated_at := now\<rparr>) T = (b, T1) \<Longrightarrow> mfa_wf T1" for u c b T1
    by (metis snd_conv)
  with wf show ?thesis
    by (auto simp: regenerate_recovery_codes_def Let_def split: option.splits prod.splits bool.splits)
qed

lemma wf_issue: "mfa_wf T \<Longrightarrow> mfa_wf (snd (issue new now ch T))"
proof (cases "fst (issue new now ch T)")
  case (Inr i)
  let ?v = "normalize_username (ch_username ch)"
  let ?g = "grant_of new ?v ch"
  assume wf: "mfa_wf T"
  note t = issue_granted_tables [OF Inr]
  from t obtain f where f: "mt_factors T ?v = Some f" "fa_security_epoch f = ch_expected_epoch ch"
    by (auto simp: at_epoch_def split: option.splits)
  have "mfa_wf (T\<lparr>mt_grants := filter (\<lambda>g. \<not> (gr_username g = ?v \<and> gr_expires_at g < now)) (upsert_grant ?g (mt_grants T))\<rparr>)" (is "mfa_wf ?T1")
  proof (rule mfa_wfI [OF wf])
    show "distinct (map browser (mt_grants ?T1))"
      using wf by (simp add: mfa_wf_def browsers_upsert distinct_map_filter_browser)
    show "g \<in> set (mt_grants T) \<or> (\<exists>f. mt_factors T (gr_username g) = Some f \<and> gr_security_epoch g \<le> fa_security_epoch f)"
      if "g \<in> set (mt_grants ?T1)" for g
      using that f by (auto simp: set_upsert grant_of_def)
  qed auto
  from wf_spend_step [OF this, of ?v "ch_totp_step ch"] show ?thesis
    by (rule wf_frame)
      (use t in \<open>auto simp: spend_step_def update_factor_def split: option.splits\<close>)
qed (simp add: issue_refused_tables)

lemma wf_create: "mfa_wf T \<Longrightarrow> mfa_wf (snd (create_grant new ch T))"
  by (auto simp: create_grant_def Let_def at_epoch_def list_ex_iff same_browser_iff grant_of_def split: option.splits
      intro!: mfa_wfI [of T]) (auto simp: mfa_wf_def browser_def)

lemma wf_reset: "mfa_wf T \<Longrightarrow> mfa_wf (mfa_reset now v actor T)"
  by (auto simp: mfa_reset_def Let_def mfa_wf_def distinct_map_filter_browser split: if_splits)

lemma reset_users [simp]: "mt_users (mfa_reset now v actor T) = mt_users T"
  by (simp add: mfa_reset_def Let_def)

text \<open>
  C37: The tables stay well formed under every transaction: at most one grant per user and browser session,
  every factor under its own existing user, and every grant with a live factor whose epoch it does not exceed.
\<close>

theorem mfa_tables_well_formed:
  assumes "mfa_wf T"
  shows "mfa_wf (mfa_run cr es T)"
  using assms
proof (induction es arbitrary: T)
  case (Cons e es)
  obtain now new op where e: "e = (now, new, op)" by (cases e)
  have "mfa_wf (mfa_apply cr e T)"
  proof (cases op)
    case (OpReset v actor)
    with Cons.prems e wf_reset show ?thesis by auto
  next
    case (OpDeleteUser v actor)
    with Cons.prems e show ?thesis
      by (auto simp: user_deleted_def committed_def Let_def mfa_wf_def distinct_map_filter_browser)
  next
    case (OpStep v s)
    with e wf_spend_step [OF Cons.prems, of "normalize_username v" "Some s"] show ?thesis
      by (simp add: record_used_step_def spend_step_def)
  next
    case (OpAddUser v)
    with Cons.prems e show ?thesis by (auto simp: mfa_wf_def)
  next
    case (OpRevokeOne i v actor)
    with e wf_fewer_grants [OF Cons.prems] show ?thesis by (auto simp: revoke_one_def Let_def)
  qed (use Cons.prems e in \<open>auto simp: wf_consume wf_confirm wf_begin wf_regenerate wf_issue wf_create wf_delete_all
      replace_recovery_codes_def revoke_all_def Let_def password_changed_def\<close>)
  with Cons.IH [of "mfa_apply cr e T"] show ?case by (simp add: mfa_run_def)
qed (simp add: mfa_run_def)

definition owner_of :: "challenge \<Rightarrow> string" where
  "owner_of ch = normalize_username (ch_username ch)"

text \<open>
  C38: The issue of a grant is all or nothing. Refused, it leaves the tables as they were, so no code and no step
  is burned without a grant; it is refused exactly when the factor's epoch has moved, the step is not newer than
  the last one, or the code is already spent. Granted, the browser's one grant is the new one, bound to the
  factor state the challenge read, the step is the last one used and one code fewer is unused.
\<close>

theorem issue_all_or_nothing:
  "case issue new now ch T of
      (Inl e, T') \<Rightarrow> T' = T \<and> (e = StaleEpoch \<longleftrightarrow> \<not> at_epoch (owner_of ch) (ch_expected_epoch ch) T)
        \<and> (e = Replayed \<longrightarrow> \<not> fst (spend_step (owner_of ch) (ch_totp_step ch) T))
        \<and> (e = RecoverySpent \<longrightarrow> \<not> fst (spend_code now (owner_of ch) (ch_recovery_id ch) T))
    | (Inr i, T') \<Rightarrow> i = new \<and> at_epoch (owner_of ch) (ch_expected_epoch ch) T
        \<and> (now \<le> ch_expires_at ch \<longrightarrow> filter (same_browser (grant_of new (owner_of ch) ch)) (mt_grants T') \<noteq> [])
        \<and> set (filter (same_browser (grant_of new (owner_of ch) ch)) (mt_grants T')) \<subseteq> {grant_of new (owner_of ch) ch}
        \<and> (ch_totp_step ch \<noteq> None \<longrightarrow> map_option fa_last_used_step (mt_factors T' (owner_of ch)) = Some (ch_totp_step ch))
        \<and> (ch_recovery_id ch \<noteq> None \<longrightarrow> unused_of (owner_of ch) (mt_recovery T') < unused_of (owner_of ch) (mt_recovery T))"
proof (cases "fst (issue new now ch T)")
  case (Inl e)
  moreover have "\<not> fst (spend_code now (owner_of ch) rid T)"
    if "spend_step (owner_of ch) s T = (b, T1)" "spend_code now (owner_of ch) rid (T1\<lparr>mt_grants := gs\<rparr>) = (False, T2)" for s b rid T1 gs T2
    using that spend_step_frame(2) [of "owner_of ch" s T] by (cases rid) (auto simp: spend_code_def spend_where_def Let_def)
  ultimately show ?thesis
    using issue_refused_tables [OF Inl]
    by (auto simp: issue_def Let_def owner_of_def split: prod.splits bool.splits if_splits)
next
  case (Inr i)
  note t = issue_granted_tables [OF Inr]
  have "ch_totp_step ch \<noteq> None \<Longrightarrow> fst (spend_step (owner_of ch) (ch_totp_step ch) T) \<Longrightarrow>
      map_option fa_last_used_step (mt_factors (snd (spend_step (owner_of ch) (ch_totp_step ch) T)) (owner_of ch)) = Some (ch_totp_step ch)"
    by (auto simp: spend_step_def update_factor_def split: option.splits)
  moreover have "unused_of (owner_of ch) (mt_recovery (snd (spend_code now (owner_of ch) (ch_recovery_id ch) T))) < unused_of (owner_of ch) (mt_recovery T)"
    if "ch_recovery_id ch \<noteq> None"
    using spend_code_unused [of "owner_of ch" now "owner_of ch" "ch_recovery_id ch" T] t that by (auto simp: owner_of_def)
  moreover have "same_browser g g" for g by (simp add: same_browser_def)
  ultimately show ?thesis
    using t Inr by (auto simp: split_def owner_of_def set_upsert grant_of_def filter_empty_conv intro!: prod.expand)
qed

section \<open>Witnesses\<close>

definition demo_token :: string where "demo_token = replicate 64 (CHR ''a'')"

definition demo_hash :: "string \<Rightarrow> string" where "demo_hash = stored_hash demo_crypto (replicate 16 7)"

definition demo_factor :: factor_row where
  "demo_factor = \<lparr>fa_username = ''ann'', fa_secret_enc = [], fa_secret_nonce = [], fa_ceremony = ''c'',
     fa_confirmed_at = Some 10, fa_created_at = 5, fa_updated_at = 10, fa_last_used_step = Some 3, fa_security_epoch = 2\<rparr>"

definition demo_tables :: mfa_tables where
  "demo_tables = \<lparr>mt_users = [''ann''], mt_factors = [''ann'' \<mapsto> demo_factor],
     mt_recovery = [\<lparr>rv_id = ''r1'', rv_username = ''ann'', rv_hash = demo_hash ''ABCDE'', rv_used_at = None, rv_created_at = 5\<rparr>],
     mt_grants = [], mt_audit = []\<rparr>"

definition demo_challenge :: "int \<Rightarrow> string option \<Rightarrow> int option \<Rightarrow> challenge" where
  "demo_challenge e code step = \<lparr>ch_username = ''ann'', ch_token_hash = demo_hash demo_token, ch_session_binding = ''b'',
     ch_factor_confirmed_at = 10, ch_verified_at = 20, ch_expires_at = 1000, ch_expected_epoch = e,
     ch_recovery_id = code, ch_totp_step = step, ch_action = ''mfa.challenge'', ch_actor = ''ann''\<rparr>"

lemma normalize_ann [simp]: "normalize_username ''ann'' = ''ann''"
  unfolding normalize_username_def by code_simp

lemmas demo_mfa = demo_tables_def demo_factor_def demo_challenge_def

lemmas mfa_evaluation = mfa_run_def issue_def at_epoch_def spend_step_def update_factor_def fresher_def spend_code_def
  spend_where_def upsert_grant_def grant_of_def same_browser_def sweep_expired_def Let_def demo_mfa

lemma issue_all_or_nothing_witness:
  "fst (issue ''g'' 20 (demo_challenge 2 (Some ''r1'') None) demo_tables) = Inr ''g''
     \<and> unused_of ''ann'' (mt_recovery (snd (issue ''g'' 20 (demo_challenge 2 (Some ''r1'') None) demo_tables))) = 0
     \<and> issue ''g'' 20 (demo_challenge 1 None None) demo_tables = (Inl StaleEpoch, demo_tables)"
proof -
  have "fst (issue ''g'' 20 (demo_challenge 2 (Some ''r1'') None) demo_tables) = Inr ''g''"
    and "fst (issue ''g'' 20 (demo_challenge 1 None None) demo_tables) = Inl StaleEpoch"
    by (simp_all add: mfa_evaluation)
  moreover have "unused_of ''ann'' (mt_recovery demo_tables) = 1" "ch_recovery_id (demo_challenge 2 (Some ''r1'') None) = Some ''r1''"
    "ch_username (demo_challenge 2 (Some ''r1'') None) = ''ann''"
    by (simp_all add: demo_mfa unused_of_def)
  ultimately show ?thesis
    using issue_all_or_nothing [where new = "''g''" and now = 20 and ch = "demo_challenge 2 (Some ''r1'') None" and T = demo_tables]
      issue_all_or_nothing [where new = "''g''" and now = 20 and ch = "demo_challenge 1 None None" and T = demo_tables]
    by (auto simp: split_def owner_of_def split: sum.splits intro: prod_eqI)
qed

lemma totp_steps_never_replayed_witness:
  "distinct (accepted_steps demo_crypto ''ann'' [(20, \<lambda>_. ''g'', OpIssue (demo_challenge 2 None (Some 4))), (21, \<lambda>_. ''h'', OpStep ''ann'' 4)] demo_tables)"
  using totp_steps_never_replayed [of demo_tables "''ann''" demo_factor 10
      "[(20, \<lambda>_. ''g'', OpIssue (demo_challenge 2 None (Some 4))), (21, \<lambda>_. ''h'', OpStep ''ann'' 4)]" demo_crypto]
  by (simp add: demo_mfa drops_factor_def)


lemma mfa_tables_well_formed_witness:
  "mfa_wf (mfa_run demo_crypto [(20, \<lambda>_. ''g'', OpIssue (demo_challenge 2 None (Some 4)))] demo_tables)"
  by (rule mfa_tables_well_formed) (simp add: mfa_wf_def demo_mfa)

definition protected_spec :: spec where
  "protected_spec = (blank_spec ''app'')\<lparr>sp_require_mfa := Some True\<rparr>"

definition demo_cookies :: "string \<rightharpoonup> string" where
  "demo_cookies = [DEVICE_COOKIE \<mapsto> ''g.'' @ demo_token]"

definition demo_revoked :: mfa_tables where
  "demo_revoked = mfa_run demo_crypto [(15, \<lambda>_. [], OpRevokeAll ''ann'' ''root''), (20, \<lambda>_. ''g'', OpIssue (demo_challenge 3 None None))] demo_tables"

lemma demo_revoked_view:
  "mt_grants demo_revoked = [grant_of ''g'' ''ann'' (demo_challenge 3 None None)]"
  "mt_factors demo_revoked ''ann'' = Some (demo_factor\<lparr>fa_security_epoch := 3\<rparr>)"
  by (simp_all add: demo_revoked_def revoke_all_def audit_def delete_all_grants_def mfa_evaluation)

lemma demo_satisfied:
  "evaluate demo_crypto 30 (Some (db_view 30 demo_revoked)) ''ann'' ''s'' demo_cookies protected_spec = Satisfied"
proof -
  have m: "effective_require_mfa protected_spec"
    by (simp add: effective_require_mfa_def protected_spec_def unwrap_or_def)
  have "split_once (CHR ''.'') (''g.'' @ demo_token) = Some (''g'', demo_token)"
    by (simp add: split_once_Some_iff)
  then have parts: "Option.bind (demo_cookies DEVICE_COOKIE) device_cookie_parts = Some (''g'', demo_token)"
    by (simp add: demo_cookies_def device_cookie_parts_def)
      (simp add: demo_token_def list_all_iff is_hexdigit_def hex_val_def is_digit_def)
  have token: "verify_device_token demo_crypto demo_token (demo_hash demo_token)"
    by (simp add: verify_device_token_def demo_hash_def verify_stored_hash [OF demo_crypto_good])
  have days: "effective_mfa_validity_days protected_spec = 7"
    by (simp add: effective_mfa_validity_days_def protected_spec_def blank_spec_def DEFAULT_MFA_VALIDITY_DAYS_def
        MAX_MFA_VALIDITY_DAYS_def unwrap_or_def min_def)
  show ?thesis
    unfolding mfa_satisfied_iff [OF m]
    by (simp add: parts db_view_def fetch_valid_def mfa_fetch_def demo_revoked_view days grant_matches_def)
      (simp add: grant_of_def demo_mfa token nanos_def)
qed

lemma revocation_wins_witness:
  "\<exists>g \<in> set (mt_grants demo_revoked). newer (gr_factor_confirmed_at g, gr_security_epoch g) (10, 2)"
proof -
  have "effective_require_mfa protected_spec"
    by (simp add: effective_require_mfa_def protected_spec_def unwrap_or_def)
  moreover have "mt_factors demo_tables (normalize_username ''ann'') = Some demo_factor" "fa_confirmed_at demo_factor = Some 10"
    "revokes (normalize_username ''ann'') (OpRevokeAll ''ann'' ''root'') demo_tables" "fa_security_epoch demo_factor = 2"
    by (simp_all add: demo_mfa revokes_def)
  moreover note demo_satisfied [unfolded demo_revoked_def]
  ultimately show ?thesis
    using revocation_wins [of demo_tables "''ann''" demo_factor 10 "OpRevokeAll ''ann'' ''root''"
        "[(20, \<lambda>_. ''g'', OpIssue (demo_challenge 3 None None))]" protected_spec demo_crypto 30 30 15 "\<lambda>_. []" "''s''" demo_cookies]
    by (auto simp: demo_revoked_def)
qed

end
