(* ===== verification/Admin_Auth.thy ===== *)
theory Admin_Auth
  imports Mfa Safe_Redirect
begin

text \<open>
  Who signs in (\<open>crates/ruscker-admin/src/auth.rs\<close>): roles and the sections they reach, the break-glass
  token, the in-memory store of admin sessions, the limiter of failed logins and the password policy.
  Instants are nanoseconds of a monotonic clock. Text is ASCII: letters beyond ASCII are not told apart.
\<close>

section \<open>Roles\<close>

datatype role = Viewer | Editor | Admin

definition role_rank :: "role \<Rightarrow> nat" where
  "role_rank r = (case r of Viewer \<Rightarrow> 0 | Editor \<Rightarrow> 1 | Admin \<Rightarrow> 2)"

instantiation role :: linorder
begin

definition less_eq_role :: "role \<Rightarrow> role \<Rightarrow> bool" where
  "less_eq_role a b \<longleftrightarrow> role_rank a \<le> role_rank b"

definition less_role :: "role \<Rightarrow> role \<Rightarrow> bool" where
  "less_role a b \<longleftrightarrow> role_rank a < role_rank b"

instance
  by standard (auto simp: less_eq_role_def less_role_def role_rank_def split: role.splits)

end

lemma role_order [simp]: "Editor \<le> r \<longleftrightarrow> r \<noteq> Viewer"
  by (cases r) (simp_all add: less_eq_role_def role_rank_def)

definition can_access_section :: "role \<Rightarrow> string \<Rightarrow> bool" where
  "can_access_section r sec =
     (if sec \<in> {''dashboard'', ''specs'', ''images'', ''users'', ''groups''} then Editor \<le> r else r = Admin)"

definition can_manage :: "role \<Rightarrow> bool" where
  "can_manage r \<longleftrightarrow> Editor \<le> r"

definition role_home :: "role \<Rightarrow> string" where
  "role_home r = (case r of Viewer \<Rightarrow> ''/'' | _ \<Rightarrow> ''/admin/specs'')"

definition role_as_str :: "role \<Rightarrow> string" where
  "role_as_str r = (case r of Viewer \<Rightarrow> ''viewer'' | Editor \<Rightarrow> ''editor'' | Admin \<Rightarrow> ''admin'')"

definition role_parse :: "string \<Rightarrow> role option" where
  "role_parse s =
     (if eq_ignore_ascii_case s ''viewer'' then Some Viewer
      else if eq_ignore_ascii_case s ''editor'' then Some Editor
      else if eq_ignore_ascii_case s ''admin'' then Some Admin else None)"

lemma role_parse_strs: "role_parse ''viewer'' = Some Viewer" "role_parse ''editor'' = Some Editor" "role_parse ''admin'' = Some Admin"
  by code_simp+

lemma role_as_str_parse [simp]: "role_parse (role_as_str r) = Some r"
  by (cases r) (simp_all add: role_as_str_def role_parse_strs)

lemma role_as_str_inject [simp]: "role_as_str a = role_as_str b \<longleftrightarrow> a = b"
  by (cases a; cases b) (simp_all add: role_as_str_def)

lemma role_as_str_admin [simp]: "role_as_str r = ''admin'' \<longleftrightarrow> r = Admin"
  by (cases r) (simp_all add: role_as_str_def)

section \<open>The break-glass token\<close>

text \<open>\<open>AdminAuth\<close>: the token, when \<open>RUSCKER_ADMIN_TOKEN\<close> is set and not empty.\<close>

type_synonym admin_auth = "string option"

definition auth_from_env :: "string option \<Rightarrow> admin_auth" where
  "auth_from_env var = (case var of None \<Rightarrow> None | Some s \<Rightarrow> if s = [] then None else Some s)"

definition is_configured :: "admin_auth \<Rightarrow> bool" where
  "is_configured a \<longleftrightarrow> (case a of None \<Rightarrow> False | Some _ \<Rightarrow> True)"

definition matches_token :: "admin_auth \<Rightarrow> string \<Rightarrow> bool" where
  "matches_token a candidate = (case a of None \<Rightarrow> False | Some t \<Rightarrow> ct_eq (bytes_of t) (bytes_of candidate))"

lemma bytes_of_inject [simp]: "bytes_of a = bytes_of b \<longleftrightarrow> a = b"
proof -
  have "inj (\<lambda>c. of_nat (byte c) :: u8)"
  proof (rule injI)
    fix c d :: char assume "(of_nat (byte c) :: u8) = of_nat (byte d)"
    then have "unat (of_nat (byte c) :: u8) = unat (of_nat (byte d) :: u8)" by simp
    moreover have "byte x < 256" for x :: char by simp
    ultimately have "byte c = byte d" by (simp add: unat_of_nat take_bit_eq_mod)
    then show "c = d" by simp
  qed
  then show ?thesis by (simp add: bytes_of_def)
qed

lemma matches_token_iff: "matches_token a c \<longleftrightarrow> a = Some c"
  by (auto simp: matches_token_def ct_eq_iff split: option.splits)

section \<open>Sessions\<close>

record session_info =
  si_role :: role
  si_actor :: "string option"

record admin_session = session_info +
  as_expiry :: nat

record admin_sessions =
  am_sessions :: "string \<rightharpoonup> admin_session"
  am_ttl :: nat

definition sessions_new :: "nat \<Rightarrow> admin_sessions" where
  "sessions_new ttl = \<lparr>am_sessions = Map.empty, am_ttl = ttl\<rparr>"

definition sessions_default :: admin_sessions where
  "sessions_default = sessions_new (secs (24 * 60 * 60))"

text \<open>Two UUIDs in simple form: \<open>simple\<close> is their 32 hexadecimal digits.\<close>

definition mint_session_id :: "(uuid \<Rightarrow> string) \<Rightarrow> uuid \<Rightarrow> uuid \<Rightarrow> string" where
  "mint_session_id simple a b = simple a @ simple b"

definition session_create :: "string \<Rightarrow> nat \<Rightarrow> role \<Rightarrow> string option \<Rightarrow> admin_sessions \<Rightarrow> admin_sessions" where
  "session_create i now r actor st =
     st\<lparr>am_sessions := (am_sessions st)(i \<mapsto> \<lparr>si_role = r, si_actor = actor, as_expiry = now + am_ttl st\<rparr>)\<rparr>"

definition session_remove :: "string \<Rightarrow> admin_sessions \<Rightarrow> admin_sessions" where
  "session_remove i st = st\<lparr>am_sessions := (am_sessions st)(i := None)\<rparr>"

definition session_validate :: "nat \<Rightarrow> string \<Rightarrow> admin_sessions \<Rightarrow> session_info option \<times> admin_sessions" where
  "session_validate now i st =
     (case am_sessions st i of
        None \<Rightarrow> (None, st)
      | Some e \<Rightarrow> if as_expiry e > now then (Some \<lparr>si_role = si_role e, si_actor = si_actor e\<rparr>, st)
          else (None, session_remove i st))"

definition revoke_by_actor :: "string \<Rightarrow> admin_sessions \<Rightarrow> admin_sessions" where
  "revoke_by_actor actor st =
     st\<lparr>am_sessions := map_retain (\<lambda>_ e. si_actor e \<noteq> Some actor) (am_sessions st)\<rparr>"

text \<open>The extractors: no token configured, no live session, or a role that is too low.\<close>

datatype rejection = AdminDisabled | ToLogin | Forbidden

definition extract_session :: "admin_auth \<Rightarrow> nat \<Rightarrow> (string \<rightharpoonup> string) \<Rightarrow> admin_sessions \<Rightarrow>
    (rejection + session_info) \<times> admin_sessions" where
  "extract_session auth now cookies st =
     (if \<not> is_configured auth then (Inl AdminDisabled, st)
      else (case cookies ''ruscker_admin_session'' of
          None \<Rightarrow> (Inl ToLogin, st)
        | Some c \<Rightarrow> (case session_validate now c st of
              (Some info, st') \<Rightarrow> (Inr info, st')
            | (None, st') \<Rightarrow> (Inl ToLogin, st'))))"

definition require_editor :: "(rejection + session_info) \<Rightarrow> rejection + session_info" where
  "require_editor r = (case r of Inl e \<Rightarrow> Inl e | Inr s \<Rightarrow> if Editor \<le> si_role s then Inr s else Inl Forbidden)"

definition require_admin :: "(rejection + session_info) \<Rightarrow> rejection + session_info" where
  "require_admin r = (case r of Inl e \<Rightarrow> Inl e | Inr s \<Rightarrow> if si_role s = Admin then Inr s else Inl Forbidden)"

definition session_actor :: "session_info \<Rightarrow> string" where
  "session_actor s = unwrap_or ''token'' (si_actor s)"

section \<open>Failed logins\<close>

record login_limiter =
  ll_failures :: "nat list"
  ll_max :: nat
  ll_window :: nat

definition login_limiter_default :: login_limiter where
  "login_limiter_default = \<lparr>ll_failures = [], ll_max = 10, ll_window = secs 60\<rparr>"

definition login_allow :: "nat \<Rightarrow> login_limiter \<Rightarrow> bool \<times> login_limiter" where
  "login_allow now l =
     (let q = prune now (ll_window l) (ll_failures l) in (length q < ll_max l, l\<lparr>ll_failures := q\<rparr>))"

definition login_failed :: "nat \<Rightarrow> login_limiter \<Rightarrow> login_limiter" where
  "login_failed now l = l\<lparr>ll_failures := ll_failures l @ [now]\<rparr>"

definition login_succeeded :: "login_limiter \<Rightarrow> login_limiter" where
  "login_succeeded l = l\<lparr>ll_failures := []\<rparr>"

section \<open>Passwords\<close>

definition password_meets_policy :: "string \<Rightarrow> bool" where
  "password_meets_policy p \<longleftrightarrow> 8 \<le> length p \<and> list_ex is_upper p \<and> list_ex is_lower p \<and> list_ex is_digit p
     \<and> list_ex (\<lambda>c. \<not> is_alnum c) p"

section \<open>What the store promises\<close>

lemma validate_live:
  "session_validate now i st = (Some info, st') \<Longrightarrow>
     st' = st \<and> (\<exists>e. am_sessions st i = Some e \<and> si_role info = si_role e \<and> si_actor info = si_actor e \<and> now < as_expiry e)"
  by (auto simp: session_validate_def split: option.splits if_splits)

lemma validate_keeps: "am_sessions (snd (session_validate now i st)) j = Some e \<Longrightarrow> am_sessions st j = Some e"
  by (auto simp: session_validate_def session_remove_def split: option.splits if_splits)

lemma revoke_by_actor_gone: "am_sessions (revoke_by_actor a st) i = Some e \<longleftrightarrow> am_sessions st i = Some e \<and> si_actor e \<noteq> Some a"
  by (auto simp: revoke_by_actor_def map_retain_def split: option.splits if_splits)

lemma session_create_simps [simp]:
  "am_sessions (session_create i now r actor st) = (am_sessions st)(i \<mapsto> \<lparr>si_role = r, si_actor = actor, as_expiry = now + am_ttl st\<rparr>)"
  by (simp add: session_create_def)

lemma session_remove_simps [simp]: "am_sessions (session_remove i st) = (am_sessions st)(i := None)"
  by (simp add: session_remove_def)

end
