(* ===== verification/User_Store.thy ===== *)
theory User_Store
  imports Mfa_Store Admin_Auth "HOL-Library.List_Lexorder" "HOL-Library.Char_ord" "HOL-Library.Product_Lexorder"
begin

text \<open>
  The accounts (\<open>crates/ruscker-admin/src/db/users.rs\<close>): the table of users with every query and
  transaction on it, together with the tables of the second factor, whose rows go with their user. A
  transaction is one function, as in \<open>Mfa_Store\<close>. The password hash is a parameter (\<open>hashed\<close> is the
  result of hashing, \<open>verify\<close> the check), and so is the pattern match of the database (\<open>like\<close>); the order
  of text is that of its bytes.
\<close>

section \<open>Rows\<close>

record user =
  us_id :: string
  us_username :: string
  us_hash :: string
  us_role :: string
  us_must_change :: bool
  us_groups :: string
  us_created_at :: timestamp
  us_updated_at :: timestamp
  us_created_by :: "string option"
  us_setor :: "string option"
  us_email :: "string option"
  us_celular :: "string option"

record user_row =
  ur_id :: string
  ur_username :: string
  ur_role :: role
  ur_must_change :: bool
  ur_groups :: "string list"
  ur_created_at :: timestamp
  ur_created_by :: "string option"
  ur_setor :: "string option"
  ur_email :: "string option"
  ur_celular :: "string option"

record portal =
  pt_users :: "user list"
  pt_mfa :: mfa_tables

definition is_valid_username :: "string \<Rightarrow> bool" where
  "is_valid_username name \<longleftrightarrow> name \<noteq> [] \<and> list_all (\<lambda>c. is_alnum c \<or> c \<in> set ''_.@-'') name"

definition parse_groups :: "string \<Rightarrow> string list" where
  "parse_groups stored =
     foldl (\<lambda>out tok. let t = trim tok in if t \<noteq> [] \<and> t \<notin> set out then out @ [t] else out) [] (split_on (CHR '','') stored)"

definition join_groups :: "string list \<Rightarrow> string" where
  "join_groups groups = join '','' (parse_groups (join '','' groups))"

definition clean_field :: "string option \<Rightarrow> string option" where
  "clean_field s = (case s of None \<Rightarrow> None | Some v \<Rightarrow> if trim v = [] then None else Some (trim v))"

definition row_from :: "user \<Rightarrow> user_row" where
  "row_from u = \<lparr>ur_id = us_id u, ur_username = us_username u, ur_role = unwrap_or Viewer (role_parse (us_role u)),
     ur_must_change = us_must_change u, ur_groups = parse_groups (us_groups u), ur_created_at = us_created_at u,
     ur_created_by = us_created_by u, ur_setor = clean_field (us_setor u), ur_email = clean_field (us_email u),
     ur_celular = clean_field (us_celular u)\<rparr>"

definition user_at :: "string \<Rightarrow> portal \<Rightarrow> user option" where
  "user_at u P = List.find (\<lambda>x. us_username x = u) (pt_users P)"

section \<open>Queries\<close>

definition count_admins :: "portal \<Rightarrow> nat" where
  "count_admins P = count_if (\<lambda>x. us_role x = ''admin'') (pt_users P)"

definition any_admin_exists :: "portal \<Rightarrow> bool" where
  "any_admin_exists P \<longleftrightarrow> count_admins P > 0"

definition any_user_exists :: "portal \<Rightarrow> bool" where
  "any_user_exists P \<longleftrightarrow> length (pt_users P) > 0"

definition users_fetch :: "string \<Rightarrow> portal \<Rightarrow> user_row option" where
  "users_fetch username P = map_option row_from (user_at (normalize_username username) P)"

text \<open>\<open>instr\<close> and \<open>strpos\<close> are positive.\<close>

fun instr :: "string \<Rightarrow> string \<Rightarrow> bool" where
  "instr n [] \<longleftrightarrow> n = []"
| "instr n (c # s) \<longleftrightarrow> prefix n (c # s) \<or> instr n s"

definition visible_to :: "string list option \<Rightarrow> user \<Rightarrow> bool" where
  "visible_to visible x = (case visible of None \<Rightarrow> True
     | Some groups \<Rightarrow> lowercase (us_role x) \<noteq> ''admin''
         \<and> list_ex (\<lambda>g. instr ('','' @ g @ '','') ('','' @ us_groups x @ '','')) groups)"

datatype dialect = Sqlite | Postgres

definition like_pattern :: "string \<Rightarrow> string" where
  "like_pattern term = ''%'' @ concat (map (\<lambda>c. if c \<in> {CHR ''%'', CHR ''_'', CHR 0x5C} then [CHR 0x5C, c] else [c]) term) @ ''%''"

definition search_columns :: "user \<Rightarrow> string list" where
  "search_columns x = [us_username x, us_groups x, unwrap_or [] (us_setor x), unwrap_or [] (us_email x), unwrap_or [] (us_celular x)]"

definition matches_search :: "(dialect \<Rightarrow> string \<Rightarrow> string \<Rightarrow> bool) \<Rightarrow> dialect \<Rightarrow> string \<Rightarrow> user \<Rightarrow> bool" where
  "matches_search like d search x \<longleftrightarrow> search = []
     \<or> list_ex (\<lambda>col. case d of
           Sqlite \<Rightarrow> like d col (like_pattern (lowercase search)) \<or> like d col (like_pattern (map upper_char search))
         | Postgres \<Rightarrow> like d col (like_pattern search)) (search_columns x)"

record user_filter =
  uf_search :: string
  uf_visible :: "string list option"

definition selected :: "(dialect \<Rightarrow> string \<Rightarrow> string \<Rightarrow> bool) \<Rightarrow> dialect \<Rightarrow> user_filter \<Rightarrow> portal \<Rightarrow> user list" where
  "selected like d flt P =
     filter (\<lambda>x. matches_search like d (trim (uf_search flt)) x \<and> visible_to (uf_visible flt) x) (pt_users P)"

definition count_filtered :: "(dialect \<Rightarrow> string \<Rightarrow> string \<Rightarrow> bool) \<Rightarrow> dialect \<Rightarrow> user_filter \<Rightarrow> portal \<Rightarrow> nat" where
  "count_filtered like d flt P = length (selected like d flt P)"

record user_counts =
  uc_total :: nat
  uc_admins :: nat
  uc_editors :: nat
  uc_viewers :: nat
  uc_must_change :: nat

definition users_counts :: "string list option \<Rightarrow> portal \<Rightarrow> user_counts" where
  "users_counts visible P =
     (let us = filter (visible_to visible) (pt_users P) in
      \<lparr>uc_total = length us, uc_admins = count_if (\<lambda>x. us_role x = ''admin'') us,
       uc_editors = count_if (\<lambda>x. us_role x = ''editor'') us, uc_viewers = count_if (\<lambda>x. us_role x = ''viewer'') us,
       uc_must_change = count_if us_must_change us\<rparr>)"

datatype user_order = CreatedDesc | CreatedAsc | UsernameAsc | UsernameDesc | RoleAsc | RoleDesc

definition user_order_parse :: "string \<Rightarrow> string \<Rightarrow> user_order" where
  "user_order_parse srt dir =
     (let desc = eq_ignore_ascii_case dir ''desc''; s = lowercase srt in
      if s = ''username'' then (if desc then UsernameDesc else UsernameAsc)
      else if s = ''role'' then (if desc then RoleDesc else RoleAsc)
      else if s = ''created'' \<and> eq_ignore_ascii_case dir ''asc'' then CreatedAsc else CreatedDesc)"

definition user_order_query :: "user_order \<Rightarrow> string \<times> string" where
  "user_order_query ord = (case ord of
       CreatedDesc \<Rightarrow> (''created'', ''desc'') | CreatedAsc \<Rightarrow> (''created'', ''asc'')
     | UsernameAsc \<Rightarrow> (''username'', ''asc'') | UsernameDesc \<Rightarrow> (''username'', ''desc'')
     | RoleAsc \<Rightarrow> (''role'', ''asc'') | RoleDesc \<Rightarrow> (''role'', ''desc''))"

definition order_rows :: "user_order \<Rightarrow> user list \<Rightarrow> user list" where
  "order_rows ord us = (case ord of
       CreatedDesc \<Rightarrow> sort_key (\<lambda>x. - us_created_at x) (sort_key us_username us)
     | CreatedAsc \<Rightarrow> sort_key us_created_at (sort_key us_username us)
     | UsernameAsc \<Rightarrow> sort_key us_username us
     | UsernameDesc \<Rightarrow> rev (sort_key us_username us)
     | RoleAsc \<Rightarrow> sort_key us_role (sort_key us_username us)
     | RoleDesc \<Rightarrow> rev (sort_key us_role (rev (sort_key us_username us))))"

definition list_with :: "(dialect \<Rightarrow> string \<Rightarrow> string \<Rightarrow> bool) \<Rightarrow> dialect \<Rightarrow> user_filter \<Rightarrow> user_order \<Rightarrow> (nat \<times> nat) option \<Rightarrow> portal \<Rightarrow> user_row list" where
  "list_with like d flt ord page P =
     (let us = order_rows ord (selected like d flt P)
      in map row_from (case page of None \<Rightarrow> us | Some (limit, offset) \<Rightarrow> take limit (drop offset us)))"

definition list_all_users :: "portal \<Rightarrow> user_row list" where
  "list_all_users P = map row_from (order_rows CreatedDesc (pt_users P))"

definition editors_without_groups :: "portal \<Rightarrow> string list" where
  "editors_without_groups P =
     map us_username (filter (\<lambda>x. parse_groups (us_groups x) = [])
       (order_rows UsernameAsc (filter (\<lambda>x. lowercase (us_role x) = ''editor'') (pt_users P))))"

definition verify_login :: "(string \<Rightarrow> string \<Rightarrow> bool) \<Rightarrow> string \<Rightarrow> string \<Rightarrow> string \<Rightarrow> portal \<Rightarrow> user_row option" where
  "verify_login verify dummy username password P =
     (let row = user_at (normalize_username username) P;
          verified = verify password (case row of Some x \<Rightarrow> us_hash x | None \<Rightarrow> dummy)
      in case row of Some x \<Rightarrow> if verified then Some (row_from x) else None | None \<Rightarrow> None)"

section \<open>Transactions\<close>

definition with_users :: "user list \<Rightarrow> portal \<Rightarrow> portal" where
  "with_users us P = P\<lparr>pt_users := us, pt_mfa := (pt_mfa P)\<lparr>mt_users := map us_username us\<rparr>\<rparr>"

definition user_audit :: "string option \<Rightarrow> string \<Rightarrow> string \<Rightarrow> timestamp \<Rightarrow> portal \<Rightarrow> portal" where
  "user_audit actor action u now P = P\<lparr>pt_mfa := audit actor action u now (pt_mfa P)\<rparr>"

text \<open>\<open>UPDATE users SET \<dots> WHERE username = u AND cond\<close>: whether a row was changed, and the rows.\<close>

definition update_where :: "string \<Rightarrow> (user \<Rightarrow> bool) \<Rightarrow> (user \<Rightarrow> user) \<Rightarrow> user list \<Rightarrow> bool \<times> user list" where
  "update_where u cond upd us =
     (let hit = (\<lambda>x. us_username x = u \<and> cond x) in (list_ex hit us, map (\<lambda>x. if hit x then upd x else x) us))"

definition new_user :: "string \<Rightarrow> timestamp \<Rightarrow> string \<Rightarrow> string \<Rightarrow> role \<Rightarrow> bool \<Rightarrow> string list \<Rightarrow> string option \<Rightarrow> user" where
  "new_user new now u h r must_change groups actor =
     \<lparr>us_id = new, us_username = u, us_hash = h, us_role = role_as_str r, us_must_change = must_change,
      us_groups = join_groups groups, us_created_at = now, us_updated_at = now, us_created_by = actor,
      us_setor = None, us_email = None, us_celular = None\<rparr>"

definition users_create :: "string \<Rightarrow> timestamp \<Rightarrow> string + string \<Rightarrow> string \<Rightarrow> role \<Rightarrow> bool \<Rightarrow> string list \<Rightarrow> string option \<Rightarrow>
    portal \<Rightarrow> string + portal" where
  "users_create new now hashed username r must_change groups actor P =
     (case hashed of Inl e \<Rightarrow> Inl e
      | Inr h \<Rightarrow>
          (let u = normalize_username username in
           if list_ex (\<lambda>x. us_username x = u) (pt_users P) then Inl (''insert user '' @ u)
           else Inr (user_audit actor ''user.create'' u now (with_users (pt_users P @ [new_user new now u h r must_change groups actor]) P))))"

definition commit_update :: "string \<Rightarrow> string \<Rightarrow> timestamp \<Rightarrow> string option \<Rightarrow> string \<Rightarrow> bool \<times> user list \<Rightarrow> portal \<Rightarrow> string + portal" where
  "commit_update refusal action now actor u r P =
     (case r of (False, _) \<Rightarrow> Inl refusal | (True, us) \<Rightarrow> Inr (user_audit actor action u now (with_users us P)))"

definition users_set_password :: "timestamp \<Rightarrow> string + string \<Rightarrow> string \<Rightarrow> bool \<Rightarrow> string option \<Rightarrow> portal \<Rightarrow> string + portal" where
  "users_set_password now hashed username must_change actor P =
     (case hashed of Inl e \<Rightarrow> Inl e
      | Inr h \<Rightarrow>
          (let u = normalize_username username in
           case update_where u (\<lambda>_. True) (\<lambda>x. x\<lparr>us_hash := h, us_must_change := must_change, us_updated_at := now\<rparr>) (pt_users P) of
             (False, _) \<Rightarrow> Inl (''user '' @ u @ '' not found'')
           | (True, us) \<Rightarrow>
               (let P1 = with_users us P
                in Inr (user_audit actor ''user.password'' u now (P1\<lparr>pt_mfa := delete_all_grants u (pt_mfa P1)\<rparr>)))))"

text \<open>The condition that keeps the last administrator.\<close>

definition keeps_an_admin :: "portal \<Rightarrow> role option \<Rightarrow> user \<Rightarrow> bool" where
  "keeps_an_admin P r x \<longleftrightarrow> us_role x \<noteq> ''admin'' \<or> r = Some Admin \<or> count_admins P > 1"

record account_update =
  acc_role :: role
  acc_groups :: "string list"
  acc_setor :: "string option"
  acc_email :: "string option"
  acc_celular :: "string option"

definition update_account :: "timestamp \<Rightarrow> string \<Rightarrow> account_update \<Rightarrow> string option \<Rightarrow> portal \<Rightarrow> string + portal" where
  "update_account now username up actor P =
     (let u = normalize_username username in
      commit_update (''update account '' @ u @ '': no-op (not found, or would strip the last admin)'') ''user.update'' now actor u
        (update_where u (keeps_an_admin P (Some (acc_role up)))
          (\<lambda>x. x\<lparr>us_role := role_as_str (acc_role up), us_groups := join_groups (acc_groups up),
             us_setor := clean_field (acc_setor up), us_email := clean_field (acc_email up),
             us_celular := clean_field (acc_celular up), us_updated_at := now\<rparr>) (pt_users P)) P)"

definition users_set_role :: "timestamp \<Rightarrow> string \<Rightarrow> role \<Rightarrow> string option \<Rightarrow> portal \<Rightarrow> string + portal" where
  "users_set_role now username r actor P =
     (let u = normalize_username username in
      commit_update (''set role for '' @ u @ '': no-op (not found, or would strip the last admin)'') ''user.role'' now actor u
        (update_where u (keeps_an_admin P (Some r)) (\<lambda>x. x\<lparr>us_role := role_as_str r, us_updated_at := now\<rparr>) (pt_users P)) P)"

definition users_set_groups :: "timestamp \<Rightarrow> string \<Rightarrow> string list \<Rightarrow> string option \<Rightarrow> portal \<Rightarrow> string + portal" where
  "users_set_groups now username groups actor P =
     (let u = normalize_username username in
      commit_update (''user '' @ u @ '' not found'') ''user.groups'' now actor u
        (update_where u (\<lambda>_. True) (\<lambda>x. x\<lparr>us_groups := join_groups groups, us_updated_at := now\<rparr>) (pt_users P)) P)"

definition update_profile :: "timestamp \<Rightarrow> string \<Rightarrow> string option \<Rightarrow> string option \<Rightarrow> string option \<Rightarrow> string option \<Rightarrow> portal \<Rightarrow> string + portal" where
  "update_profile now username setor email celular actor P =
     (let u = normalize_username username in
      commit_update (''user '' @ u @ '' not found'') ''user.profile'' now actor u
        (update_where u (\<lambda>_. True) (\<lambda>x. x\<lparr>us_setor := clean_field setor, us_email := clean_field email,
           us_celular := clean_field celular, us_updated_at := now\<rparr>) (pt_users P)) P)"

definition clear_must_change :: "string \<Rightarrow> portal \<Rightarrow> portal" where
  "clear_must_change username P =
     with_users (snd (update_where (normalize_username username) (\<lambda>_. True) (\<lambda>x. x\<lparr>us_must_change := False\<rparr>) (pt_users P))) P"

definition users_delete :: "timestamp \<Rightarrow> string \<Rightarrow> string option \<Rightarrow> portal \<Rightarrow> string + portal" where
  "users_delete now username actor P =
     (let u = normalize_username username; hit = (\<lambda>x. us_username x = u \<and> keeps_an_admin P None x) in
      if \<not> list_ex hit (pt_users P) then Inl (''delete user '' @ u @ '': no-op (not found, or would strip the last admin)'')
      else (let P1 = with_users (filter (\<lambda>x. \<not> hit x) (pt_users P)) P; T = pt_mfa P1
        in Inr (user_audit actor ''user.delete'' u now (P1\<lparr>pt_mfa := T\<lparr>mt_factors := (mt_factors T)(u := None),
          mt_recovery := filter (\<lambda>r. rv_username r \<noteq> u) (mt_recovery T),
          mt_grants := filter (\<lambda>g. gr_username g \<noteq> u) (mt_grants T)\<rparr>\<rparr>))))"

section \<open>Groups as stored\<close>

definition canonical :: "string list \<Rightarrow> bool" where
  "canonical gs \<longleftrightarrow> distinct gs \<and> (\<forall>g \<in> set gs. g \<noteq> [] \<and> trim g = g \<and> CHR '','' \<notin> set g)"

lemma set_foldl_groups:
  "set (foldl (\<lambda>out tok. let t = trim tok in if t \<noteq> [] \<and> t \<notin> set out then out @ [t] else out) out toks)
     = set out \<union> (trim ` set toks - {[]})"
  by (induction toks arbitrary: out) (auto simp: Let_def)

lemma distinct_foldl_groups:
  "distinct out \<Longrightarrow> distinct (foldl (\<lambda>out tok. let t = trim tok in if t \<noteq> [] \<and> t \<notin> set out then out @ [t] else out) out toks)"
  by (induction toks arbitrary: out) (auto simp: Let_def)

lemma set_parse_groups: "set (parse_groups s) = trim ` set (split_on (CHR '','') s) - {[]}"
  by (simp add: parse_groups_def set_foldl_groups)

lemma parse_groups_canonical: "canonical (parse_groups s)"
proof -
  have "CHR '','' \<notin> set (trim t)" if "t \<in> set (split_on (CHR '','') s)" for t
    using split_on_no_sep [OF that] set_trim_matches [of is_ws t] by (auto simp: trim_eq_trim_matches)
  then show ?thesis
    unfolding canonical_def set_parse_groups by (auto simp: parse_groups_def distinct_foldl_groups)
qed

lemma foldl_groups_canonical:
  "distinct (out @ gs) \<Longrightarrow> \<forall>g \<in> set gs. g \<noteq> [] \<and> trim g = g \<Longrightarrow>
     foldl (\<lambda>out tok. let t = trim tok in if t \<noteq> [] \<and> t \<notin> set out then out @ [t] else out) out gs = out @ gs"
  by (induction gs arbitrary: out) (auto simp: Let_def)

lemma parse_groups_join:
  assumes "canonical gs"
  shows "parse_groups (join '','' gs) = gs"
proof (cases "gs = []")
  case True
  then show ?thesis by (simp add: parse_groups_def Let_def)
next
  case False
  with assms have "split_on (CHR '','') (join '','' gs) = gs"
    using split_on_join [of gs "CHR '',''"] by (simp add: canonical_def)
  with assms show ?thesis
    by (simp add: parse_groups_def foldl_groups_canonical canonical_def)
qed

text \<open>
  C0: The groups of an account survive the column they are kept in: what \<open>join_groups\<close> writes is read back by
  \<open>parse_groups\<close> as the trimmed, non-empty groups without repetition, and writing that again changes nothing.
\<close>

theorem groups_roundtrip:
  "parse_groups (join_groups gs) = parse_groups (join '','' gs) \<and> canonical (parse_groups (join_groups gs))
     \<and> join_groups (parse_groups (join_groups gs)) = join_groups gs"
  by (simp add: join_groups_def parse_groups_join parse_groups_canonical)

section \<open>Visibility\<close>

lemma instr_skip: "n \<noteq> [] \<Longrightarrow> hd n \<notin> set x \<Longrightarrow> instr n (x @ s) \<longleftrightarrow> instr n s"
  by (induction x) (auto simp: prefix_def neq_Nil_conv)

lemma prefix_token:
  "CHR '','' \<notin> set g \<Longrightarrow> CHR '','' \<notin> set x \<Longrightarrow> prefix (g @ '','') (x @ '','' @ s) \<longleftrightarrow> g = x"
proof (induction g arbitrary: x)
  case Nil
  then show ?case by (cases x) auto
next
  case (Cons c g)
  then show ?case by (cases x) auto
qed

lemma join_commas: "gs \<noteq> [] \<Longrightarrow> join '','' gs @ '','' = concat (map (\<lambda>x. x @ '','') gs)"
  by (induction "'',''" gs rule: join.induct) auto

lemma instr_tokens:
  "CHR '','' \<notin> set g \<Longrightarrow> \<forall>x \<in> set gs. CHR '','' \<notin> set x \<Longrightarrow> g \<noteq> [] \<Longrightarrow>
     instr ('','' @ g @ '','') ('','' @ concat (map (\<lambda>x. x @ '','') gs)) \<longleftrightarrow> g \<in> set gs"
proof (induction gs)
  case Nil
  then show ?case by (auto simp: prefix_def)
next
  case (Cons x gs)
  have "instr ('','' @ g @ '','') (x @ '','' @ concat (map (\<lambda>x. x @ '','') gs)) \<longleftrightarrow> g \<in> set gs"
    using Cons by (subst instr_skip) auto
  with Cons.prems prefix_token [of g x] show ?case by auto
qed

lemma instr_canonical:
  assumes "canonical gs" and "g \<noteq> []" and "CHR '','' \<notin> set g"
  shows "instr ('','' @ g @ '','') ('','' @ join '','' gs @ '','') \<longleftrightarrow> g \<in> set gs"
proof (cases "gs = []")
  case True
  with assms show ?thesis by (auto simp: prefix_def neq_Nil_conv)
next
  case False
  with assms instr_tokens [of g gs] show ?thesis by (simp add: join_commas canonical_def)
qed

section \<open>Every transaction\<close>

text \<open>A transaction of the accounts, or one of the second factor that is not the work of the accounts.\<close>

inductive portal_step :: "portal \<Rightarrow> portal \<Rightarrow> bool" where
  create: "users_create new now hashed v r mc gs actor P = Inr P' \<Longrightarrow> portal_step P P'"
| password: "users_set_password now hashed v mc actor P = Inr P' \<Longrightarrow> portal_step P P'"
| account: "update_account now v up actor P = Inr P' \<Longrightarrow> portal_step P P'"
| role: "users_set_role now v r actor P = Inr P' \<Longrightarrow> portal_step P P'"
| groups: "users_set_groups now v gs actor P = Inr P' \<Longrightarrow> portal_step P P'"
| profile: "update_profile now v setor email cel actor P = Inr P' \<Longrightarrow> portal_step P P'"
| prompted: "portal_step P (clear_must_change v P)"
| delete: "users_delete now v actor P = Inr P' \<Longrightarrow> portal_step P P'"
| factor: "mt_users T = mt_users (pt_mfa P) \<Longrightarrow> mfa_wf (pt_mfa P) \<longrightarrow> mfa_wf T \<Longrightarrow> portal_step P (P\<lparr>pt_mfa := T\<rparr>)"

definition stored_ok :: "user \<Rightarrow> bool" where
  "stored_ok x \<longleftrightarrow> us_role x \<in> range role_as_str \<and> (\<exists>gs. canonical gs \<and> us_groups x = join '','' gs)"

definition portal_wf :: "portal \<Rightarrow> bool" where
  "portal_wf P \<longleftrightarrow> distinct (map us_username (pt_users P)) \<and> list_all stored_ok (pt_users P)
     \<and> mt_users (pt_mfa P) = map us_username (pt_users P) \<and> mfa_wf (pt_mfa P)"

lemma join_groups_stored: "\<exists>gs'. canonical gs' \<and> join_groups gs = join '','' gs'"
  unfolding join_groups_def using parse_groups_canonical by blast

lemma with_users_simps [simp]:
  "pt_users (with_users us P) = us" "pt_users (user_audit a x u n P) = pt_users P"
  "mt_users (pt_mfa (with_users us P)) = map us_username us"
  "mfa_wf (pt_mfa (user_audit a x u n P)) = mfa_wf (pt_mfa P)"
  "mt_users (pt_mfa (user_audit a x u n P)) = mt_users (pt_mfa P)"
  "mt_factors (pt_mfa (with_users us P)) = mt_factors (pt_mfa P)"
  "mt_grants (pt_mfa (with_users us P)) = mt_grants (pt_mfa P)"
  by (simp_all add: with_users_def user_audit_def)

lemma mfa_wf_more_users: "mfa_wf T \<Longrightarrow> set (mt_users T) \<subseteq> set vs \<Longrightarrow> mfa_wf (T\<lparr>mt_users := vs\<rparr>)"
  by (force simp: mfa_wf_def)

lemma wf_with_users:
  "portal_wf P \<Longrightarrow> set (map us_username (pt_users P)) \<subseteq> set (map us_username us) \<Longrightarrow> mfa_wf (pt_mfa (with_users us P))"
  by (simp add: with_users_def portal_wf_def mfa_wf_more_users)

lemma update_where_names:
  "(\<And>x. us_username (upd x) = us_username x) \<Longrightarrow> map us_username (snd (update_where u c upd us)) = map us_username us"
  by (auto simp: update_where_def Let_def)

lemma wf_update:
  assumes "portal_wf P" and "\<And>x. us_username (upd x) = us_username x" and "\<And>x. stored_ok x \<Longrightarrow> stored_ok (upd x)"
  shows "portal_wf (with_users (snd (update_where u c upd (pt_users P))) P)"
proof -
  have "map us_username (snd (update_where u c upd (pt_users P))) = map us_username (pt_users P)"
    by (rule update_where_names) (rule assms(2))
  moreover from this have "mfa_wf (pt_mfa (with_users (snd (update_where u c upd (pt_users P))) P))"
    by (intro wf_with_users assms(1)) simp
  moreover have "list_all stored_ok (snd (update_where u c upd (pt_users P)))"
    using assms(1,3) by (auto simp: portal_wf_def list_all_iff update_where_def Let_def)
  ultimately show ?thesis using assms(1) by (simp add: portal_wf_def)
qed

lemma commit_update_Inr:
  "commit_update refusal x now actor u (update_where u c upd (pt_users P)) P = Inr P' \<longleftrightarrow>
     (\<exists>y \<in> set (pt_users P). us_username y = u \<and> c y) \<and>
     P' = user_audit actor x u now (with_users (snd (update_where u c upd (pt_users P))) P)"
  by (auto simp: commit_update_def update_where_def Let_def list_ex_iff split: bool.splits)

lemma wf_user_audit [simp]: "portal_wf (user_audit a x u n P) \<longleftrightarrow> portal_wf P"
  by (simp add: portal_wf_def)

lemma new_user_simps [simp]:
  "us_username (new_user new now u h r mc gs actor) = u" "us_role (new_user new now u h r mc gs actor) = role_as_str r"
  "us_groups (new_user new now u h r mc gs actor) = join_groups gs"
  by (simp_all add: new_user_def)

lemma users_create_Inr:
  "users_create new now hashed v r mc gs actor P = Inr P' \<longleftrightarrow>
     (\<exists>h. hashed = Inr h \<and> (\<forall>y \<in> set (pt_users P). us_username y \<noteq> normalize_username v)
       \<and> P' = user_audit actor ''user.create'' (normalize_username v) now
          (with_users (pt_users P @ [new_user new now (normalize_username v) h r mc gs actor]) P))"
  by (auto simp: users_create_def Let_def list_ex_iff split: sum.splits)

lemma set_password_Inr:
  "users_set_password now hashed v mc actor P = Inr P' \<Longrightarrow>
     \<exists>h. hashed = Inr h \<and> (\<exists>y \<in> set (pt_users P). us_username y = normalize_username v) \<and>
     (let u = normalize_username v;
          P1 = with_users (snd (update_where u (\<lambda>_. True) (\<lambda>x. x\<lparr>us_hash := h, us_must_change := mc, us_updated_at := now\<rparr>) (pt_users P))) P
      in P' = user_audit actor ''user.password'' u now (P1\<lparr>pt_mfa := delete_all_grants u (pt_mfa P1)\<rparr>))"
  by (auto simp: users_set_password_def update_where_def Let_def list_ex_iff split: sum.splits bool.splits)

lemma mfa_wf_forget:
  assumes "mfa_wf T" and "set (mt_users T) - {u} \<subseteq> set vs"
  shows "mfa_wf (T\<lparr>mt_users := vs, mt_factors := (mt_factors T)(u := None), mt_recovery := R,
    mt_grants := filter (\<lambda>g. gr_username g \<noteq> u) (mt_grants T)\<rparr>)"
  using assms by (force simp: mfa_wf_def distinct_map_filter_browser)

lemma portal_step_wf: "portal_step P P' \<Longrightarrow> portal_wf P \<Longrightarrow> portal_wf P'"
proof (induction rule: portal_step.induct)
  case (create new now hashed v r mc gs actor P P')
  from create(1) obtain h where new: "\<forall>y \<in> set (pt_users P). us_username y \<noteq> normalize_username v"
    and P': "P' = user_audit actor ''user.create'' (normalize_username v) now
      (with_users (pt_users P @ [new_user new now (normalize_username v) h r mc gs actor]) P)" (is "_ = user_audit _ _ _ _ ?P1")
    by (auto simp: users_create_Inr)
  have "mfa_wf (pt_mfa ?P1)" by (rule wf_with_users [OF create(2)]) auto
  with create(2) new join_groups_stored show ?case unfolding P' by (auto simp: portal_wf_def stored_ok_def)
next
  case (password now hashed v mc actor P P')
  let ?u = "normalize_username v"
  from set_password_Inr [OF password(1)] obtain h where
    P': "P' = user_audit actor ''user.password'' ?u now
      ((with_users (snd (update_where ?u (\<lambda>_. True) (\<lambda>x. x\<lparr>us_hash := h, us_must_change := mc, us_updated_at := now\<rparr>) (pt_users P))) P)
        \<lparr>pt_mfa := delete_all_grants ?u (pt_mfa (with_users (snd (update_where ?u (\<lambda>_. True) (\<lambda>x. x\<lparr>us_hash := h, us_must_change := mc, us_updated_at := now\<rparr>) (pt_users P))) P))\<rparr>)"
    (is "_ = user_audit _ _ _ _ (?P1\<lparr>pt_mfa := _\<rparr>)") by (auto simp: Let_def)
  have "portal_wf ?P1" by (rule wf_update [OF password(2)]) (simp_all add: stored_ok_def)
  then show ?case unfolding P' by (simp add: portal_wf_def wf_delete_all)
next
  case (account now v up actor P P')
  with join_groups_stored [of "acc_groups up"] show ?case
    by (auto simp: update_account_def Let_def commit_update_Inr stored_ok_def intro!: wf_update)
next
  case (role now v r actor P P')
  then show ?case by (auto simp: users_set_role_def Let_def commit_update_Inr stored_ok_def intro!: wf_update)
next
  case (groups now v gs actor P P')
  with join_groups_stored [of gs] show ?case
    by (auto simp: users_set_groups_def Let_def commit_update_Inr stored_ok_def intro!: wf_update)
next
  case (profile now v setor email cel actor P P')
  then show ?case by (auto simp: update_profile_def Let_def commit_update_Inr stored_ok_def intro!: wf_update)
next
  case (prompted P v)
  then show ?case by (auto simp: clear_must_change_def stored_ok_def intro!: wf_update)
next
  case (delete now v actor P P')
  let ?u = "normalize_username v"
  let ?us = "filter (\<lambda>x. \<not> (us_username x = ?u \<and> keeps_an_admin P None x)) (pt_users P)"
  from delete(2) have wf: "mfa_wf (pt_mfa P)" "mt_users (pt_mfa P) = map us_username (pt_users P)" by (simp_all add: portal_wf_def)
  have "set (mt_users (pt_mfa P)) - {?u} \<subseteq> set (map us_username ?us)" unfolding wf(2) by auto
  from mfa_wf_forget [OF wf(1) this] delete show ?case
    by (auto simp: users_delete_def Let_def portal_wf_def distinct_map_filter list_all_iff with_users_def split: if_splits)
next
  case (factor T P)
  then show ?case by (auto simp: portal_wf_def)
qed

section \<open>Properties: the last administrator\<close>

abbreviation is_admin_row :: "user \<Rightarrow> bool" where
  "is_admin_row x \<equiv> us_role x = ''admin''"

lemma admins_after_update:
  assumes "distinct (map us_username us)"
  shows "count_if is_admin_row us \<le> Suc (count_if is_admin_row (snd (update_where u c upd us)))"
proof -
  have other: "map (\<lambda>x. if us_username x = v \<and> c x then upd x else x) us = us" if "v \<notin> us_username ` set us" for v us
    using that by (auto intro!: map_idI)
  from assms show ?thesis
    by (induction us) (auto simp: update_where_def Let_def other)
qed

lemma admins_kept:
  "\<forall>x \<in> set us. us_username x = u \<and> c x \<and> is_admin_row x \<longrightarrow> is_admin_row (upd x) \<Longrightarrow>
     count_if is_admin_row us \<le> count_if is_admin_row (snd (update_where u c upd us))"
  by (induction us) (auto simp: update_where_def Let_def)

lemma admin_survives_update:
  assumes "portal_wf P" and "any_admin_exists P"
    and "\<And>x. x \<in> set (pt_users P) \<Longrightarrow> us_username x = u \<Longrightarrow> c x \<Longrightarrow> is_admin_row x \<Longrightarrow> is_admin_row (upd x) \<or> count_admins P > 1"
  shows "any_admin_exists (with_users (snd (update_where u c upd (pt_users P))) P)"
proof (cases "count_admins P > 1")
  case True
  with admins_after_update [of "pt_users P" u c upd] assms(1) show ?thesis
    by (simp add: any_admin_exists_def count_admins_def portal_wf_def)
next
  case False
  with assms(2,3) admins_kept [of "pt_users P" u c upd] show ?thesis
    by (fastforce simp: any_admin_exists_def count_admins_def)
qed

lemma admin_audit [simp]: "any_admin_exists (user_audit a x u n P) = any_admin_exists P"
  by (simp add: any_admin_exists_def count_admins_def)

lemma admins_after_delete:
  "distinct (map us_username us) \<Longrightarrow>
     count_if is_admin_row us \<le> Suc (count_if is_admin_row (filter (\<lambda>x. \<not> (us_username x = u \<and> c x)) us))"
proof (induction us)
  case (Cons x us)
  have "filter (\<lambda>x. us_username x = v \<longrightarrow> \<not> c x) us = us" if "v \<notin> us_username ` set us" for v
    using that by (auto intro!: filter_True)
  with Cons show ?case by auto
qed simp

lemma portal_step_admin: "portal_step P P' \<Longrightarrow> portal_wf P \<Longrightarrow> any_admin_exists P \<Longrightarrow> any_admin_exists P'"
proof (induction rule: portal_step.induct)
  case (create new now hashed v r mc gs actor P P')
  then show ?case by (auto simp: users_create_Inr any_admin_exists_def count_admins_def)
next
  case (password now hashed v mc actor P P')
  have pm: "any_admin_exists (Q\<lparr>pt_mfa := T\<rparr>) = any_admin_exists Q" for Q T by (simp add: any_admin_exists_def count_admins_def)
  from set_password_Inr [OF password(1)] password(2,3) show ?case
    by (auto simp: Let_def pm intro!: admin_survives_update)
next
  case (delete now v actor P P')
  let ?hit = "\<lambda>x. us_username x = normalize_username v \<and> keeps_an_admin P None x"
  from delete(1) have P': "pt_users P' = filter (\<lambda>x. \<not> ?hit x) (pt_users P)"
    by (auto simp: users_delete_def Let_def with_users_def user_audit_def split: if_splits)
  show ?case
  proof (cases "count_admins P > 1")
    case True
    with admins_after_delete [of "pt_users P" "normalize_username v" "keeps_an_admin P None"] delete(2) P' show ?thesis
      by (simp add: any_admin_exists_def count_admins_def portal_wf_def)
  next
    case False
    then have "filter is_admin_row (pt_users P') = filter is_admin_row (pt_users P)"
      unfolding P' filter_filter by (intro filter_cong) (auto simp: keeps_an_admin_def)
    with delete(3) show ?thesis by (simp add: any_admin_exists_def count_admins_def count_if_def)
  qed
next
  case (factor T P)
  then show ?case by (simp add: any_admin_exists_def count_admins_def)
qed (auto simp: update_account_def users_set_role_def users_set_groups_def update_profile_def clear_must_change_def
    Let_def commit_update_Inr keeps_an_admin_def role_as_str_def split: role.splits intro!: admin_survives_update)

text \<open>
  C5: The portal never loses its last administrator, and its tables stay well formed. From well-formed tables
  with an administrator, any sequence of transactions (accounts created, renamed in role or groups, given a new
  password or profile, deleted, and everything the second factor does) leaves an account whose role is
  administrator, user names distinct, roles and groups in the form they are written in, and the rows of the
  second factor with their users.
\<close>

theorem last_admin_survives:
  assumes "portal_step\<^sup>*\<^sup>* P P'" and "portal_wf P" and "any_admin_exists P"
  shows "any_admin_exists P' \<and> portal_wf P'"
  using assms by (induction rule: rtranclp_induct) (auto intro: portal_step_wf portal_step_admin)

definition demo_portal :: portal where
  "demo_portal = \<lparr>pt_users = [new_user ''1'' 0 ''ann'' ''h'' Admin False [] None, new_user ''2'' 0 ''bob'' ''h'' Editor False [''ops''] None],
     pt_mfa = \<lparr>mt_users = [''ann'', ''bob''], mt_factors = Map.empty, mt_recovery = [], mt_grants = [], mt_audit = []\<rparr>\<rparr>"

lemma demo_portal_wf: "portal_wf demo_portal"
  using join_groups_stored by (auto simp: portal_wf_def demo_portal_def stored_ok_def mfa_wf_def)

lemma last_admin_survives_witness:
  "any_admin_exists (clear_must_change ''bob'' demo_portal) \<and> users_delete 5 ''ann'' None demo_portal
     = Inl ''delete user ann: no-op (not found, or would strip the last admin)''"
proof -
  have "portal_step\<^sup>*\<^sup>* demo_portal (clear_must_change ''bob'' demo_portal)" by (blast intro: portal_step.prompted)
  moreover have "any_admin_exists demo_portal"
    by (simp add: any_admin_exists_def count_admins_def demo_portal_def role_as_str_def)
  ultimately show ?thesis
    using last_admin_survives [of demo_portal "clear_must_change ''bob'' demo_portal"] demo_portal_wf
    by (simp add: users_delete_def Let_def demo_portal_def keeps_an_admin_def count_admins_def role_as_str_def)
qed

text \<open>
  C38: A password change and a deletion act on the second factor as the two transactions of \<open>Mfa_Store\<close>: when
  they succeed, the new password revokes every device grant and moves the epoch on, and the deletion removes
  the factor, the codes and the grants, in the same transaction.
\<close>

theorem accounts_drive_second_factor:
  assumes "portal_wf P"
  shows "(\<forall>P'. users_set_password now hashed v mc (Some a) P = Inr P' \<longrightarrow> password_changed now v a (pt_mfa P) = Inr (pt_mfa P'))
    \<and> (\<forall>P'. users_delete now v (Some a) P = Inr P' \<longrightarrow> user_deleted now v a (pt_mfa P) = Inr (pt_mfa P'))"
proof (intro conjI allI impI)
  let ?u = "normalize_username v"
  have sync: "mt_users (pt_mfa P) = map us_username (pt_users P)" using assms by (simp add: portal_wf_def)
  then have same: "(pt_mfa P)\<lparr>mt_users := map us_username (pt_users P)\<rparr> = pt_mfa P" by simp
  fix P' assume "users_set_password now hashed v mc (Some a) P = Inr P'"
  from set_password_Inr [OF this, unfolded Let_def] obtain h y where y: "y \<in> set (pt_users P)" "us_username y = ?u"
    and P': "P' = user_audit (Some a) ''user.password'' ?u now
      ((with_users (snd (update_where ?u (\<lambda>_. True) (\<lambda>x. x\<lparr>us_hash := h, us_must_change := mc, us_updated_at := now\<rparr>) (pt_users P))) P)
        \<lparr>pt_mfa := delete_all_grants ?u (pt_mfa (with_users (snd (update_where ?u (\<lambda>_. True) (\<lambda>x. x\<lparr>us_hash := h, us_must_change := mc, us_updated_at := now\<rparr>) (pt_users P))) P))\<rparr>)"
    by blast
  have "?u \<in> set (mt_users (pt_mfa P))" using imageI [OF y(1), of us_username] y(2) by (simp add: sync)
  moreover have "pt_mfa (with_users (snd (update_where ?u (\<lambda>_. True) (\<lambda>x. x\<lparr>us_hash := h, us_must_change := mc, us_updated_at := now\<rparr>) (pt_users P))) P) = pt_mfa P"
    using update_where_names [of "\<lambda>x. x\<lparr>us_hash := h, us_must_change := mc, us_updated_at := now\<rparr>" ?u "\<lambda>_. True" "pt_users P"]
    by (simp add: with_users_def same)
  ultimately show "password_changed now v a (pt_mfa P) = Inr (pt_mfa P')"
    unfolding P' by (simp add: password_changed_def Let_def user_audit_def)
next
  let ?u = "normalize_username v"
  fix P' assume d: "users_delete now v (Some a) P = Inr P'"
  from assms have dist: "distinct (map us_username (pt_users P))" and sync: "mt_users (pt_mfa P) = map us_username (pt_users P)"
    by (simp_all add: portal_wf_def)
  from d obtain y where y: "y \<in> set (pt_users P)" "us_username y = ?u" "keeps_an_admin P None y"
    by (auto simp: users_delete_def Let_def list_ex_iff split: if_splits)
  have "x = y" if "x \<in> set (pt_users P)" "us_username x = ?u" for x
    using dist that y by (auto simp: distinct_map inj_on_def)
  with y(3) have "filter (\<lambda>x. us_username x = ?u \<longrightarrow> \<not> keeps_an_admin P None x) (pt_users P) = filter (\<lambda>x. us_username x \<noteq> ?u) (pt_users P)"
    by (intro filter_cong) auto
  then have "map us_username (filter (\<lambda>x. us_username x = ?u \<longrightarrow> \<not> keeps_an_admin P None x) (pt_users P)) = filter (\<lambda>w. w \<noteq> ?u) (mt_users (pt_mfa P))"
    by (simp add: sync filter_map o_def)
  moreover have "?u \<in> us_username ` set (pt_users P)" using imageI [OF y(1), of us_username] y(2) by simp
  ultimately show "user_deleted now v a (pt_mfa P) = Inr (pt_mfa P')"
    using d by (auto simp: users_delete_def user_deleted_def Let_def with_users_def user_audit_def sync split: if_splits)
qed

lemma accounts_drive_second_factor_witness:
  "\<exists>P'. users_set_password 9 (Inr ''new'') ''bob'' False (Some ''ann'') demo_portal = Inr P'
     \<and> password_changed 9 ''bob'' ''ann'' (pt_mfa demo_portal) = Inr (pt_mfa P')"
proof -
  have n: "normalize_username ''bob'' = ''bob''" unfolding normalize_username_def by code_simp
  then have "\<exists>P'. users_set_password 9 (Inr ''new'') ''bob'' False (Some ''ann'') demo_portal = Inr P'"
    by (simp add: users_set_password_def update_where_def demo_portal_def Let_def)
  then show ?thesis using accounts_drive_second_factor [OF demo_portal_wf, of 9 "Inr ''new''" "''bob''" False "''ann''"] by blast
qed

end
