(* ===== verification/Identity_Cache.thy ===== *)
theory Identity_Cache
  imports User_Store
begin

text \<open>
  The identities the proxy keeps of its users (\<open>IdentityCache\<close> of \<open>crates/ruscker-admin/src/lib.rs\<close> and
  \<open>resolve_identity\<close> of \<open>routes/proxy.rs\<close>): a table with a generation, filled by requests that may be
  overtaken by a change of the accounts. A fill is two steps around the query of the database, so that the
  interleavings of fills, changes and invalidations are runs.
\<close>

section \<open>The cache\<close>

record cached_identity =
  ci_groups :: "string list"
  ci_email :: "string option"
  ci_setor :: "string option"

definition no_identity :: cached_identity where
  "no_identity = \<lparr>ci_groups = [], ci_email = None, ci_setor = None\<rparr>"

record identity_cache =
  ic_map :: "string \<rightharpoonup> u64 \<times> nat \<times> cached_identity"
  ic_generation :: u64

definition ic_empty :: identity_cache where
  "ic_empty = \<lparr>ic_map = Map.empty, ic_generation = 0\<rparr>"

definition ic_get :: "nat \<Rightarrow> nat \<Rightarrow> string \<Rightarrow> identity_cache \<Rightarrow> cached_identity option" where
  "ic_get now ttl username c =
     (case ic_map c username of None \<Rightarrow> None
      | Some (g, filled_at, i) \<Rightarrow> if g = ic_generation c \<and> now - filled_at < ttl then Some i else None)"

definition ic_store :: "nat \<Rightarrow> u64 \<Rightarrow> string \<Rightarrow> cached_identity \<Rightarrow> identity_cache \<Rightarrow> identity_cache" where
  "ic_store now g username i c = c\<lparr>ic_map := (ic_map c)(username \<mapsto> (g, now, i))\<rparr>"

definition ic_invalidate :: "identity_cache \<Rightarrow> identity_cache" where
  "ic_invalidate c = c\<lparr>ic_generation := ic_generation c + 1, ic_map := Map.empty\<rparr>"

definition identity_cache_ttl :: nat where
  "identity_cache_ttl = secs 30"

section \<open>Resolving an identity\<close>

text \<open>
  What the query answers, when there is a database: an identity to keep, or (an error) the empty identity that
  is not kept.
\<close>

definition identity_of :: "portal option \<Rightarrow> string \<Rightarrow> cached_identity" where
  "identity_of db username =
     (case db of None \<Rightarrow> no_identity
      | Some P \<Rightarrow> (case users_fetch username P of None \<Rightarrow> no_identity
          | Some u \<Rightarrow> \<lparr>ci_groups = ur_groups u, ci_email = ur_email u, ci_setor = ur_setor u\<rparr>))"

text \<open>The request reads the cache and notes the generation; then queries; then stores what it read.\<close>

definition resolve_start :: "nat \<Rightarrow> string \<Rightarrow> identity_cache \<Rightarrow> cached_identity + u64" where
  "resolve_start now username c =
     (case ic_get now identity_cache_ttl username c of Some i \<Rightarrow> Inl i | None \<Rightarrow> Inr (ic_generation c))"

definition resolve_finish :: "nat \<Rightarrow> u64 \<Rightarrow> string \<Rightarrow> cached_identity option \<Rightarrow> identity_cache \<Rightarrow> cached_identity \<times> identity_cache" where
  "resolve_finish now g username answer c =
     (case answer of None \<Rightarrow> (no_identity, c) | Some i \<Rightarrow> (i, ic_store now g username i c))"

section \<open>Interleavings\<close>

record fill =
  fl_user :: string
  fl_generation :: u64
  fl_answer :: "cached_identity option"

record id_world =
  iw_db :: "portal option"
  iw_cache :: identity_cache
  iw_fills :: "nat \<rightharpoonup> fill"

datatype id_event =
    Begin nat string
  | Query nat
  | QueryFails nat
  | Land nat
  | Change "portal option"
  | Invalidate

fun id_step :: "nat \<Rightarrow> id_event \<Rightarrow> id_world \<Rightarrow> id_world" where
  "id_step now (Begin k u) s =
     (case resolve_start now u (iw_cache s) of Inl _ \<Rightarrow> s
      | Inr g \<Rightarrow> s\<lparr>iw_fills := (iw_fills s)(k \<mapsto> \<lparr>fl_user = u, fl_generation = g, fl_answer = None\<rparr>)\<rparr>)"
| "id_step now (Query k) s =
     (case iw_fills s k of None \<Rightarrow> s
      | Some f \<Rightarrow> s\<lparr>iw_fills := (iw_fills s)(k \<mapsto> f\<lparr>fl_answer := Some (identity_of (iw_db s) (fl_user f))\<rparr>)\<rparr>)"
| "id_step now (QueryFails k) s =
     (case iw_fills s k of None \<Rightarrow> s | Some f \<Rightarrow> s\<lparr>iw_fills := (iw_fills s)(k \<mapsto> f\<lparr>fl_answer := None\<rparr>)\<rparr>)"
| "id_step now (Land k) s =
     (case iw_fills s k of None \<Rightarrow> s
      | Some f \<Rightarrow> s\<lparr>iw_cache := snd (resolve_finish now (fl_generation f) (fl_user f) (fl_answer f) (iw_cache s)),
          iw_fills := (iw_fills s)(k := None)\<rparr>)"
| "id_step now (Change db) s = s\<lparr>iw_db := db\<rparr>"
| "id_step now Invalidate s = s\<lparr>iw_cache := ic_invalidate (iw_cache s)\<rparr>"

definition id_run :: "(nat \<times> id_event) list \<Rightarrow> id_world \<Rightarrow> id_world" where
  "id_run es s = fold (\<lambda>(now, e). id_step now e) es s"

text \<open>The databases there were since the last invalidation, the present one included.\<close>

fun since_invalidation :: "portal option list \<Rightarrow> (nat \<times> id_event) list \<Rightarrow> id_world \<Rightarrow> portal option list" where
  "since_invalidation seen [] s = seen"
| "since_invalidation seen ((now, e) # es) s =
     (let s' = id_step now e s in since_invalidation (if e = Invalidate then [iw_db s'] else iw_db s' # seen) es s')"

section \<open>Properties\<close>

text \<open>
  \<open>n\<close> invalidations so far; what is kept or on its way and carries the present generation was read from
  one of the databases since the last of them.
\<close>

definition known :: "nat \<Rightarrow> portal option list \<Rightarrow> u64 \<Rightarrow> string \<Rightarrow> cached_identity option \<Rightarrow> bool" where
  "known n seen g u answer \<longleftrightarrow>
     (\<exists>k \<le> n. g = of_nat k \<and> (k = n \<longrightarrow> (\<forall>i. answer = Some i \<longrightarrow> (\<exists>db \<in> set seen. i = identity_of db u))))"

lemma known_seen: "known n seen g u answer \<Longrightarrow> known n (db # seen) g u answer"
  by (auto simp: known_def)

lemma known_older: "known n seen g u answer \<Longrightarrow> known (Suc n) seen' g u answer'"
  unfolding known_def by (metis le_SucI not_less_eq_eq order_refl)

lemma known_none: "known n seen g u answer \<Longrightarrow> known n seen g u' None"
  by (auto simp: known_def)

lemma known_queried: "known n seen g u answer \<Longrightarrow> db \<in> set seen \<Longrightarrow> known n seen g u (Some (identity_of db u))"
  by (auto simp: known_def)

lemma known_now: "known n seen (of_nat n) u None"
  by (auto simp: known_def)

definition id_inv :: "nat \<Rightarrow> portal option list \<Rightarrow> id_world \<Rightarrow> bool" where
  "id_inv n seen s \<longleftrightarrow> ic_generation (iw_cache s) = of_nat n \<and> iw_db s \<in> set seen
     \<and> (\<forall>u g t i. ic_map (iw_cache s) u = Some (g, t, i) \<longrightarrow> known n seen g u (Some i))
     \<and> (\<forall>k f. iw_fills s k = Some f \<longrightarrow> known n seen (fl_generation f) (fl_user f) (fl_answer f))"

lemma id_inv_seen: "id_inv n seen s \<Longrightarrow> id_inv n (db # seen) s"
  by (auto simp: id_inv_def intro: known_seen)

lemma id_inv_change: "id_inv n seen s \<Longrightarrow> id_inv n (db # seen) (s\<lparr>iw_db := db\<rparr>)"
  by (auto simp: id_inv_def intro: known_seen)

lemma id_inv_fill:
  "id_inv n seen s \<Longrightarrow> known n seen (fl_generation f) (fl_user f) (fl_answer f) \<Longrightarrow> id_inv n seen (s\<lparr>iw_fills := (iw_fills s)(k \<mapsto> f)\<rparr>)"
  by (auto simp: id_inv_def)

lemma id_inv_land:
  "id_inv n seen s \<Longrightarrow> iw_fills s k = Some f \<Longrightarrow>
     id_inv n seen (s\<lparr>iw_cache := snd (resolve_finish now (fl_generation f) (fl_user f) (fl_answer f) (iw_cache s)),
       iw_fills := (iw_fills s)(k := None)\<rparr>)"
  by (auto simp: id_inv_def resolve_finish_def ic_store_def split: option.splits; metis)

lemma id_inv_invalidate:
  "id_inv n seen s \<Longrightarrow> id_inv (Suc n) [iw_db s] (s\<lparr>iw_cache := ic_invalidate (iw_cache s)\<rparr>)"
  unfolding id_inv_def ic_invalidate_def using known_older by auto blast

lemma id_step_keeps:
  assumes "id_inv n seen s" and "e \<noteq> Invalidate" and "\<And>db. e \<noteq> Change db"
  shows "id_inv n seen (id_step now e s)"
proof (cases e)
  case (Begin k u)
  with assms known_now [of n seen u] show ?thesis
    by (auto simp: resolve_start_def id_inv_def split: option.splits)
next
  case (Query k)
  with assms show ?thesis
    by (auto simp: id_inv_def intro!: id_inv_fill known_queried split: option.splits)
next
  case (QueryFails k)
  with assms known_none show ?thesis
    by (auto simp: id_inv_def intro!: id_inv_fill split: option.splits) blast
next
  case (Land k)
  with assms id_inv_land show ?thesis by (auto split: option.splits)
qed (use assms in auto)

lemma id_step_inv:
  assumes "id_inv n seen s"
  shows "id_inv (if e = Invalidate then Suc n else n)
    (if e = Invalidate then [iw_db (id_step now e s)] else iw_db (id_step now e s) # seen) (id_step now e s)"
proof (cases "e = Invalidate \<or> (\<exists>db. e = Change db)")
  case True
  with assms show ?thesis by (auto intro: id_inv_invalidate id_inv_change)
next
  case False
  with id_step_keeps [OF assms] show ?thesis by (auto intro: id_inv_seen)
qed

lemma id_run_inv:
  "id_inv n seen s \<Longrightarrow> id_inv (n + count_if (\<lambda>e. snd e = Invalidate) es) (since_invalidation seen es s) (id_run es s)"
proof (induction es arbitrary: n seen s)
  case Nil
  then show ?case by (simp add: id_run_def)
next
  case (Cons te es)
  obtain now e where te: "te = (now, e)" by (cases te)
  from Cons.IH [OF id_step_inv [OF Cons.prems, of e now]] show ?case
    by (cases "e = Invalidate") (simp_all add: te id_run_def Let_def)
qed

definition id_start :: "portal option \<Rightarrow> id_world" where
  "id_start db = \<lparr>iw_db = db, iw_cache = ic_empty, iw_fills = Map.empty\<rparr>"

text \<open>
  C33: A revoked membership is not served again once the change has invalidated the cache, however fills and
  changes interleave. From an empty cache and after fewer than two to the sixty-four invalidations, an identity the
  cache serves is what the database held at some moment since the last invalidation: a fill that queried
  before it and lands after it is never read.
\<close>

theorem revocation_reaches_proxy:
  assumes "count_if (\<lambda>e. snd e = Invalidate) es < 2 ^ 64"
    and "ic_get now ttl u (iw_cache (id_run es (id_start db))) = Some i"
  shows "\<exists>db' \<in> set (since_invalidation [db] es (id_start db)). i = identity_of db' u"
proof -
  let ?n = "count_if (\<lambda>e. snd e = Invalidate) es"
  have "id_inv 0 [db] (id_start db)" by (simp add: id_inv_def id_start_def ic_empty_def)
  from id_run_inv [OF this, of es] have inv: "id_inv ?n (since_invalidation [db] es (id_start db)) (id_run es (id_start db))"
    by simp
  with assms(2) have "known ?n (since_invalidation [db] es (id_start db)) (of_nat ?n) u (Some i)"
    by (auto simp: ic_get_def id_inv_def split: option.splits if_splits)
  then obtain k where k: "k \<le> ?n" "(of_nat ?n :: u64) = of_nat k"
    and k': "k = ?n \<longrightarrow> (\<exists>db' \<in> set (since_invalidation [db] es (id_start db)). i = identity_of db' u)"
    by (auto simp: known_def)
  from k(2) have "unat (of_nat ?n :: u64) = unat (of_nat k :: u64)" by simp
  with k(1) assms(1) have "k = ?n" by (simp add: unat_of_nat take_bit_eq_mod)
  with k' show ?thesis by simp
qed

text \<open>A fill that read ``bob'' before his change lands after the invalidation; it is in the table, and not served.\<close>

definition overtaken_fill :: "(nat \<times> id_event) list" where
  "overtaken_fill = [(0, Begin 0 ''bob''), (1, Query 0), (2, Change None), (3, Invalidate), (4, Land 0), (5, Begin 1 ''bob''), (6, Query 1), (7, Land 1)]"

lemma revocation_reaches_proxy_witness:
  "ic_get 8 identity_cache_ttl ''bob'' (iw_cache (id_run overtaken_fill (id_start (Some demo_portal)))) = Some no_identity
   \<and> ic_get 4 identity_cache_ttl ''bob'' (iw_cache (id_run (take 5 overtaken_fill) (id_start (Some demo_portal)))) = None"
proof -
  have t: "secs 30 > 8" by (simp add: secs_def)
  have "ic_get 8 identity_cache_ttl ''bob'' (iw_cache (id_run overtaken_fill (id_start (Some demo_portal)))) = Some no_identity"
    using t by (simp add: overtaken_fill_def id_run_def id_start_def resolve_start_def resolve_finish_def ic_get_def
        ic_store_def ic_invalidate_def ic_empty_def identity_of_def identity_cache_ttl_def)
  moreover from revocation_reaches_proxy [OF _ this]
  have "\<exists>db' \<in> set (since_invalidation [Some demo_portal] overtaken_fill (id_start (Some demo_portal))). no_identity = identity_of db' ''bob''"
    by (simp add: overtaken_fill_def)
  moreover have "ic_get 4 identity_cache_ttl ''bob'' (iw_cache (id_run (take 5 overtaken_fill) (id_start (Some demo_portal)))) = None"
    by (simp add: overtaken_fill_def id_run_def id_start_def resolve_start_def resolve_finish_def ic_get_def
        ic_store_def ic_invalidate_def ic_empty_def)
  ultimately show ?thesis by simp
qed

end
