(* ===== verification/Spec_Store.thy ===== *)
theory Spec_Store
  imports Mfa Spawn_Inputs "HOL-Library.List_Lexorder" "HOL-Library.Char_ord"
begin

text \<open>
  The catalogue of apps (\<open>crates/ruscker-admin/src/db/specs.rs\<close>, \<open>catalog.rs\<close> and the cached look-up of
  \<open>routes/proxy.rs\<close>): the table of specs, its history of versions, the images it has named and the audit log.
  A transaction is one function that returns the tables it commits, or an error and nothing. The two dialects of a
  query do the same; they are one definition. The JSON of a spec is a parameter, a \<open>codec\<close>.
\<close>

section \<open>Tables\<close>

record codec =
  cd_encode :: "spec \<Rightarrow> string option"
  cd_decode :: "string \<Rightarrow> spec option"

record spec_row =
  rw_id :: string
  rw_display_name :: "string option"
  rw_description :: "string option"
  rw_kind :: string
  rw_image :: "string option"
  rw_json :: string
  rw_state :: string
  rw_created_at :: timestamp
  rw_updated_at :: timestamp
  rw_version :: nat
  rw_featured :: bool

record version_row =
  ve_spec :: string
  ve_version :: nat
  ve_json :: string
  ve_changed_at :: timestamp
  ve_changed_by :: "string option"

record audit_entry =
  ae_actor :: "string option"
  ae_action :: string
  ae_target :: "string option"
  ae_at :: timestamp

record catalog =
  ct_specs :: "spec_row list"
  ct_versions :: "version_row list"
  ct_images :: "(string \<times> timestamp) list"
  ct_audit :: "audit_entry list"

definition empty_catalog :: catalog where
  "empty_catalog = \<lparr>ct_specs = [], ct_versions = [], ct_images = [], ct_audit = []\<rparr>"

definition row_at :: "string \<Rightarrow> catalog \<Rightarrow> spec_row option" where
  "row_at i C = List.find (\<lambda>r. rw_id r = i) (ct_specs C)"

definition kind_str :: "spec \<Rightarrow> string" where
  "kind_str sp = (case spec_kind_of sp of
     Shiny \<Rightarrow> ''shiny'' | InteractiveApp \<Rightarrow> ''interactive'' | Api \<Rightarrow> ''api'' | External \<Rightarrow> ''external'')"

definition state_str :: "spec \<Rightarrow> string" where
  "state_str sp = (if tp_is_active (sp_template_properties sp) then ''active'' else ''inactive'')"

section \<open>Writing one spec\<close>

datatype upsert_outcome = Created | Updated | Unchanged

definition record_image :: "timestamp \<Rightarrow> spec \<Rightarrow> catalog \<Rightarrow> catalog" where
  "record_image now sp C =
     (case sp_container_image sp of None \<Rightarrow> C
      | Some raw \<Rightarrow> let img = trim raw in
          if img = [] \<or> img \<in> fst ` set (ct_images C) then C else C\<lparr>ct_images := ct_images C @ [(img, now)]\<rparr>)"

definition add_version :: "string \<Rightarrow> nat \<Rightarrow> string \<Rightarrow> timestamp \<Rightarrow> string option \<Rightarrow> catalog \<Rightarrow> catalog" where
  "add_version i v j now by_whom C =
     C\<lparr>ct_versions := ct_versions C @ [\<lparr>ve_spec = i, ve_version = v, ve_json = j, ve_changed_at = now, ve_changed_by = by_whom\<rparr>]\<rparr>"

definition set_row :: "string \<Rightarrow> (spec_row \<Rightarrow> spec_row) \<Rightarrow> catalog \<Rightarrow> catalog" where
  "set_row i upd C = C\<lparr>ct_specs := map (\<lambda>r. if rw_id r = i then upd r else r) (ct_specs C)\<rparr>"

definition upsert_in_tx :: "codec \<Rightarrow> timestamp \<Rightarrow> spec \<Rightarrow> catalog \<Rightarrow> string + upsert_outcome \<times> catalog" where
  "upsert_in_tx cd now sp C =
     (case cd_encode cd sp of
        None \<Rightarrow> Inl (''serialize spec '' @ sp_id sp)
      | Some j \<Rightarrow>
          (let C1 = record_image now sp C in
           case row_at (sp_id sp) C1 of
             None \<Rightarrow>
               Inr (Created, add_version (sp_id sp) 1 j now None
                 (C1\<lparr>ct_specs := ct_specs C1 @ [\<lparr>rw_id = sp_id sp, rw_display_name = sp_display_name sp,
                    rw_description = sp_description sp, rw_kind = kind_str sp, rw_image = sp_container_image sp, rw_json = j,
                    rw_state = state_str sp, rw_created_at = now, rw_updated_at = now, rw_version = 1, rw_featured = is_featured sp\<rparr>]\<rparr>))
           | Some r \<Rightarrow>
               if rw_json r = j then Inr (Unchanged, C1)
               else Inr (Updated, add_version (sp_id sp) (rw_version r + 1) j now None
                 (set_row (sp_id sp) (\<lambda>x. x\<lparr>rw_display_name := sp_display_name sp, rw_description := sp_description sp,
                    rw_kind := kind_str sp, rw_image := sp_container_image sp, rw_json := j, rw_state := state_str sp,
                    rw_updated_at := now, rw_version := rw_version r + 1, rw_featured := is_featured sp\<rparr>) C1))))"

definition upsert_audit_action :: "upsert_outcome \<Rightarrow> string option" where
  "upsert_audit_action oc = (case oc of Created \<Rightarrow> Some ''spec.create'' | Updated \<Rightarrow> Some ''spec.update'' | Unchanged \<Rightarrow> None)"

definition catalog_audit :: "string option \<Rightarrow> string \<Rightarrow> string option \<Rightarrow> timestamp \<Rightarrow> catalog \<Rightarrow> catalog" where
  "catalog_audit actor action target now C =
     C\<lparr>ct_audit := ct_audit C @ [\<lparr>ae_actor = actor, ae_action = action, ae_target = target, ae_at = now\<rparr>]\<rparr>"

definition upsert_one :: "codec \<Rightarrow> timestamp \<Rightarrow> spec \<Rightarrow> string option \<Rightarrow> catalog \<Rightarrow> string + upsert_outcome \<times> catalog" where
  "upsert_one cd now sp actor C =
     (case upsert_in_tx cd now sp C of
        Inl e \<Rightarrow> Inl e
      | Inr (oc, C1) \<Rightarrow>
          Inr (oc, case upsert_audit_action oc of None \<Rightarrow> C1
             | Some action \<Rightarrow> catalog_audit actor action (Some (''spec:'' @ sp_id sp)) now C1))"

definition insert_new :: "codec \<Rightarrow> timestamp \<Rightarrow> spec \<Rightarrow> string option \<Rightarrow> catalog \<Rightarrow> string + bool \<times> catalog" where
  "insert_new cd now sp actor C =
     (if row_at (sp_id sp) C \<noteq> None then Inr (False, C)
      else (case upsert_in_tx cd now sp C of
          Inl e \<Rightarrow> Inl e
        | Inr (_, C1) \<Rightarrow> Inr (True, catalog_audit actor ''spec.create'' (Some (''spec:'' @ sp_id sp)) now C1)))"

definition delete_one :: "timestamp \<Rightarrow> string \<Rightarrow> string option \<Rightarrow> catalog \<Rightarrow> bool \<times> catalog" where
  "delete_one now i actor C =
     (let removed = list_ex (\<lambda>r. rw_id r = i) (ct_specs C);
          C1 = C\<lparr>ct_specs := filter (\<lambda>r. rw_id r \<noteq> i) (ct_specs C), ct_versions := filter (\<lambda>v. ve_spec v \<noteq> i) (ct_versions C)\<rparr>
      in (removed, if removed then catalog_audit actor ''spec.delete'' (Some (''spec:'' @ i)) now C1 else C1))"

definition patch_state :: "codec \<Rightarrow> bool \<Rightarrow> string \<Rightarrow> (string \<times> bool) option" where
  "patch_state cd active j =
     (case cd_decode cd j of
        None \<Rightarrow> None
      | Some sp \<Rightarrow>
          (case cd_encode cd (sp\<lparr>sp_template_properties :=
                tp_set_str ''state'' (if active then ''active'' else ''inactive'') (sp_template_properties sp)\<rparr>) of
             None \<Rightarrow> None
           | Some j' \<Rightarrow> Some (j', tp_is_active (sp_template_properties sp) = active)))"

definition set_state :: "codec \<Rightarrow> timestamp \<Rightarrow> string \<Rightarrow> bool \<Rightarrow> string option \<Rightarrow> catalog \<Rightarrow> string + bool \<times> catalog" where
  "set_state cd now i active actor C =
     (case row_at i C of
        None \<Rightarrow> Inr (False, C)
      | Some r \<Rightarrow>
          (case patch_state cd active (rw_json r) of
             None \<Rightarrow> Inl (''deserialize spec '' @ i)
           | Some (j, already) \<Rightarrow>
               if already then Inr (True, C)
               else Inr (True, catalog_audit actor (if active then ''spec.unarchive'' else ''spec.archive'') (Some (''spec:'' @ i)) now
                 (add_version i (rw_version r + 1) j now actor
                   (set_row i (\<lambda>x. x\<lparr>rw_json := j, rw_state := (if active then ''active'' else ''inactive''), rw_version := rw_version r + 1\<rparr>) C)))))"

section \<open>Imports\<close>

record import_report =
  im_created :: nat
  im_updated :: nat
  im_unchanged :: nat

definition no_imports :: import_report where
  "no_imports = \<lparr>im_created = 0, im_updated = 0, im_unchanged = 0\<rparr>"

definition tally :: "import_report \<Rightarrow> upsert_outcome \<Rightarrow> import_report" where
  "tally report oc = (case oc of
     Created \<Rightarrow> report\<lparr>im_created := im_created report + 1\<rparr>
   | Updated \<Rightarrow> report\<lparr>im_updated := im_updated report + 1\<rparr>
   | Unchanged \<Rightarrow> report\<lparr>im_unchanged := im_unchanged report + 1\<rparr>)"

fun import_specs :: "codec \<Rightarrow> timestamp \<Rightarrow> spec list \<Rightarrow> import_report \<times> catalog \<Rightarrow> string + import_report \<times> catalog" where
  "import_specs cd now [] (report, C) = Inr (report, C)"
| "import_specs cd now (sp # sps) (report, C) =
     (case upsert_in_tx cd now sp C of
        Inl e \<Rightarrow> Inl e
      | Inr (oc, C1) \<Rightarrow> import_specs cd now sps (tally report oc, C1))"

definition import_selected :: "codec \<Rightarrow> timestamp \<Rightarrow> spec list \<Rightarrow> string list \<Rightarrow> catalog \<Rightarrow> string + import_report \<times> catalog" where
  "import_selected cd now specs ids C =
     (case import_specs cd now (filter (\<lambda>s. sp_id s \<in> set ids) specs) (no_imports, C) of
        Inl e \<Rightarrow> Inl e
      | Inr (report, C1) \<Rightarrow> Inr (report, catalog_audit None ''spec.import'' None now C1))"

section \<open>Reading\<close>

fun decode_rows :: "codec \<Rightarrow> spec_row list \<Rightarrow> string + spec list" where
  "decode_rows cd [] = Inr []"
| "decode_rows cd (r # rs) =
     (case cd_decode cd (rw_json r) of
        None \<Rightarrow> Inl ''deserialize spec row''
      | Some sp \<Rightarrow> (case decode_rows cd rs of Inl e \<Rightarrow> Inl e | Inr sps \<Rightarrow> Inr (sp # sps)))"

definition specs_list_all :: "codec \<Rightarrow> catalog \<Rightarrow> string + spec list" where
  "specs_list_all cd C = decode_rows cd (sort_key rw_created_at (sort_key rw_id (ct_specs C)))"

definition fetch_one :: "codec \<Rightarrow> string \<Rightarrow> catalog \<Rightarrow> string + spec option" where
  "fetch_one cd i C =
     (case row_at i C of None \<Rightarrow> Inr None
      | Some r \<Rightarrow> (case cd_decode cd (rw_json r) of None \<Rightarrow> Inl (''deserialize spec '' @ i) | Some sp \<Rightarrow> Inr (Some sp)))"

definition fetch_version :: "string \<Rightarrow> catalog \<Rightarrow> nat option" where
  "fetch_version i C = map_option rw_version (row_at i C)"

definition set_updated_if_absent :: "codec \<Rightarrow> timestamp \<Rightarrow> string \<Rightarrow> string \<Rightarrow> string option \<Rightarrow> catalog \<Rightarrow> string + bool \<times> catalog" where
  "set_updated_if_absent cd now i date actor C =
     (case fetch_one cd i C of
        Inl e \<Rightarrow> Inl e
      | Inr None \<Rightarrow> Inr (False, C)
      | Inr (Some sp) \<Rightarrow>
          if (case tp_get_str (sp_template_properties sp) ''updated'' of None \<Rightarrow> False | Some s \<Rightarrow> trim s \<noteq> []) then Inr (False, C)
          else (case upsert_one cd now (sp\<lparr>sp_template_properties := tp_set_str ''updated'' date (sp_template_properties sp)\<rparr>) actor C of
              Inl e \<Rightarrow> Inl e | Inr (_, C1) \<Rightarrow> Inr (True, C1)))"

type_synonym catalog_signature = "nat \<times> nat \<times> timestamp option"

definition catalog_signature :: "catalog \<Rightarrow> catalog_signature" where
  "catalog_signature C =
     (length (ct_specs C), sum_list (map rw_version (ct_specs C)),
      if ct_specs C = [] then None else Some (Max (rw_updated_at ` set (ct_specs C))))"

section \<open>The catalogue at run time\<close>

text \<open>
  \<open>load_spec\<close>: the database first, the YAML when it has no such row or fails; \<open>fetched\<close> is what the query
  answers. \<open>find_spec\<close> keeps a positive answer for a second.
\<close>

definition load_spec :: "(string + spec option) option \<Rightarrow> spec list \<Rightarrow> string \<Rightarrow> spec option" where
  "load_spec fetched yaml i =
     (case fetched of Some (Inr (Some sp)) \<Rightarrow> Some sp | _ \<Rightarrow> List.find (\<lambda>s. sp_id s = i) yaml)"

definition spec_cache_ttl :: nat where
  "spec_cache_ttl = secs 1"

definition find_spec :: "nat \<Rightarrow> nat \<Rightarrow> spec option \<Rightarrow> string \<Rightarrow> (string \<rightharpoonup> spec \<times> nat) \<Rightarrow> spec option \<times> (string \<rightharpoonup> spec \<times> nat)" where
  "find_spec now stored_at loaded i cache =
     (case cache i of
        Some (sp, kept_at) \<Rightarrow>
          if now - kept_at < spec_cache_ttl then (Some sp, cache)
          else (loaded, case loaded of Some l \<Rightarrow> cache(i \<mapsto> (l, stored_at)) | None \<Rightarrow> cache(i := None))
      | None \<Rightarrow> (loaded, case loaded of Some l \<Rightarrow> cache(i \<mapsto> (l, stored_at)) | None \<Rightarrow> cache(i := None)))"

text \<open>
  The cached catalogue of the admin pages: first the signature is queried, then (on a miss) the list. \<open>sig\<close> and
  \<open>listed\<close> are what the two queries answer; a write may come between them.
\<close>

type_synonym catalog_cache = "(catalog_signature \<times> spec list) option"

definition effective_specs_cached ::
    "(string + catalog_signature) option \<Rightarrow> string + spec list \<Rightarrow> spec list \<Rightarrow> catalog_cache \<Rightarrow> spec list \<times> catalog_cache" where
  "effective_specs_cached sig listed yaml cache =
     (case sig of
        None \<Rightarrow> (effective_specs None yaml, cache)
      | Some (Inl _) \<Rightarrow> (effective_specs (Some listed) yaml, cache)
      | Some (Inr s) \<Rightarrow>
          (let fill = (let specs = effective_specs (Some listed) yaml in (specs, Some (s, specs))) in
           case cache of None \<Rightarrow> fill | Some (s', specs) \<Rightarrow> if s' = s then (specs, cache) else fill))"

section \<open>What a transaction does to the rows\<close>

datatype catalog_op =
    UpsertOne spec "string option"
  | InsertNew spec "string option"
  | DeleteOne string "string option"
  | SetState string bool "string option"
  | ImportSelected "spec list" "string list"
  | SetUpdated string string "string option"

definition committed_to :: "catalog \<Rightarrow> string + 'a \<times> catalog \<Rightarrow> catalog" where
  "committed_to C r = (case r of Inl _ \<Rightarrow> C | Inr (_, C') \<Rightarrow> C')"

fun catalog_apply :: "codec \<Rightarrow> timestamp \<times> catalog_op \<Rightarrow> catalog \<Rightarrow> catalog" where
  "catalog_apply cd (now, UpsertOne sp actor) C = committed_to C (upsert_one cd now sp actor C)"
| "catalog_apply cd (now, InsertNew sp actor) C = committed_to C (insert_new cd now sp actor C)"
| "catalog_apply cd (now, DeleteOne i actor) C = snd (delete_one now i actor C)"
| "catalog_apply cd (now, SetState i active actor) C = committed_to C (set_state cd now i active actor C)"
| "catalog_apply cd (now, ImportSelected sps ids) C = committed_to C (import_selected cd now sps ids C)"
| "catalog_apply cd (now, SetUpdated i date actor) C = committed_to C (set_updated_if_absent cd now i date actor C)"

definition catalog_run :: "codec \<Rightarrow> (timestamp \<times> catalog_op) list \<Rightarrow> catalog \<Rightarrow> catalog" where
  "catalog_run cd es C = fold (catalog_apply cd) es C"

text \<open>A row of the table with its history: versions one to the present one, the last of them the present JSON.\<close>

definition history_of :: "string \<Rightarrow> catalog \<Rightarrow> (nat \<times> string) list" where
  "history_of i C = map (\<lambda>v. (ve_version v, ve_json v)) (filter (\<lambda>v. ve_spec v = i) (ct_versions C))"

definition history_ok :: "spec_row \<Rightarrow> (nat \<times> string) list \<Rightarrow> bool" where
  "history_ok r h \<longleftrightarrow> h \<noteq> [] \<and> map fst h = [1..<Suc (rw_version r)] \<and> snd (last h) = rw_json r"

text \<open>The columns beside the JSON say what the JSON says.\<close>

definition columns_ok :: "codec \<Rightarrow> spec_row \<Rightarrow> bool" where
  "columns_ok cd r \<longleftrightarrow> (\<exists>sp. cd_decode cd (rw_json r) = Some sp \<and> rw_id r = sp_id sp \<and> rw_display_name r = sp_display_name sp
     \<and> rw_description r = sp_description sp \<and> rw_kind r = kind_str sp \<and> rw_image r = sp_container_image sp
     \<and> rw_state r = state_str sp \<and> rw_featured r = is_featured sp)"

definition catalog_wf :: "codec \<Rightarrow> catalog \<Rightarrow> bool" where
  "catalog_wf cd C \<longleftrightarrow> distinct (map rw_id (ct_specs C))
     \<and> (\<forall>r \<in> set (ct_specs C). history_ok r (history_of (rw_id r) C) \<and> columns_ok cd r)
     \<and> (\<forall>v \<in> set (ct_versions C). ve_spec v \<in> rw_id ` set (ct_specs C))"

definition codec_ok :: "codec \<Rightarrow> bool" where
  "codec_ok cd \<longleftrightarrow> (\<forall>sp j. cd_encode cd sp = Some j \<longrightarrow> cd_decode cd j = Some sp)"

text \<open>The primitive changes of a transaction at time \<open>now\<close>.\<close>

definition fresh_row :: "timestamp \<Rightarrow> spec \<Rightarrow> string \<Rightarrow> spec_row" where
  "fresh_row now sp j = \<lparr>rw_id = sp_id sp, rw_display_name = sp_display_name sp, rw_description = sp_description sp,
     rw_kind = kind_str sp, rw_image = sp_container_image sp, rw_json = j, rw_state = state_str sp,
     rw_created_at = now, rw_updated_at = now, rw_version = 1, rw_featured = is_featured sp\<rparr>"

lemma history_simps [simp]:
  "history_of i (record_image now sp C) = history_of i C" "history_of i (catalog_audit a x t n C) = history_of i C"
  "history_of i (set_row k upd C) = history_of i C" "history_of i (C\<lparr>ct_specs := rs\<rparr>) = history_of i C"
  "history_of i (add_version k v j now w C) = history_of i C @ (if k = i then [(v, j)] else [])"
  by (simp_all add: history_of_def record_image_def catalog_audit_def set_row_def add_version_def Let_def split: option.splits)

lemma specs_simps [simp]:
  "ct_specs (record_image now sp C) = ct_specs C" "ct_specs (catalog_audit a x t n C) = ct_specs C"
  "ct_specs (add_version k v j now w C) = ct_specs C" "row_at i (record_image now sp C) = row_at i C"
  "ct_specs (set_row k upd C) = map (\<lambda>r. if rw_id r = k then upd r else r) (ct_specs C)"
  by (simp_all add: row_at_def record_image_def catalog_audit_def set_row_def add_version_def Let_def split: option.splits)

lemma versions_simps [simp]:
  "ct_versions (record_image now sp C) = ct_versions C" "ct_versions (catalog_audit a x t n C) = ct_versions C"
  "ct_versions (set_row k upd C) = ct_versions C"
  "ct_versions (add_version k v j now w C) = ct_versions C @ [\<lparr>ve_spec = k, ve_version = v, ve_json = j, ve_changed_at = now, ve_changed_by = w\<rparr>]"
  by (simp_all add: record_image_def catalog_audit_def set_row_def add_version_def Let_def split: option.splits)

lemma catalog_wf_audit [simp]: "catalog_wf cd (catalog_audit a x t n C) = catalog_wf cd C"
  by (simp add: catalog_wf_def)

lemma wf_record_image [simp]: "catalog_wf cd (record_image now sp C) = catalog_wf cd C"
  by (simp add: catalog_wf_def)

lemma row_at_Some: "row_at i C = Some r \<Longrightarrow> r \<in> set (ct_specs C) \<and> rw_id r = i"
  unfolding row_at_def by (rule find_Some_mem)

lemma row_at_None: "row_at i C = None \<longleftrightarrow> i \<notin> rw_id ` set (ct_specs C)"
  by (auto simp: row_at_def find_None_iff')

lemma row_unique:
  "distinct (map rw_id rs) \<Longrightarrow> x \<in> set rs \<Longrightarrow> y \<in> set rs \<Longrightarrow> rw_id x = rw_id y \<Longrightarrow> x = y"
  by (auto simp: distinct_map inj_on_def)

lemma wf_add_row:
  assumes "catalog_wf cd C" and "row_at (sp_id sp) C = None" and "cd_decode cd j = Some sp"
  shows "catalog_wf cd (add_version (sp_id sp) 1 j now w (C\<lparr>ct_specs := ct_specs C @ [fresh_row now sp j]\<rparr>))"
proof -
  have "ve_spec v \<noteq> sp_id sp" if "v \<in> set (ct_versions C)" for v
  proof -
    from assms(1) that have "ve_spec v \<in> rw_id ` set (ct_specs C)" by (simp add: catalog_wf_def)
    with assms(2) show ?thesis unfolding row_at_None by metis
  qed
  then have "history_of (sp_id sp) C = []" by (simp add: history_of_def)
  with assms show ?thesis
    by (auto simp: catalog_wf_def row_at_None history_ok_def columns_ok_def fresh_row_def add_version_def [of _ _ _ _ _ "_\<lparr>ct_specs := _\<rparr>"]
        history_of_def image_iff)
qed

lemma wf_change_row:
  assumes wf: "catalog_wf cd C" and r: "row_at i C = Some r"
    and upd: "rw_id (upd r) = i" "rw_version (upd r) = Suc (rw_version r)" "rw_json (upd r) = j" "columns_ok cd (upd r)"
  shows "catalog_wf cd (add_version i (Suc (rw_version r)) j now w (set_row i upd C))" (is "catalog_wf cd ?C")
proof -
  from row_at_Some [OF r] have r': "r \<in> set (ct_specs C)" "rw_id r = i" by auto
  from wf have dist: "distinct (map rw_id (ct_specs C))" by (simp add: catalog_wf_def)
  have only: "x = r" if "x \<in> set (ct_specs C)" "rw_id x = i" for x
    using row_unique [OF dist that(1) r'(1)] that(2) r'(2) by simp
  have ids: "map rw_id (map (\<lambda>x. if rw_id x = i then upd x else x) (ct_specs C)) = map rw_id (ct_specs C)"
    using only upd(1) by auto
  have "history_ok (upd r) (history_of i C @ [(Suc (rw_version r), j)])"
    using wf r' upd(2,3) by (auto simp: catalog_wf_def history_ok_def)
  moreover from ids have img: "rw_id ` set (map (\<lambda>x. if rw_id x = i then upd x else x) (ct_specs C)) = rw_id ` set (ct_specs C)"
    by (metis list.set_map)
  moreover have "history_ok x (history_of (rw_id x) C) \<and> columns_ok cd x" if "x \<in> set (ct_specs C)" for x
    using wf that by (simp add: catalog_wf_def)
  ultimately have "history_ok y (history_of (rw_id y) ?C) \<and> columns_ok cd y" if "y \<in> set (ct_specs ?C)" for y
    using that only upd(1,4) by auto
  moreover have "ve_spec v \<in> rw_id ` set (ct_specs ?C)" if "v \<in> set (ct_versions ?C)" for v
    using that wf r' img by (auto simp: catalog_wf_def simp del: set_map)
  ultimately show ?thesis using dist ids by (simp add: catalog_wf_def del: map_map)
qed

lemma wf_upsert:
  assumes "catalog_wf cd C" and "codec_ok cd" and "upsert_in_tx cd now sp C = Inr (oc, C')"
  shows "catalog_wf cd C'"
proof -
  from assms(3) obtain j where j: "cd_encode cd sp = Some j"
    by (auto simp: upsert_in_tx_def split: option.splits)
  with assms(2) have d: "cd_decode cd j = Some sp" by (simp add: codec_ok_def)
  let ?C = "record_image now sp C"
  show ?thesis
  proof (cases "row_at (sp_id sp) C")
    case None
    with assms(1) d wf_add_row [of cd ?C sp j now None] have
      "catalog_wf cd (add_version (sp_id sp) 1 j now None (?C\<lparr>ct_specs := ct_specs ?C @ [fresh_row now sp j]\<rparr>))" by simp
    with assms(3) None j show ?thesis by (simp add: upsert_in_tx_def Let_def fresh_row_def)
  next
    case (Some r)
    note r = Some
    let ?upd = "\<lambda>x. x\<lparr>rw_display_name := sp_display_name sp, rw_description := sp_description sp,
      rw_kind := kind_str sp, rw_image := sp_container_image sp, rw_json := j, rw_state := state_str sp,
      rw_updated_at := now, rw_version := rw_version r + 1, rw_featured := is_featured sp\<rparr>"
    have "columns_ok cd (?upd r)" using d row_at_Some [OF r] by (auto simp: columns_ok_def)
    with assms(1) r row_at_Some [OF r] wf_change_row [of cd ?C "sp_id sp" r ?upd j now None]
    have "catalog_wf cd (add_version (sp_id sp) (Suc (rw_version r)) j now None (set_row (sp_id sp) ?upd ?C))" by simp
    with assms(1,3) r j show ?thesis by (auto simp: upsert_in_tx_def Let_def split: if_splits)
  qed
qed

lemma wf_upsert_one: "catalog_wf cd C \<Longrightarrow> codec_ok cd \<Longrightarrow> upsert_one cd now sp actor C = Inr (oc, C') \<Longrightarrow> catalog_wf cd C'"
  by (auto simp: upsert_one_def split: sum.splits option.splits dest: wf_upsert)

lemma wf_import_specs:
  "catalog_wf cd C \<Longrightarrow> codec_ok cd \<Longrightarrow> import_specs cd now sps (rep, C) = Inr (rep', C') \<Longrightarrow> catalog_wf cd C'"
  by (induction sps arbitrary: rep C) (auto split: sum.splits dest: wf_upsert)

lemma wf_delete: "catalog_wf cd C \<Longrightarrow> catalog_wf cd (snd (delete_one now i actor C))"
proof -
  assume wf: "catalog_wf cd C"
  let ?C = "C\<lparr>ct_specs := filter (\<lambda>r. rw_id r \<noteq> i) (ct_specs C), ct_versions := filter (\<lambda>v. ve_spec v \<noteq> i) (ct_versions C)\<rparr>"
  have "history_of k ?C = history_of k C" if "k \<noteq> i" for k
    using that by (auto simp: history_of_def intro!: arg_cong [where f = "map _"] filter_cong)
  moreover have "ve_spec v \<in> rw_id ` set (ct_specs ?C)" if "v \<in> set (ct_versions ?C)" for v
    using that wf by (auto simp: catalog_wf_def)
  ultimately have "catalog_wf cd ?C" using wf by (simp add: catalog_wf_def distinct_map_filter)
  then show ?thesis by (simp add: delete_one_def Let_def)
qed

lemma patch_state_Some:
  "patch_state cd active j = Some (j', already) \<Longrightarrow>
     \<exists>sp. cd_decode cd j = Some sp \<and> already = (tp_is_active (sp_template_properties sp) = active)
       \<and> cd_encode cd (sp\<lparr>sp_template_properties := tp_set_str ''state'' (if active then ''active'' else ''inactive'') (sp_template_properties sp)\<rparr>) = Some j'"
  by (auto simp: patch_state_def split: option.splits)

lemma state_set [simp]: "tp_is_active (tp_set_str ''state'' v tp) \<longleftrightarrow> v = ''active''"
  by (simp add: tp_is_active_def tp_state_def tp_set_str_def tp_get_str_def)

abbreviation flip :: "bool \<Rightarrow> string \<Rightarrow> nat \<Rightarrow> spec_row \<Rightarrow> spec_row" where
  "flip active j v x \<equiv> x\<lparr>rw_json := j, rw_state := (if active then ''active'' else ''inactive''), rw_version := Suc v\<rparr>"

lemma set_state_Inr:
  assumes "set_state cd now i active actor C = Inr (b, C')"
  obtains (same) "C' = C"
  | (flipped) r j where "row_at i C = Some r" "patch_state cd active (rw_json r) = Some (j, False)"
    "C' = catalog_audit actor (if active then ''spec.unarchive'' else ''spec.archive'') (Some (''spec:'' @ i)) now
      (add_version i (Suc (rw_version r)) j now actor (set_row i (flip active j (rw_version r)) C))"
proof (cases "row_at i C")
  case None
  with assms have "C' = C" by (simp add: set_state_def)
  then show ?thesis by (rule same)
next
  case r: (Some r)
  show ?thesis
  proof (cases "patch_state cd active (rw_json r)")
    case None
    with assms r show ?thesis by (simp add: set_state_def)
  next
    case (Some p)
    obtain j already where p: "p = (j, already)" by (cases p)
    show ?thesis
    proof (cases already)
      case True
      with assms r Some p have "C' = C" by (simp add: set_state_def)
      then show ?thesis by (rule same)
    next
      case False
      with assms r Some p show ?thesis by (intro flipped [of r j]) (simp_all add: set_state_def)
    qed
  qed
qed

lemma wf_set_state:
  assumes wf: "catalog_wf cd C" and cd: "codec_ok cd" and st: "set_state cd now i active actor C = Inr (b, C')"
  shows "catalog_wf cd C'"
  using st
proof (cases rule: set_state_Inr)
  case (flipped r j)
  from row_at_Some [OF flipped(1)] have r: "r \<in> set (ct_specs C)" "rw_id r = i" by auto
  from patch_state_Some [OF flipped(2)] cd obtain sp where d: "cd_decode cd (rw_json r) = Some sp"
    "cd_decode cd j = Some (sp\<lparr>sp_template_properties := tp_set_str ''state'' (if active then ''active'' else ''inactive'') (sp_template_properties sp)\<rparr>)"
    by (auto simp: codec_ok_def)
  have "columns_ok cd r" using wf r by (simp add: catalog_wf_def)
  with d have "columns_ok cd (flip active j (rw_version r) r)"
    by (auto simp: columns_ok_def kind_str_def spec_kind_of_def is_featured_def state_str_def split: option.splits kind_override.splits)
  with wf_change_row [OF wf flipped(1), of "flip active j (rw_version r)" j now actor] r
  show ?thesis unfolding flipped(3) by simp
qed (use wf in simp)

lemma catalog_apply_wf:
  assumes wf: "catalog_wf cd C" and cd: "codec_ok cd"
  shows "catalog_wf cd (catalog_apply cd (now, op) C)"
proof (cases op)
  case (UpsertOne sp actor)
  with wf cd show ?thesis by (auto simp: committed_to_def split: sum.splits dest: wf_upsert_one)
next
  case (InsertNew sp actor)
  with wf cd show ?thesis by (auto simp: committed_to_def insert_new_def split: sum.splits if_splits dest: wf_upsert)
next
  case (DeleteOne i actor)
  with wf show ?thesis by (simp add: wf_delete)
next
  case (SetState i active actor)
  with wf cd show ?thesis by (auto simp: committed_to_def split: sum.splits dest: wf_set_state)
next
  case (ImportSelected sps ids)
  with wf cd show ?thesis by (auto simp: committed_to_def import_selected_def split: sum.splits dest: wf_import_specs)
next
  case (SetUpdated i date actor)
  with wf cd show ?thesis
    by (auto simp: committed_to_def set_updated_if_absent_def split: sum.splits option.splits if_splits dest: wf_upsert_one)
qed

lemma catalog_run_wf: "codec_ok cd \<Longrightarrow> catalog_wf cd C \<Longrightarrow> catalog_wf cd (catalog_run cd es C)"
  unfolding catalog_run_def by (induction es arbitrary: C) (auto simp: catalog_apply_wf)

lemma empty_catalog_wf [simp]: "catalog_wf cd empty_catalog"
  by (simp add: catalog_wf_def empty_catalog_def)

section \<open>Properties: the history\<close>

text \<open>
  C30: The history of the catalogue is complete. After any sequence of writes on an empty catalogue (upserts,
  refused and accepted creations, imports, archive switches, dates filled in, deletions), ids are unique, every app has
  exactly the versions one to its present one with the present JSON last, no version is left of a deleted app, and the
  columns beside the JSON, the archive state included, say what the JSON says.
\<close>

theorem history_is_complete:
  assumes "codec_ok cd"
  shows "catalog_wf cd (catalog_run cd es empty_catalog)"
  using assms by (simp add: catalog_run_wf)

text \<open>A codec for two specs of each id, archived or not.\<close>

definition demo_app :: "bool \<Rightarrow> string \<Rightarrow> spec" where
  "demo_app active i = (blank_spec i)\<lparr>sp_template_properties := [''state'' \<mapsto> YStr (if active then ''active'' else ''inactive'')]\<rparr>"

definition demo_codec :: codec where
  "demo_codec = \<lparr>cd_encode = (\<lambda>sp. if sp = demo_app True (sp_id sp) then Some (CHR ''+'' # sp_id sp)
       else if sp = demo_app False (sp_id sp) then Some (CHR ''-'' # sp_id sp) else None),
     cd_decode = (\<lambda>j. case j of [] \<Rightarrow> None | c # i \<Rightarrow> Some (demo_app (c = CHR ''+'') i))\<rparr>"

lemma demo_codec_ok: "codec_ok demo_codec"
  by (auto simp: codec_ok_def demo_codec_def split: if_splits)

lemma demo_app_simps [simp]:
  "sp_id (demo_app a i) = i" "sp_container_image (demo_app a i) = None"
  "sp_template_properties (demo_app a i) = [''state'' \<mapsto> YStr (if a then ''active'' else ''inactive'')]"
  by (simp_all add: demo_app_def blank_spec_def)

lemma demo_encode [simp]: "cd_encode demo_codec (demo_app a i) = Some ((if a then CHR ''+'' else CHR ''-'') # i)"
proof -
  have "demo_app False i \<noteq> demo_app True i"
  proof
    assume "demo_app False i = demo_app True i"
    then have "sp_template_properties (demo_app False i) ''state'' = sp_template_properties (demo_app True i) ''state''" by simp
    then show False by simp
  qed
  then show ?thesis by (cases a) (simp_all add: demo_codec_def)
qed

lemma demo_decode [simp]: "cd_decode demo_codec (c # i) = Some (demo_app (c = CHR ''+'') i)"
  by (simp add: demo_codec_def)

lemma demo_archive [simp]:
  "(demo_app a i)\<lparr>sp_template_properties := tp_set_str ''state'' (if b then ''active'' else ''inactive'') (sp_template_properties (demo_app a i))\<rparr> = demo_app b i"
  by (simp add: demo_app_def tp_set_str_def)

lemma history_is_complete_witness:
  "history_of ''a'' (catalog_run demo_codec [(1, UpsertOne (demo_app True ''a'') None), (2, SetState ''a'' False (Some ''ann'')),
      (3, UpsertOne (demo_app False ''a'') None)] empty_catalog) = [(1, ''+a''), (2, ''-a'')]
   \<and> catalog_wf demo_codec (catalog_run demo_codec [(1, UpsertOne (demo_app True ''a'') None), (2, SetState ''a'' False (Some ''ann'')),
      (3, UpsertOne (demo_app False ''a'') None)] empty_catalog)"
proof
  have patch: "patch_state demo_codec False ''+a'' = Some (''-a'', False)"
    using demo_archive [where a = True and i = "''a''" and b = False] by (simp add: patch_state_def tp_is_active_def tp_state_def tp_get_str_def)
  show "history_of ''a'' (catalog_run demo_codec [(1, UpsertOne (demo_app True ''a'') None), (2, SetState ''a'' False (Some ''ann'')),
      (3, UpsertOne (demo_app False ''a'') None)] empty_catalog) = [(1, ''+a''), (2, ''-a'')]"
    by (simp add: catalog_run_def upsert_one_def upsert_in_tx_def record_image_def empty_catalog_def committed_to_def row_at_def
        upsert_audit_action_def set_state_def patch add_version_def set_row_def catalog_audit_def history_of_def Let_def)
qed (rule history_is_complete [OF demo_codec_ok])

section \<open>Properties: the signature of the catalogue\<close>

text \<open>The changes a write at time \<open>now\<close> makes to the rows.\<close>

inductive row_change :: "timestamp \<Rightarrow> spec_row list \<Rightarrow> spec_row list \<Rightarrow> bool" for now where
  added: "rw_id x \<notin> rw_id ` set rs \<Longrightarrow> rw_updated_at x = now \<Longrightarrow> row_change now rs (rs @ [x])"
| rewritten: "(\<And>x. rw_id (upd x) = rw_id x \<and> rw_updated_at (upd x) = now) \<Longrightarrow>
    row_change now rs (map (\<lambda>x. if rw_id x = i then upd x else x) rs)"
| flipped: "r \<in> set rs \<Longrightarrow> (\<And>x. rw_id (upd x) = rw_id x \<and> rw_updated_at (upd x) = rw_updated_at x) \<Longrightarrow>
    rw_version (upd r) = Suc (rw_version r) \<Longrightarrow> row_change now rs (map (\<lambda>x. if rw_id x = rw_id r then upd x else x) rs)"
| dropped: "row_change now rs (filter (\<lambda>x. rw_id x \<noteq> i) rs)"

lemma upsert_rows:
  assumes "upsert_in_tx cd now sp C = Inr (oc, C')"
  shows "(row_change now)\<^sup>*\<^sup>* (ct_specs C) (ct_specs C')"
proof -
  from assms obtain j where j: "cd_encode cd sp = Some j" by (auto simp: upsert_in_tx_def split: option.splits)
  show ?thesis
  proof (cases "row_at (sp_id sp) C")
    case None
    then have "row_change now (ct_specs C) (ct_specs C @ [fresh_row now sp j])"
      by (intro added) (auto simp: fresh_row_def row_at_None)
    with assms None j show ?thesis by (auto simp: upsert_in_tx_def Let_def fresh_row_def)
  next
    case (Some r)
    have "row_change now (ct_specs C) (map (\<lambda>x. if rw_id x = sp_id sp then x\<lparr>rw_display_name := sp_display_name sp,
      rw_description := sp_description sp, rw_kind := kind_str sp, rw_image := sp_container_image sp, rw_json := j,
      rw_state := state_str sp, rw_updated_at := now, rw_version := Suc (rw_version r), rw_featured := is_featured sp\<rparr> else x) (ct_specs C))"
      by (rule rewritten) simp
    with assms Some j show ?thesis by (auto simp: upsert_in_tx_def Let_def split: if_splits)
  qed
qed

lemma import_rows:
  "import_specs cd now sps (rep, C) = Inr (rep', C') \<Longrightarrow> (row_change now)\<^sup>*\<^sup>* (ct_specs C) (ct_specs C')"
proof (induction sps arbitrary: rep C)
  case (Cons sp sps)
  then obtain oc C1 where 1: "upsert_in_tx cd now sp C = Inr (oc, C1)" "import_specs cd now sps (tally rep oc, C1) = Inr (rep', C')"
    by (auto split: sum.splits)
  from upsert_rows [OF 1(1)] Cons.IH [OF 1(2)] show ?case by (rule rtranclp_trans)
qed simp

lemma set_state_rows:
  assumes "set_state cd now i active actor C = Inr (b, C')"
  shows "(row_change now)\<^sup>*\<^sup>* (ct_specs C) (ct_specs C')"
  using assms
proof (cases rule: set_state_Inr)
  case st: (flipped r j)
  from row_at_Some [OF st(1)] have "r \<in> set (ct_specs C)" "rw_id r = i" by auto
  with flipped [of r "ct_specs C" "flip active j (rw_version r)" now] show ?thesis unfolding st(3) by auto
qed simp

lemma catalog_apply_rows: "(row_change now)\<^sup>*\<^sup>* (ct_specs C) (ct_specs (catalog_apply cd (now, op) C))"
proof (cases op)
  case (DeleteOne i actor)
  then show ?thesis using dropped [of now "ct_specs C" i] by (auto simp: delete_one_def Let_def)
next
  case (SetState i active actor)
  then show ?thesis by (auto simp: committed_to_def split: sum.splits dest: set_state_rows)
qed (auto simp: committed_to_def upsert_one_def insert_new_def import_selected_def set_updated_if_absent_def
    split: sum.splits option.splits if_splits dest!: upsert_rows import_rows)

lemma row_change_distinct: "row_change now rs rs' \<Longrightarrow> distinct (map rw_id rs) \<Longrightarrow> distinct (map rw_id rs')"
proof (induction rule: row_change.induct)
  case (rewritten upd rs i)
  then have "map rw_id (map (\<lambda>x. if rw_id x = i then upd x else x) rs) = map rw_id rs" by auto
  with rewritten.prems show ?case by metis
next
  case (flipped r rs upd)
  then have "map rw_id (map (\<lambda>x. if rw_id x = rw_id r then upd x else x) rs) = map rw_id rs" by auto
  with flipped.prems show ?case by metis
qed (auto simp: distinct_map_filter)

text \<open>
  Of the rows of before that no later write has rewritten or deleted, each is as it was, or its version has grown;
  every other row was written at \<open>t\<close> or after.
\<close>

definition older :: "spec_row \<Rightarrow> spec_row \<Rightarrow> bool" where
  "older x y \<longleftrightarrow> rw_id x = rw_id y \<and> rw_updated_at x = rw_updated_at y \<and> (x = y \<or> rw_version x < rw_version y)"

definition descends :: "timestamp \<Rightarrow> spec_row list \<Rightarrow> spec_row list \<Rightarrow> bool" where
  "descends t rs0 rs \<longleftrightarrow> (\<exists>olds. subseq olds rs0 \<and> list_all2 older olds (filter (\<lambda>x. rw_updated_at x < t) rs))"

lemma older_bump: "older x y \<Longrightarrow> rw_id z = rw_id y \<Longrightarrow> rw_updated_at z = rw_updated_at y \<Longrightarrow> rw_version z = Suc (rw_version y) \<Longrightarrow> older x z"
  by (auto simp: older_def)

lemma older_drop: "list_all2 older xs ys \<Longrightarrow> list_all2 older (filter (\<lambda>x. rw_id x \<noteq> i) xs) (filter (\<lambda>x. rw_id x \<noteq> i) ys)"
  by (induction rule: list_all2_induct) (auto simp: older_def)

lemma descends_step:
  assumes step: "row_change now rs rs'" and "t \<le> now" and dist: "distinct (map rw_id rs)" and d: "descends t rs0 rs"
  shows "descends t rs0 rs'"
proof -
  from d obtain olds where o: "subseq olds rs0" "list_all2 older olds (filter (\<lambda>x. rw_updated_at x < t) rs)"
    by (auto simp: descends_def)
  have drop: "subseq (filter (\<lambda>x. rw_id x \<noteq> i) olds) rs0" for i
    using o(1) subseq_filter_left subseq_order.trans by blast
  from step show ?thesis
  proof cases
    case (added x)
    with o assms(2) show ?thesis by (auto simp: descends_def)
  next
    case (rewritten upd i)
    have "filter (\<lambda>x. rw_updated_at x < t) rs' = filter (\<lambda>x. rw_id x \<noteq> i) (filter (\<lambda>x. rw_updated_at x < t) rs)"
      unfolding rewritten(1) using rewritten(2) assms(2) by (induction rs) (auto simp: not_less)
    with older_drop [OF o(2), of i] drop [of i] show ?thesis unfolding descends_def by auto
  next
    case (flipped r upd)
    have "filter (\<lambda>x. rw_updated_at x < t) rs'
        = map (\<lambda>x. if rw_id x = rw_id r then upd x else x) (filter (\<lambda>x. rw_updated_at x < t) rs)"
      unfolding flipped(1) using flipped(3) by (induction rs) auto
    moreover have "older x (upd y)" if "older x y" "y \<in> set rs" "rw_id y = rw_id r" for x y
      using row_unique [OF dist that(2) flipped(2) that(3)] that(1) flipped(3,4) older_bump by metis
    with o(2) have "list_all2 older olds (map (\<lambda>x. if rw_id x = rw_id r then upd x else x) (filter (\<lambda>x. rw_updated_at x < t) rs))"
      by (auto simp: list_all2_conv_all_nth) (metis filter_is_subset nth_mem subsetD)
    ultimately show ?thesis using o(1) unfolding descends_def by auto
  next
    case (dropped i)
    have "filter (\<lambda>x. rw_updated_at x < t) rs' = filter (\<lambda>x. rw_id x \<noteq> i) (filter (\<lambda>x. rw_updated_at x < t) rs)"
      unfolding dropped by (simp add: conj_commute)
    with older_drop [OF o(2), of i] drop [of i] show ?thesis unfolding descends_def by auto
  qed
qed

lemma descends_steps:
  "(row_change now)\<^sup>*\<^sup>* rs rs' \<Longrightarrow> t \<le> now \<Longrightarrow> distinct (map rw_id rs) \<Longrightarrow> descends t rs0 rs \<Longrightarrow>
     descends t rs0 rs' \<and> distinct (map rw_id rs')"
  by (induction rule: rtranclp_induct) (auto dest: descends_step row_change_distinct)

lemma descends_run:
  "\<forall>e \<in> set es. t \<le> fst e \<Longrightarrow> distinct (map rw_id (ct_specs C)) \<Longrightarrow> descends t rs0 (ct_specs C) \<Longrightarrow>
     descends t rs0 (ct_specs (catalog_run cd es C)) \<and> distinct (map rw_id (ct_specs (catalog_run cd es C)))"
proof (induction es arbitrary: C)
  case Nil
  then show ?case by (simp add: catalog_run_def)
next
  case (Cons e es)
  obtain now op where e: "e = (now, op)" by (cases e)
  from descends_steps [OF catalog_apply_rows, of t now C rs0 cd op] Cons.prems e
  have "descends t rs0 (ct_specs (catalog_apply cd e C)) \<and> distinct (map rw_id (ct_specs (catalog_apply cd e C)))" by simp
  with Cons.IH [of "catalog_apply cd e C"] Cons.prems show ?case by (simp add: catalog_run_def)
qed

lemma older_sum: "list_all2 older xs ys \<Longrightarrow> sum_list (map rw_version xs) \<le> sum_list (map rw_version ys)
    \<and> (sum_list (map rw_version xs) = sum_list (map rw_version ys) \<longrightarrow> xs = ys)"
  by (induction rule: list_all2_induct) (auto simp: older_def)

lemma signature_unchanged:
  assumes "distinct (map rw_id (ct_specs C))"
    and "\<forall>r \<in> set (ct_specs C). \<forall>e \<in> set es. rw_updated_at r < fst e"
    and "catalog_signature (catalog_run cd es C) = catalog_signature C"
  shows "ct_specs (catalog_run cd es C) = ct_specs C"
proof (cases "es = [] \<or> ct_specs C = []")
  case True
  with assms(3) show ?thesis by (auto simp: catalog_run_def catalog_signature_def split: if_splits)
next
  case False
  let ?rs = "ct_specs C" and ?rs' = "ct_specs (catalog_run cd es C)"
  define t where "t = Min (fst ` set es)"
  from False have t: "t \<in> fst ` set es" "\<forall>e \<in> set es. t \<le> fst e" unfolding t_def by (auto intro!: Min_in)
  with assms(2) have old: "\<forall>r \<in> set ?rs. rw_updated_at r < t" by fastforce
  then have "filter (\<lambda>x. rw_updated_at x < t) ?rs = ?rs" by (simp add: filter_id_conv)
  then have "descends t ?rs ?rs" unfolding descends_def
    by (metis list_all2_refl older_def subseq_order.order_refl)
  with descends_run [OF t(2) assms(1), of ?rs cd] obtain olds
    where o: "subseq olds ?rs" "list_all2 older olds (filter (\<lambda>x. rw_updated_at x < t) ?rs')"
    by (auto simp: descends_def)
  from assms(3) False have len: "length ?rs' = length ?rs" and sum: "sum_list (map rw_version ?rs') = sum_list (map rw_version ?rs)"
    and mx: "Max (rw_updated_at ` set ?rs') = Max (rw_updated_at ` set ?rs)" and "?rs' \<noteq> []"
    by (auto simp: catalog_signature_def split: if_splits)
  have "Max (rw_updated_at ` set ?rs) < t" using False old by (subst Max_less_iff) auto
  then have "\<forall>x \<in> set ?rs'. rw_updated_at x < t"
    using mx by (metis Max_ge finite_imageI finite_set image_eqI order_le_less_trans)
  then have all: "filter (\<lambda>x. rw_updated_at x < t) ?rs' = ?rs'" by (simp add: filter_id_conv)
  with o len have "length olds = length ?rs" by (simp add: list_all2_lengthD)
  with o(1) have "olds = ?rs" by (simp add: subseq_same_length)
  with o(2) all sum older_sum show ?thesis by metis
qed

text \<open>
  C31: The signature of the catalogue misses no write. When every write carries a later time than the rows
  already there, then after any sequence of writes (creations, updates, archive switches, imports, deletions in any
  order) the count, the sum of versions and the latest time are those of before only if the rows are exactly
  those of before.
\<close>

theorem signature_detects_writes:
  assumes "distinct (map rw_id (ct_specs C))"
    and "\<forall>r \<in> set (ct_specs C). \<forall>e \<in> set es. rw_updated_at r < fst e"
    and "catalog_signature (catalog_run cd es C) = catalog_signature C"
  shows "ct_specs (catalog_run cd es C) = ct_specs C"
  using assms by (rule signature_unchanged)

definition demo_row :: "string \<Rightarrow> timestamp \<Rightarrow> spec_row" where
  "demo_row i now = fresh_row now (demo_app True i) (CHR ''+'' # i)"

definition demo_catalog :: "(string \<times> timestamp) list \<Rightarrow> catalog" where
  "demo_catalog rows = empty_catalog\<lparr>ct_specs := map (\<lambda>(i, now). demo_row i now) rows\<rparr>"

lemma demo_row_simps [simp]:
  "rw_id (demo_row i now) = i" "rw_updated_at (demo_row i now) = now" "rw_version (demo_row i now) = 1"
  "rw_json (demo_row i now) = CHR ''+'' # i" "rw_created_at (demo_row i now) = now"
  by (simp_all add: demo_row_def fresh_row_def)

lemma demo_catalog_specs [simp]: "ct_specs (demo_catalog rows) = map (\<lambda>(i, now). demo_row i now) rows"
  by (simp add: demo_catalog_def)

lemma demo_row_eq [simp]: "demo_row i s = demo_row k t \<longleftrightarrow> i = k \<and> s = t"
proof
  assume "demo_row i s = demo_row k t"
  then have "rw_id (demo_row i s) = rw_id (demo_row k t)" "rw_updated_at (demo_row i s) = rw_updated_at (demo_row k t)" by simp_all
  then show "i = k \<and> s = t" by simp
qed simp

lemma upsert_demo:
  "row_at i C = None \<Longrightarrow> ct_specs (catalog_apply demo_codec (now, UpsertOne (demo_app True i) actor) C) = ct_specs C @ [demo_row i now]"
  by (simp add: committed_to_def upsert_one_def upsert_in_tx_def upsert_audit_action_def Let_def demo_row_def fresh_row_def)

lemma signature_detects_writes_witness:
  "catalog_signature (catalog_run demo_codec [(6, UpsertOne (demo_app True ''c'') None)] (demo_catalog [(''a'', 5)]))
     \<noteq> catalog_signature (demo_catalog [(''a'', 5)])"
proof
  assume "catalog_signature (catalog_run demo_codec [(6, UpsertOne (demo_app True ''c'') None)] (demo_catalog [(''a'', 5)]))
     = catalog_signature (demo_catalog [(''a'', 5)])"
  from signature_detects_writes [OF _ _ this]
  have "ct_specs (catalog_run demo_codec [(6, UpsertOne (demo_app True ''c'') None)] (demo_catalog [(''a'', 5)])) = ct_specs (demo_catalog [(''a'', 5)])"
    by simp
  then show False by (simp add: catalog_run_def upsert_demo row_at_def del: catalog_apply.simps)
qed

text \<open>
  The order of the clock is needed: a node whose clock is behind deletes one app and creates another, and the
  signature stays as it was.
\<close>

lemma skewed_clock_hides_writes:
  "catalog_signature (catalog_run demo_codec [(8, DeleteOne ''b'' None), (7, UpsertOne (demo_app True ''c'') None)] (demo_catalog [(''a'', 9), (''b'', 5)]))
     = catalog_signature (demo_catalog [(''a'', 9), (''b'', 5)])
   \<and> ct_specs (catalog_run demo_codec [(8, DeleteOne ''b'' None), (7, UpsertOne (demo_app True ''c'') None)] (demo_catalog [(''a'', 9), (''b'', 5)]))
     \<noteq> ct_specs (demo_catalog [(''a'', 9), (''b'', 5)])"
  by (simp add: catalog_run_def committed_to_def upsert_one_def upsert_in_tx_def upsert_audit_action_def Let_def row_at_def
      delete_one_def catalog_audit_def record_image_def add_version_def catalog_signature_def demo_row_def fresh_row_def)

section \<open>Properties: the cached catalogue\<close>

text \<open>
  The admin pages read through the cache while the catalogue is written: a read whose two queries see the same
  tables, a read overtaken by a write between them, a read whose listing fails, or a write.
\<close>

datatype cache_event =
    Write timestamp catalog_op
  | Read
  | ReadOvertaken timestamp catalog_op
  | ReadListFails

definition listed_now :: "codec \<Rightarrow> spec list \<Rightarrow> catalog \<Rightarrow> spec list" where
  "listed_now cd yaml C = effective_specs (Some (specs_list_all cd C)) yaml"

fun cache_step :: "codec \<Rightarrow> spec list \<Rightarrow> cache_event \<Rightarrow> catalog \<times> catalog_cache \<Rightarrow> catalog \<times> catalog_cache" where
  "cache_step cd yaml (Write now op) (C, cache) = (catalog_apply cd (now, op) C, cache)"
| "cache_step cd yaml Read (C, cache) =
     (C, snd (effective_specs_cached (Some (Inr (catalog_signature C))) (specs_list_all cd C) yaml cache))"
| "cache_step cd yaml (ReadOvertaken now op) (C, cache) =
     (let C' = catalog_apply cd (now, op) C
      in (C', snd (effective_specs_cached (Some (Inr (catalog_signature C))) (specs_list_all cd C') yaml cache)))"
| "cache_step cd yaml ReadListFails (C, cache) =
     (C, snd (effective_specs_cached (Some (Inr (catalog_signature C))) (Inl ''list all specs'') yaml cache))"

definition cache_run :: "codec \<Rightarrow> spec list \<Rightarrow> cache_event list \<Rightarrow> catalog \<times> catalog_cache \<Rightarrow> catalog \<times> catalog_cache" where
  "cache_run cd yaml es s = fold (cache_step cd yaml) es s"

text \<open>Writes in the order of a clock, all later than the rows; reads that see one state of the tables.\<close>

fun orderly :: "timestamp \<Rightarrow> cache_event list \<Rightarrow> bool" where
  "orderly t [] \<longleftrightarrow> True"
| "orderly t (Write now _ # es) \<longleftrightarrow> t < now \<and> orderly now es"
| "orderly t (Read # es) \<longleftrightarrow> orderly t es"
| "orderly t (_ # es) \<longleftrightarrow> False"

definition rows_until :: "timestamp \<Rightarrow> catalog \<Rightarrow> bool" where
  "rows_until t C \<longleftrightarrow> distinct (map rw_id (ct_specs C)) \<and> (\<forall>r \<in> set (ct_specs C). rw_updated_at r \<le> t)"

definition timely :: "timestamp \<Rightarrow> timestamp \<Rightarrow> spec_row list \<Rightarrow> bool" where
  "timely t now rs \<longleftrightarrow> distinct (map rw_id rs) \<and> (\<forall>r \<in> set rs. rw_updated_at r \<le> t \<or> rw_updated_at r = now)"

lemma row_change_timely: "row_change now rs rs' \<Longrightarrow> timely t now rs \<Longrightarrow> timely t now rs'"
  unfolding timely_def
proof (intro conjI; (elim conjE)?)
  assume "row_change now rs rs'" "distinct (map rw_id rs)"
  then show "distinct (map rw_id rs')" by (rule row_change_distinct)
next
  assume "row_change now rs rs'" "\<forall>r \<in> set rs. rw_updated_at r \<le> t \<or> rw_updated_at r = now"
  then show "\<forall>r \<in> set rs'. rw_updated_at r \<le> t \<or> rw_updated_at r = now"
    by (induction rule: row_change.induct) auto
qed

lemma rows_until_apply:
  assumes "rows_until t C" and "t < now"
  shows "rows_until now (catalog_apply cd (now, op) C)"
proof -
  have "timely t now rs'" if "(row_change now)\<^sup>*\<^sup>* rs rs'" "timely t now rs" for rs rs'
    using that by (induction rule: rtranclp_induct) (auto intro: row_change_timely)
  from this [OF catalog_apply_rows [of now C cd op]] assms(1)
  have "timely t now (ct_specs (catalog_apply cd (now, op) C))" by (simp add: rows_until_def timely_def)
  moreover have "x \<le> now" if "x \<le> t \<or> x = now" for x :: timestamp using that assms(2) by auto
  ultimately show ?thesis unfolding rows_until_def timely_def by metis
qed

text \<open>What is cached was listed from an earlier catalogue, from which orderly writes lead to the present one.\<close>

definition cached_from :: "codec \<Rightarrow> spec list \<Rightarrow> timestamp \<Rightarrow> catalog \<Rightarrow> catalog_signature \<times> spec list \<Rightarrow> bool" where
  "cached_from cd yaml t C p \<longleftrightarrow> (\<exists>C0 es. p = (catalog_signature C0, listed_now cd yaml C0)
     \<and> rows_until t C0 \<and> C = catalog_run cd es C0 \<and> (\<forall>r \<in> set (ct_specs C0). \<forall>e \<in> set es. rw_updated_at r < fst e))"

definition cache_inv :: "codec \<Rightarrow> spec list \<Rightarrow> timestamp \<Rightarrow> catalog \<times> catalog_cache \<Rightarrow> bool" where
  "cache_inv cd yaml t s \<longleftrightarrow> (case s of (C, cache) \<Rightarrow> rows_until t C \<and>
     (case cache of None \<Rightarrow> True | Some p \<Rightarrow> cached_from cd yaml t C p))"

lemma listed_now_rows: "ct_specs C = ct_specs C' \<Longrightarrow> listed_now cd yaml C = listed_now cd yaml C'"
  by (simp add: listed_now_def specs_list_all_def)

lemma cached_now: "rows_until t C \<Longrightarrow> cached_from cd yaml t C (catalog_signature C, listed_now cd yaml C)"
  unfolding cached_from_def by (intro exI [of _ C] exI [of _ "[]"]) (simp add: catalog_run_def)

lemma cached_write:
  assumes "cached_from cd yaml t C p" and "t < now"
  shows "cached_from cd yaml now (catalog_apply cd (now, op) C) p"
proof -
  from assms(1) obtain C0 es where *: "p = (catalog_signature C0, listed_now cd yaml C0)" "rows_until t C0"
    "C = catalog_run cd es C0" "\<forall>r \<in> set (ct_specs C0). \<forall>e \<in> set es. rw_updated_at r < fst e"
    unfolding cached_from_def by blast
  then have "catalog_apply cd (now, op) C = catalog_run cd (es @ [(now, op)]) C0" by (simp add: catalog_run_def)
  moreover have "\<forall>r \<in> set (ct_specs C0). \<forall>e \<in> set (es @ [(now, op)]). rw_updated_at r < fst e"
    using * assms(2) by (auto simp: rows_until_def)
  moreover have "rows_until now C0" using *(2) assms(2) by (force simp: rows_until_def)
  ultimately show ?thesis unfolding cached_from_def using *(1) by blast
qed

lemma cache_hit:
  assumes "cached_from cd yaml t C (catalog_signature C, specs)"
  shows "specs = listed_now cd yaml C"
proof -
  from assms obtain C0 es where *: "catalog_signature C = catalog_signature C0" "specs = listed_now cd yaml C0" "rows_until t C0"
    "C = catalog_run cd es C0" "\<forall>r \<in> set (ct_specs C0). \<forall>e \<in> set es. rw_updated_at r < fst e"
    unfolding cached_from_def by blast
  with signature_unchanged [of C0 es cd] have "ct_specs C = ct_specs C0" by (simp add: rows_until_def)
  with *(2) listed_now_rows show ?thesis by metis
qed

lemma cache_step_inv:
  assumes "cache_inv cd yaml t (C, cache)" and "orderly t (e # es)"
  shows "\<exists>t'. orderly t' es \<and> cache_inv cd yaml t' (cache_step cd yaml e (C, cache))"
proof (cases e)
  case (Write now op)
  with assms have "t < now" "orderly now es" and "rows_until t C" by (auto simp: cache_inv_def)
  with Write assms(1) rows_until_apply [of t C now cd op] show ?thesis
    by (intro exI [of _ now]) (auto simp: cache_inv_def cached_write split: option.splits)
next
  case Read
  with assms cached_now [of t C cd yaml] show ?thesis
    by (intro exI [of _ t]) (auto simp: cache_inv_def effective_specs_cached_def listed_now_def Let_def split: option.splits)
qed (use assms in simp_all)

lemma cache_run_inv:
  "cache_inv cd yaml t s \<Longrightarrow> orderly t es \<Longrightarrow> \<exists>t'. cache_inv cd yaml t' (cache_run cd yaml es s)"
proof (induction es arbitrary: t s)
  case Nil
  then show ?case by (auto simp: cache_run_def)
next
  case (Cons e es)
  obtain C cache where s: "s = (C, cache)" by (cases s)
  from cache_step_inv [OF Cons.prems(1) [unfolded s] Cons.prems(2)] Cons.IH show ?case
    by (fastforce simp: cache_run_def s)
qed

text \<open>
  C12: The cached catalogue of the admin pages is the catalogue. After any interleaving of writes in the order of
  their clock and reads that see one state of the tables, from an empty cache, the next read serves what
  listing the table now would give (the specs of the database, then those of the YAML with other ids).
\<close>

theorem cached_catalogue_is_current:
  assumes "rows_until t C" and "orderly t es" and "cache_run cd yaml es (C, None) = (C', cache)"
  shows "fst (effective_specs_cached (Some (Inr (catalog_signature C'))) (specs_list_all cd C') yaml cache) = listed_now cd yaml C'"
proof -
  have "cache_inv cd yaml t (C, None)" using assms(1) by (simp add: cache_inv_def)
  from cache_run_inv [OF this assms(2)] assms(3) obtain t' where "cache_inv cd yaml t' (C', cache)" by auto
  then show ?thesis
    by (auto simp: cache_inv_def effective_specs_cached_def listed_now_def Let_def split: option.splits
        dest!: cache_hit [unfolded listed_now_def])
qed

text \<open>
  Neither restriction can go. A read overtaken by a creation that is then undone keeps the deleted app for
  good: the signature is that of before. A listing that fails is kept too, and the database's apps stay hidden.
\<close>

lemma demo_signature [simp]: "catalog_signature (demo_catalog [(i, now)]) = (1, 1, Some now)"
  by (simp add: catalog_signature_def)

lemma list_demo [simp]: "specs_list_all demo_codec (demo_catalog [(i, now)]) = Inr [demo_app True i]"
  by (simp add: specs_list_all_def)

lemma overtaken_read_is_served:
  "let C = demo_catalog [(''a'', 5)];
       (C', cache) = cache_run demo_codec [] [ReadOvertaken 6 (UpsertOne (demo_app True ''b'') None), Write 7 (DeleteOne ''b'' None)] (C, None)
   in ct_specs C' = ct_specs C
     \<and> fst (effective_specs_cached (Some (Inr (catalog_signature C'))) (specs_list_all demo_codec C') [] cache) = [demo_app True ''a'', demo_app True ''b'']"
  by (simp add: cache_run_def committed_to_def upsert_one_def upsert_in_tx_def upsert_audit_action_def Let_def row_at_def
      delete_one_def catalog_audit_def record_image_def add_version_def catalog_signature_def effective_specs_cached_def
      effective_specs_def specs_list_all_def demo_row_def fresh_row_def demo_catalog_def)

lemma failed_listing_is_served:
  "let C = demo_catalog [(''a'', 5)]; (C', cache) = cache_run demo_codec [] [ReadListFails] (C, None)
   in C' = C \<and> fst (effective_specs_cached (Some (Inr (catalog_signature C'))) (specs_list_all demo_codec C') [] cache) = []"
  by (simp add: cache_run_def effective_specs_cached_def effective_specs_def)

lemma cached_catalogue_is_current_witness:
  "\<exists>C' cache. cache_run demo_codec [] [Read, Write 6 (UpsertOne (demo_app True ''b'') None)] (demo_catalog [(''a'', 5)], None) = (C', cache)
     \<and> fst (effective_specs_cached (Some (Inr (catalog_signature C'))) (specs_list_all demo_codec C') [] cache) = [demo_app True ''a'', demo_app True ''b'']"
proof -
  obtain C' cache where r: "cache_run demo_codec [] [Read, Write 6 (UpsertOne (demo_app True ''b'') None)] (demo_catalog [(''a'', 5)], None) = (C', cache)"
    by fastforce
  then have C': "ct_specs C' = [demo_row ''a'' 5, demo_row ''b'' 6]"
    by (auto simp: cache_run_def upsert_demo row_at_def simp del: catalog_apply.simps)
  have "rows_until 5 (demo_catalog [(''a'', 5)])" by (simp add: rows_until_def)
  from cached_catalogue_is_current [OF this _ r] have
    "fst (effective_specs_cached (Some (Inr (catalog_signature C'))) (specs_list_all demo_codec C') [] cache) = listed_now demo_codec [] C'"
    by simp
  also have "\<dots> = [demo_app True ''a'', demo_app True ''b'']" by (simp add: listed_now_def effective_specs_def specs_list_all_def C')
  finally show ?thesis using r by blast
qed

section \<open>Properties: one rule for one app and for all\<close>

lemma decode_rows_Inr:
  "decode_rows cd rs = Inr sps \<longleftrightarrow> list_all2 (\<lambda>r sp. cd_decode cd (rw_json r) = Some sp) rs sps"
proof (induction rs arbitrary: sps)
  case (Cons r rs)
  then show ?case by (cases sps) (auto simp flip: Cons.IH split: option.splits sum.splits)
qed auto

lemma find_decoded:
  "list_all2 (\<lambda>r sp. cd_decode cd (rw_json r) = Some sp) rs sps \<Longrightarrow> \<forall>r \<in> set rs. columns_ok cd r \<Longrightarrow>
     List.find (\<lambda>s. sp_id s = i) sps
       = (case List.find (\<lambda>r. rw_id r = i) rs of None \<Rightarrow> None | Some r \<Rightarrow> cd_decode cd (rw_json r))"
  by (induction rule: list_all2_induct) (auto simp: columns_ok_def)

lemma find_append: "List.find P (xs @ ys) = (case List.find P xs of Some x \<Rightarrow> Some x | None \<Rightarrow> List.find P ys)"
  by (induction xs) auto

lemma find_same_set:
  assumes "distinct (map rw_id xs)" and "set xs = set ys" and "distinct (map rw_id ys)"
  shows "List.find (\<lambda>r. rw_id r = i) xs = List.find (\<lambda>r. rw_id r = i) ys"
proof (cases "List.find (\<lambda>r. rw_id r = i) xs")
  case None
  with assms(2) show ?thesis by (metis find_None_iff')
next
  case (Some x)
  from find_Some_mem [OF Some] have x: "x \<in> set xs" "rw_id x = i" by auto
  then obtain y where y: "List.find (\<lambda>r. rw_id r = i) ys = Some y"
    using assms(2) by (cases "List.find (\<lambda>r. rw_id r = i) ys") (auto simp: find_None_iff')
  with find_Some_mem [OF y] x assms row_unique [of xs x y] Some show ?thesis by auto
qed

lemma list_all_ids:
  assumes "catalog_wf cd C" and "specs_list_all cd C = Inr sps"
  shows "List.find (\<lambda>s. sp_id s = i) sps = (case row_at i C of None \<Rightarrow> None | Some r \<Rightarrow> cd_decode cd (rw_json r))"
proof -
  let ?rs = "sort_key rw_created_at (sort_key rw_id (ct_specs C))"
  have "set ?rs = set (ct_specs C)" by simp
  moreover from assms(1) have "distinct (map rw_id (ct_specs C))" by (simp add: catalog_wf_def)
  moreover from this have "distinct (map rw_id ?rs)"
    by (metis distinct_map distinct_sort calculation distinct_map set_sort)
  ultimately have "List.find (\<lambda>r. rw_id r = i) ?rs = row_at i C" unfolding row_at_def by (intro find_same_set) auto
  moreover have "list_all2 (\<lambda>r sp. cd_decode cd (rw_json r) = Some sp) ?rs sps"
    using assms(2) by (simp add: specs_list_all_def decode_rows_Inr)
  moreover have "\<forall>r \<in> set ?rs. columns_ok cd r" using assms(1) by (simp add: catalog_wf_def)
  ultimately show ?thesis using find_decoded [of cd ?rs sps i] by simp
qed

text \<open>
  C32: The catalogue the scaler, the sweeper and the dashboard act on and the look-up of the proxy follow one rule.
  Over well-formed tables whose rows all decode, looking an id up in the effective catalogue gives what the
  proxy's own query gives: the database's app if it has one, else the YAML's.
\<close>

theorem effective_specs_is_find_spec:
  assumes "catalog_wf cd C" and "specs_list_all cd C = Inr sps"
  shows "List.find (\<lambda>s. sp_id s = i) (effective_specs (Some (specs_list_all cd C)) yaml) = load_spec (Some (fetch_one cd i C)) yaml i"
proof -
  note ids = list_all_ids [OF assms]
  have yaml: "List.find (\<lambda>s. sp_id s = i) (filter (\<lambda>s. sp_id s \<notin> sp_id ` set sps) yaml) = List.find (\<lambda>s. sp_id s = i) yaml"
    if "List.find (\<lambda>s. sp_id s = i) sps = None"
    using that by (induction yaml) (auto simp: find_None_iff' image_iff)
  have "columns_ok cd r" if "row_at i C = Some r" for r using row_at_Some [OF that] assms(1) by (simp add: catalog_wf_def)
  then show ?thesis using ids yaml
    by (fastforce simp: assms(2) effective_specs_def find_append load_spec_def fetch_one_def columns_ok_def split: option.splits)
qed

text \<open>A row that does not decode hides every app of the database from the catalogue, not from the look-up.\<close>

lemma one_bad_row_hides_all:
  "let C = (demo_catalog [(''a'', 5)])\<lparr>ct_specs := [demo_row ''a'' 5, (demo_row ''b'' 6)\<lparr>rw_json := []\<rparr>]\<rparr>
   in effective_specs (Some (specs_list_all demo_codec C)) [] = []
     \<and> load_spec (Some (fetch_one demo_codec ''a'' C)) [] ''a'' = Some (demo_app True ''a'')"
  by (simp add: effective_specs_def specs_list_all_def load_spec_def fetch_one_def row_at_def demo_codec_def)

lemma effective_specs_is_find_spec_witness:
  "List.find (\<lambda>s. sp_id s = ''a'') (effective_specs (Some (specs_list_all demo_codec (catalog_run demo_codec [(5, UpsertOne (demo_app True ''a'') None)] empty_catalog))) [])
     = Some (demo_app True ''a'')"
proof -
  let ?C = "catalog_run demo_codec [(5, UpsertOne (demo_app True ''a'') None)] empty_catalog"
  have rows: "ct_specs ?C = [demo_row ''a'' 5]"
    by (simp add: catalog_run_def upsert_demo row_at_def empty_catalog_def del: catalog_apply.simps)
  have "catalog_wf demo_codec ?C"
    by (simp add: catalog_run_wf demo_codec_ok)
  moreover have "specs_list_all demo_codec ?C = Inr [demo_app True ''a'']" by (simp add: specs_list_all_def rows)
  ultimately show ?thesis
    using effective_specs_is_find_spec [of demo_codec ?C "[demo_app True ''a'']" "''a''" "[]"]
    by (simp add: load_spec_def fetch_one_def row_at_def rows)
qed

section \<open>Properties: importing again\<close>

definition holds_spec :: "codec \<Rightarrow> catalog \<Rightarrow> spec \<Rightarrow> bool" where
  "holds_spec cd C sp \<longleftrightarrow> map_option rw_json (row_at (sp_id sp) C) = cd_encode cd sp \<and> cd_encode cd sp \<noteq> None
     \<and> (case sp_container_image sp of None \<Rightarrow> True | Some raw \<Rightarrow> trim raw = [] \<or> trim raw \<in> fst ` set (ct_images C))"

lemma upsert_held: "holds_spec cd C sp \<Longrightarrow> upsert_in_tx cd now sp C = Inr (Unchanged, C)"
proof -
  assume h: "holds_spec cd C sp"
  then have "record_image now sp C = C" by (auto simp: holds_spec_def record_image_def Let_def split: option.splits)
  with h show ?thesis by (auto simp: holds_spec_def upsert_in_tx_def Let_def)
qed

lemma import_held:
  "\<forall>sp \<in> set sps. holds_spec cd C sp \<Longrightarrow>
     import_specs cd now sps (rep, C) = Inr (rep\<lparr>im_unchanged := im_unchanged rep + length sps\<rparr>, C)"
  by (induction sps arbitrary: rep) (auto simp: upsert_held tally_def)

lemma row_at_add: "row_at i (add_version k v j now w C) = row_at i C"
  by (simp add: row_at_def)

lemma row_at_set_row:
  "(\<And>x. rw_id (upd x) = rw_id x) \<Longrightarrow> row_at i (set_row k upd C) = map_option (\<lambda>r. if i = k then upd r else r) (row_at i C)"
proof -
  assume "\<And>x. rw_id (upd x) = rw_id x"
  then have "List.find (\<lambda>r. rw_id r = i) (map (\<lambda>r. if rw_id r = k then upd r else r) rs)
      = map_option (\<lambda>r. if i = k then upd r else r) (List.find (\<lambda>r. rw_id r = i) rs)" for rs
    by (induction rs) auto
  then show ?thesis by (simp add: row_at_def)
qed

lemma row_at_append: "row_at i (D\<lparr>ct_specs := ct_specs C @ [x]\<rparr>) = (case row_at i C of Some r \<Rightarrow> Some r | None \<Rightarrow> if rw_id x = i then Some x else None)"
  by (simp add: row_at_def find_append split: option.splits)

lemma upsert_row_at:
  assumes "upsert_in_tx cd now sp C = Inr (oc, C')"
  shows "map_option rw_json (row_at i C') = (if i = sp_id sp then cd_encode cd sp else map_option rw_json (row_at i C))"
proof -
  from assms obtain j where "cd_encode cd sp = Some j" by (auto simp: upsert_in_tx_def split: option.splits)
  with assms show ?thesis
    by (auto simp: upsert_in_tx_def Let_def row_at_add row_at_set_row row_at_append option.map_comp o_def
        split: option.splits if_splits dest: row_at_Some)
qed

lemma upsert_images:
  assumes "upsert_in_tx cd now sp C = Inr (oc, C')"
  shows "ct_images C' = ct_images (record_image now sp C)"
  using assms by (auto simp: upsert_in_tx_def Let_def add_version_def set_row_def split: option.splits if_splits)

lemma record_image_grows: "set (ct_images C) \<subseteq> set (ct_images (record_image now sp C))"
  by (auto simp: record_image_def Let_def split: option.splits)

lemma upsert_holds: "upsert_in_tx cd now sp C = Inr (oc, C') \<Longrightarrow> holds_spec cd C' sp"
  using upsert_row_at [of cd now sp C oc C' "sp_id sp"] upsert_images [of cd now sp C oc C']
  by (auto simp: holds_spec_def upsert_in_tx_def record_image_def Let_def split: option.splits)

lemma upsert_keeps: "upsert_in_tx cd now sp C = Inr (oc, C') \<Longrightarrow> holds_spec cd C x \<Longrightarrow> sp_id x \<noteq> sp_id sp \<Longrightarrow> holds_spec cd C' x"
  using upsert_row_at [of cd now sp C oc C' "sp_id x"] upsert_images [of cd now sp C oc C'] record_image_grows [of C now sp]
  by (fastforce simp: holds_spec_def split: option.splits)

lemma import_holds:
  "import_specs cd now sps (rep, C) = Inr (rep', C') \<Longrightarrow> distinct (map sp_id sps) \<Longrightarrow>
     (\<forall>x \<in> set sps. holds_spec cd C' x) \<and> (\<forall>x. holds_spec cd C x \<longrightarrow> sp_id x \<notin> sp_id ` set sps \<longrightarrow> holds_spec cd C' x)"
proof (induction sps arbitrary: rep C)
  case (Cons sp sps)
  then obtain oc C1 where 1: "upsert_in_tx cd now sp C = Inr (oc, C1)" "import_specs cd now sps (tally rep oc, C1) = Inr (rep', C')"
    by (auto split: sum.splits)
  from Cons.IH [OF 1(2)] Cons.prems(2) upsert_holds [OF 1(1)] upsert_keeps [OF 1(1)] show ?case by auto
qed simp

text \<open>
  Importing is idempotent. When an import of apps with distinct ids succeeds, importing the same list again
  changes nothing but the audit log, at any later time: every app is counted unchanged, no version is added, and the
  rows, the history and the images stay as they are.
\<close>

theorem import_twice:
  assumes "import_selected cd now specs ids C = Inr (rep, C1)" and "distinct (map sp_id specs)"
  shows "import_selected cd later specs ids C1
    = Inr (\<lparr>im_created = 0, im_updated = 0, im_unchanged = length (filter (\<lambda>s. sp_id s \<in> set ids) specs)\<rparr>,
        catalog_audit None ''spec.import'' None later C1)"
proof -
  let ?sps = "filter (\<lambda>s. sp_id s \<in> set ids) specs"
  from assms(1) obtain C' where C': "import_specs cd now ?sps (no_imports, C) = Inr (rep, C')"
    and C1: "C1 = catalog_audit None ''spec.import'' None now C'" by (auto simp: import_selected_def split: sum.splits)
  have "\<forall>sp \<in> set ?sps. holds_spec cd C' sp" using import_holds [OF C'] assms(2) by (simp add: distinct_map_filter)
  moreover have "row_at i C1 = row_at i C'" for i by (simp add: C1 row_at_def)
  moreover have "ct_images C1 = ct_images C'" by (simp add: C1 catalog_audit_def)
  ultimately have "\<forall>sp \<in> set ?sps. holds_spec cd C1 sp" by (simp only: holds_spec_def)
  from import_held [OF this, of later no_imports] show ?thesis by (simp add: import_selected_def no_imports_def)
qed

lemma import_twice_witness:
  "\<exists>C1. import_selected demo_codec 1 [demo_app True ''a'', demo_app True ''b''] [''a''] empty_catalog = Inr (\<lparr>im_created = 1, im_updated = 0, im_unchanged = 0\<rparr>, C1)
     \<and> import_selected demo_codec 9 [demo_app True ''a'', demo_app True ''b''] [''a''] C1
       = Inr (\<lparr>im_created = 0, im_updated = 0, im_unchanged = 1\<rparr>, catalog_audit None ''spec.import'' None 9 C1)"
proof -
  have "\<exists>C1. import_selected demo_codec 1 [demo_app True ''a'', demo_app True ''b''] [''a''] empty_catalog
      = Inr (\<lparr>im_created = 1, im_updated = 0, im_unchanged = 0\<rparr>, C1)"
    by (simp add: import_selected_def upsert_in_tx_def record_image_def empty_catalog_def row_at_def Let_def tally_def no_imports_def)
  then obtain C1 where 1: "import_selected demo_codec 1 [demo_app True ''a'', demo_app True ''b''] [''a''] empty_catalog
      = Inr (\<lparr>im_created = 1, im_updated = 0, im_unchanged = 0\<rparr>, C1)" ..
  from import_twice [OF 1, of 9] 1 show ?thesis by (intro exI [of _ C1]) simp
qed

end
