(* ===== verification/Proxy_Forward.thy ===== *)
theory Proxy_Forward
  imports Spawn_Lock Proxy_Headers Identity_Cache Spec_Store Session_Store Access_Counter Rate_Limiter Admin_Auth
begin

text \<open>
  One request through the proxy (\<open>forward\<close> and \<open>do_forward\<close> of \<open>crates/ruscker-admin/src/routes/proxy.rs\<close>, with the
  handshake of \<open>crates/ruscker-proxy/src/ws.rs\<close>): the guards in their order, the cold-start page, the choice of
  the replica, the session, and the request the container gets. Every guard is a stage that answers or
  lets the request through. What the outside answers goes with the request; bodies, the content type of the proxy's own
  answers and the records of activity are left out, and a spawn in the background runs where it is started.
\<close>

section \<open>A request, its surroundings and the state\<close>

record app_request =
  rq_prefix :: string
  rq_spec :: string
  rq_path :: string
  rq_uri :: string
  rq_query :: "string option"
  rq_method :: string
  rq_headers :: headers
  rq_peer :: "string option"
  rq_ws :: bool
  rq_session :: "session_info option"
  rq_cookies :: "string \<rightharpoonup> string"

text \<open>A request to a container, and what it answers.\<close>

record outbound =
  ob_url :: string
  ob_method :: string
  ob_headers :: headers
  ob_cap :: "nat option"

record container_reply =
  co_status :: nat
  co_headers :: headers

record 'b surroundings =
  fe_backend :: "'b outside option"
  fe_fetched :: "(string + spec option) option"
  fe_yaml :: "spec list"
  fe_identity :: "cached_identity option"
  fe_mfa :: "mfa_db option"
  fe_crypto :: mfa_crypto
  fe_clock :: nat
  fe_wall :: timestamp
  fe_today :: string
  fe_server :: server
  fe_global :: proxy_config
  fe_base :: string
  fe_decode :: "string \<Rightarrow> sticky_error + sticky_session"
  fe_seal :: "sticky_session \<Rightarrow> sticky_error + string"
  fe_fresh :: uuid
  fe_parse_ip :: "string \<Rightarrow> string option"
  fe_percent :: "string \<Rightarrow> string"
  fe_audit_fails :: bool
  fe_url_ok :: "string \<Rightarrow> bool"
  fe_http :: "bool \<Rightarrow> outbound \<Rightarrow> string + container_reply"
  fe_ws :: "outbound \<Rightarrow> string + string option"

record 'b front =
  fr_world :: "'b world"
  fr_turn :: u64
  fr_specs :: "string \<rightharpoonup> spec \<times> nat"
  fr_identity :: identity_cache
  fr_limiter :: limiter
  fr_access :: access_counter
  fr_logout :: "string \<rightharpoonup> uuid list"
  fr_bypass :: "(string \<times> string, nat) table"
  fr_bypass_rows :: "string list"

record sticky_set =
  sk_name :: string
  sk_value :: string
  sk_path :: string
  sk_http_only :: bool
  sk_same_site_lax :: bool
  sk_secure :: bool
  sk_max_age_hours :: nat

record delivery =
  dv_request :: outbound
  dv_reply :: container_reply
  dv_rewrite :: "(string \<times> string) option"
  dv_sticky :: "sticky_set option"
  dv_expire_legacy :: bool

datatype forward_reply =
    Answered nat headers
  | SentTo string
  | Probed bool
  | Splashed bool
  | Upgraded outbound "string option"
  | Delivered delivery

text \<open>A stage answers or goes on.\<close>

definition stage :: "(forward_reply + 'a) \<times> 's \<Rightarrow> ('a \<Rightarrow> 's \<Rightarrow> forward_reply \<times> 's) \<Rightarrow> forward_reply \<times> 's" where
  "stage r k = (case r of (Inl reply, s) \<Rightarrow> (reply, s) | (Inr x, s) \<Rightarrow> k x s)"

abbreviation plain :: headers where "plain \<equiv> \<lambda>_. []"

section \<open>The app and the policies of an API\<close>

definition acting_user :: "app_request \<Rightarrow> string option" where
  "acting_user rq = Option.bind (rq_session rq) si_actor"

definition record_access :: "'b surroundings \<Rightarrow> string \<Rightarrow> 'b front \<Rightarrow> 'b front" where
  "record_access env i fd =
     (if fe_fetched env \<noteq> None then fd\<lparr>fr_access := ac_bump (fe_today env) i (fr_access fd)\<rparr> else fd)"

definition spec_stage :: "'b surroundings \<Rightarrow> app_request \<Rightarrow> 'b front \<Rightarrow> (forward_reply + spec) \<times> 'b front" where
  "spec_stage env rq fd =
     (case find_spec (fe_clock env) (fe_clock env) (load_spec (fe_fetched env) (fe_yaml env) (rq_spec rq)) (rq_spec rq) (fr_specs fd) of
        (None, cache) \<Rightarrow> (Inl (Answered 404 plain), fd\<lparr>fr_specs := cache\<rparr>)
      | (Some sp, cache) \<Rightarrow>
          (let fd1 = fd\<lparr>fr_specs := cache\<rparr> in
           if spec_kind_of sp = External
           then (case tp_get_str (sp_template_properties sp) ''link'' of
               Some target \<Rightarrow> (Inl (SentTo target), record_access env (sp_id sp) fd1)
             | None \<Rightarrow> (Inl (Answered 404 plain), fd1))
           else (Inr sp, fd1)))"

definition api_of :: "app_request \<Rightarrow> spec \<Rightarrow> api_spec option" where
  "api_of rq sp = (if rq_prefix rq = API_PREFIX then sp_api sp else None)"

definition cors_on :: "app_request \<Rightarrow> spec \<Rightarrow> bool" where
  "cors_on rq sp = (case api_of rq sp of None \<Rightarrow> False | Some a \<Rightarrow> api_cors a)"

definition with_cors :: "headers \<Rightarrow> bool \<Rightarrow> headers" where
  "with_cors h enabled = (if enabled then apply_cors_headers h else h)"

definition cors_preflight_response :: forward_reply where
  "cors_preflight_response = Answered 204 (apply_cors_headers plain)"

definition api_stage :: "'b surroundings \<Rightarrow> app_request \<Rightarrow> spec \<Rightarrow> 'b front \<Rightarrow> (forward_reply + unit) \<times> 'b front" where
  "api_stage env rq sp fd =
     (case api_of rq sp of
        None \<Rightarrow> (Inr (), fd)
      | Some a \<Rightarrow>
          if api_cors a \<and> rq_method rq = ''OPTIONS'' then (Inl cors_preflight_response, fd)
          else (case rate_policy_of a of
              None \<Rightarrow> (Inr (), fd)
            | Some policy \<Rightarrow>
                (case rl_check (fe_clock env) (sp_id sp)
                    (client_key (fe_parse_ip env) (fe_server env) (rq_headers rq) (rq_peer rq)) policy (fr_limiter fd) of
                   (Deny retry, l) \<Rightarrow>
                     (Inl (Answered 429 (with_cors (hm_insert ''retry-after'' (show_nat retry) plain) (api_cors a))), fd\<lparr>fr_limiter := l\<rparr>)
                 | (Allow, l) \<Rightarrow> (Inr (), fd\<lparr>fr_limiter := l\<rparr>))))"

text \<open>\<open>i64::from_str\<close>.\<close>

definition parse_i64 :: "string \<Rightarrow> int option" where
  "parse_i64 s =
     (case s of
        c # ds \<Rightarrow>
          if c = CHR ''-''
          then (if ds \<noteq> [] \<and> list_all is_digit ds \<and> dec_val ds \<le> 2 ^ 63 then Some (- int (dec_val ds)) else None)
          else map_option int (parse_unsigned 63 s)
      | [] \<Rightarrow> None)"

definition body_limit :: "'b surroundings \<Rightarrow> spec \<Rightarrow> int option" where
  "body_limit env sp = effective_max_body_bytes sp (max_body_bytes (fe_global env))"

definition body_stage :: "'b surroundings \<Rightarrow> app_request \<Rightarrow> spec \<Rightarrow> forward_reply option" where
  "body_stage env rq sp =
     (case (body_limit env sp, Option.bind (Option.bind (hm_get ''content-length'' (rq_headers rq)) to_str) parse_i64) of
        (Some limit, Some len) \<Rightarrow> if len > limit then Some (Answered 413 (with_cors plain (cors_on rq sp))) else None
      | _ \<Rightarrow> None)"

text \<open>\<open>usize::try_from\<close> of the limit, the largest \<open>usize\<close> for a negative one.\<close>

definition body_cap :: "int option \<Rightarrow> nat option" where
  "body_cap limit = map_option (\<lambda>l. if l < 0 then 2 ^ 64 - 1 else nat l) limit"

section \<open>Who the visitor is, and access\<close>

definition resolve_identity :: "'b surroundings \<Rightarrow> string \<Rightarrow> 'b front \<Rightarrow> cached_identity \<times> 'b front" where
  "resolve_identity env username fd =
     (case resolve_start (fe_clock env) username (fr_identity fd) of
        Inl i \<Rightarrow> (i, fd)
      | Inr g \<Rightarrow>
          (case resolve_finish (fe_clock env) g username (fe_identity env) (fr_identity fd) of
             (i, c) \<Rightarrow> (i, fd\<lparr>fr_identity := c\<rparr>)))"

definition identity_stage :: "'b surroundings \<Rightarrow> app_request \<Rightarrow> spec \<Rightarrow> 'b front \<Rightarrow> identity option \<times> 'b front" where
  "identity_stage env rq sp fd =
     (case acting_user rq of
        Some username \<Rightarrow>
          if \<not> is_open sp \<or> effective_add_default_http_headers sp \<or> effective_identity_claims sp \<noteq> []
          then (case resolve_identity env username fd of (i, fd1) \<Rightarrow>
            (Some \<lparr>idn_username = username, idn_groups = ci_groups i, idn_email = ci_email i, idn_setor = ci_setor i\<rparr>, fd1))
          else (None, fd)
      | None \<Rightarrow> (None, fd))"

definition identity_headers :: "identity option \<Rightarrow> spec \<Rightarrow> (string \<times> string) list" where
  "identity_headers idn sp =
     (case idn of None \<Rightarrow> []
      | Some i \<Rightarrow> header_pairs i (effective_add_default_http_headers sp) (effective_identity_claims sp))"

definition is_admin :: "app_request \<Rightarrow> bool" where
  "is_admin rq = (case rq_session rq of None \<Rightarrow> False | Some s \<Rightarrow> si_role s = Admin)"

definition access_stage :: "'b surroundings \<Rightarrow> app_request \<Rightarrow> spec \<Rightarrow> identity option \<Rightarrow> forward_reply option" where
  "access_stage env rq sp idn =
     (if is_open sp then None
      else if access_allows sp (is_admin rq) (acting_user rq) (case idn of None \<Rightarrow> [] | Some i \<Rightarrow> idn_groups i) then None
      else if rq_prefix rq = APP_PREFIX \<and> rq_session rq = None
      then (if rq_ws rq then Some (Answered 401 plain)
            else Some (SentTo (with_next_query (fe_percent env) (fe_base env @ ''/admin/login'') (rq_uri rq))))
      else Some (Answered 403 (with_cors plain (cors_on rq sp))))"

section \<open>The second factor\<close>

definition mfa_app_next :: "string \<Rightarrow> app_request \<Rightarrow> string" where
  "mfa_app_next spec_id rq =
     (case local_next_path (Some (rq_uri rq)) of
        Some n \<Rightarrow> n
      | None \<Rightarrow>
          (let fallback = APP_PREFIX @ spec_id @ rq_path rq @ (case rq_query rq of None \<Rightarrow> [] | Some q \<Rightarrow> ''?'' @ q)
           in unwrap_or ''/'' (local_next_path (Some fallback))))"

definition mfa_app_redirect :: "'b surroundings \<Rightarrow> string \<Rightarrow> app_request \<Rightarrow> string \<Rightarrow> forward_reply" where
  "mfa_app_redirect env spec_id rq path =
     SentTo (with_next_query (fe_percent env) (fe_base env @ path) (mfa_app_next spec_id rq))"

definition bypass_cooldown :: nat where "bypass_cooldown = secs (15 * 60)"
definition bypass_cap :: nat where "bypass_cap = 256"

definition audit_mfa_break_glass_bypass :: "'b surroundings \<Rightarrow> string \<Rightarrow> string \<Rightarrow> 'b front \<Rightarrow> 'b front" where
  "audit_mfa_break_glass_bypass env session_id spec_id fd =
     (let key = (session_id, spec_id); now = fe_clock env;
          recent = (\<lambda>t0. now - t0 < bypass_cooldown)
      in if (case table_get (fr_bypass fd) key of Some t0 \<Rightarrow> recent t0 | None \<Rightarrow> False) then fd
         else (let t = table_put key now (fr_bypass fd);
                   t1 = (if length t > bypass_cap then table_retain (\<lambda>_ t0. recent t0) t else t)
           in if fe_fetched env = None \<or> fe_audit_fails env then fd\<lparr>fr_bypass := table_del key t1\<rparr>
              else fd\<lparr>fr_bypass := t1, fr_bypass_rows := fr_bypass_rows fd @ [''spec:'' @ spec_id]\<rparr>))"

definition mfa_refusal :: "'b surroundings \<Rightarrow> app_request \<Rightarrow> spec \<Rightarrow> nat \<Rightarrow> string \<Rightarrow> forward_reply" where
  "mfa_refusal env rq sp api_status path =
     (if rq_prefix rq = API_PREFIX then Answered api_status (with_cors plain (cors_on rq sp))
      else if rq_ws rq then Answered 401 plain
      else mfa_app_redirect env (sp_id sp) rq path)"

definition break_glass :: "app_request \<Rightarrow> bool" where
  "break_glass rq = (case rq_session rq of None \<Rightarrow> False | Some s \<Rightarrow> si_role s = Admin \<and> si_actor s = None)"

definition mfa_stage :: "'b surroundings \<Rightarrow> app_request \<Rightarrow> spec \<Rightarrow> 'b front \<Rightarrow> (forward_reply + unit) \<times> 'b front" where
  "mfa_stage env rq sp fd =
     (if \<not> effective_require_mfa sp then (Inr (), fd)
      else (let session_id = rq_cookies rq ''ruscker_admin_session'' in
        if break_glass rq
        then (Inr (), audit_mfa_break_glass_bypass env (unwrap_or ''missing-session-cookie'' session_id) (sp_id sp) fd)
        else (case rq_session rq of
            None \<Rightarrow> (Inl (mfa_refusal env rq sp 401 ''/admin/login''), fd)
          | Some s \<Rightarrow>
              (case (si_actor s, session_id) of
                 (Some username, Some sid) \<Rightarrow>
                   (case evaluate (fe_crypto env) (fe_wall env) (fe_mfa env) username sid (rq_cookies rq) sp of
                      Satisfied \<Rightarrow> (Inr (), fd)
                    | EnrollmentRequired \<Rightarrow> (Inl (mfa_refusal env rq sp 403 ''/admin/account/mfa''), fd)
                    | ChallengeRequired \<Rightarrow> (Inl (mfa_refusal env rq sp 403 ''/admin/account/mfa/challenge''), fd))
               | _ \<Rightarrow> (Inl (Answered 403 (with_cors plain (cors_on rq sp))), fd)))))"

section \<open>The cold start\<close>

definition wants_html :: "headers \<Rightarrow> bool" where
  "wants_html h = (case Option.bind (hm_get ''accept'' h) to_str of None \<Rightarrow> False | Some a \<Rightarrow> contains_str ''text/html'' a)"

definition COLD_PROBE_PATH :: string where "COLD_PROBE_PATH = ''/__ruscker_ready''"

text \<open>Whether a visitor can be served: a free seat, or a seat of its own.\<close>

definition serveable :: "'b surroundings \<Rightarrow> app_request \<Rightarrow> spec \<Rightarrow> 'b front \<Rightarrow> bool \<times> 'b front" where
  "serveable env rq sp fd =
     (case has_ready_replica sp (fr_world fd, fr_turn fd) of (ready, (w, turn)) \<Rightarrow>
        (ready \<or> has_sticky_seat (fe_decode env) sp (rq_cookies rq) (w_reg w), fd\<lparr>fr_world := w, fr_turn := turn\<rparr>))"

definition cold_stage :: "'b surroundings \<Rightarrow> app_request \<Rightarrow> spec \<Rightarrow> 'b front \<Rightarrow> (forward_reply + unit) \<times> 'b front" where
  "cold_stage env rq sp fd =
     (if rq_prefix rq \<noteq> APP_PREFIX \<or> rq_ws rq then (Inr (), fd)
      else if rq_path rq = COLD_PROBE_PATH then (case serveable env rq sp fd of (ok, fd1) \<Rightarrow> (Inl (Probed ok), fd1))
      else if rq_method rq = ''GET'' \<and> wants_html (rq_headers rq)
      then (case serveable env rq sp fd of (ok, fd1) \<Rightarrow>
          if ok then (Inr (), fd1)
          else (let full = at_capacity sp (w_reg (fr_world fd1)) in
            (Inl (Splashed full),
             if full then fd1 else fd1\<lparr>fr_world := snd (ensure_replica_available (fe_backend env) sp (fr_world fd1))\<rparr>)))
      else (Inr (), fd))"

section \<open>The replica and the session\<close>

definition route_stage :: "'b surroundings \<Rightarrow> app_request \<Rightarrow> spec \<Rightarrow> 'b front \<Rightarrow> (forward_reply + routed) \<times> 'b front" where
  "route_stage env rq sp fd =
     (case resolve_replica (fe_decode env) (fe_fresh env) (fe_backend env) sp (rq_cookies rq) (wants_html (rq_headers rq))
         (fr_world fd, fr_turn fd) of
        (Inl e, (w, turn)) \<Rightarrow> (Inl (Answered 502 (with_cors plain (cors_on rq sp))), fd\<lparr>fr_world := w, fr_turn := turn\<rparr>)
      | (Inr rt, (w, turn)) \<Rightarrow> (Inr rt, fd\<lparr>fr_world := w, fr_turn := turn\<rparr>))"

definition index_logout :: "app_request \<Rightarrow> spec \<Rightarrow> uuid \<Rightarrow> 'b front \<Rightarrow> 'b front" where
  "index_logout rq sp sid fd =
     (if effective_stop_on_logout sp
      then (case acting_user rq of None \<Rightarrow> fd
        | Some user \<Rightarrow> fd\<lparr>fr_logout := (fr_logout fd)(user \<mapsto> List.insert sid (unwrap_or [] (fr_logout fd user)))\<rparr>)
      else fd)"

definition session_step :: "'b surroundings \<Rightarrow> app_request \<Rightarrow> spec \<Rightarrow> routed \<Rightarrow> 'b front \<Rightarrow> 'b front" where
  "session_step env rq sp rt fd =
     (if rt_track rt \<and> needs_sticky_sessions sp
      then (let w = fr_world fd in
        case touch_or_register (fe_clock env) (rt_session rt) (sp_id sp) (r_id (rt_replica rt)) (rt_reserved rt) (w_sessions w, w_reg w) of
          (out, st, reg) \<Rightarrow>
            (let fd1 = fd\<lparr>fr_world := w\<lparr>w_sessions := st, w_reg := reg\<rparr>\<rparr> in
             if out = Registered then index_logout rq sp (rt_session rt) fd1 else fd1))
      else fd)"

text \<open>What follows a container that cannot be reached: whether it is gone.\<close>

definition recover :: "'b surroundings \<Rightarrow> spec \<Rightarrow> replica \<Rightarrow> 'b front \<Rightarrow> bool \<times> 'b front" where
  "recover env sp r fd =
     (case reap_if_confirmed_dead (fe_backend env) r (fr_world fd) of (gone, w) \<Rightarrow>
        (gone, fd\<lparr>fr_world := (if gone then kick_replacement_spawn (fe_backend env) sp w else w)\<rparr>))"

section \<open>WebSockets\<close>

text \<open>\<open>connect_with_headers\<close>: the handshake starts from no header of the client.\<close>

definition connect_with_headers :: "string \<Rightarrow> string option \<Rightarrow> string option \<Rightarrow> (string \<times> string) list \<Rightarrow> outbound" where
  "connect_with_headers url cookie subprotocols extra =
     (let h1 = (case Option.bind cookie value_from_str of Some v \<Rightarrow> hm_insert ''cookie'' v plain | None \<Rightarrow> plain);
          h2 = (case Option.bind subprotocols value_from_str of Some v \<Rightarrow> hm_insert ''sec-websocket-protocol'' v h1 | None \<Rightarrow> h1)
      in \<lparr>ob_url = url, ob_method = ''GET'', ob_headers = insert_identity extra h2, ob_cap = None\<rparr>)"

definition query_suffix :: "app_request \<Rightarrow> string" where
  "query_suffix rq = (case rq_query rq of None \<Rightarrow> [] | Some q \<Rightarrow> ''?'' @ q)"

definition ws_request :: "app_request \<Rightarrow> replica \<Rightarrow> (string \<times> string) list \<Rightarrow> outbound" where
  "ws_request rq r pairs =
     (let h = strip_reserved_identity_headers (rq_headers rq) in
      connect_with_headers (''ws://'' @ r_upstream r @ rq_path rq @ query_suffix rq)
        (Option.bind (Option.bind (hm_get ''cookie'' h) to_str) filter_ruscker_cookies)
        (Option.bind (hm_get ''sec-websocket-protocol'' h) to_str) pairs)"

definition ws_branch :: "'b surroundings \<Rightarrow> app_request \<Rightarrow> spec \<Rightarrow> routed \<Rightarrow> (string \<times> string) list \<Rightarrow> 'b front \<Rightarrow> forward_reply \<times> 'b front" where
  "ws_branch env rq sp rt pairs fd =
     (let ob = ws_request rq (rt_replica rt) pairs in
      case fe_ws env ob of
        Inr chosen \<Rightarrow> (Upgraded ob chosen, fd)
      | Inl e \<Rightarrow> (Answered 502 (with_cors plain (cors_on rq sp)), snd (recover env sp (rt_replica rt) fd)))"

section \<open>HTTP\<close>

definition do_forward :: "'b surroundings \<Rightarrow> app_request \<Rightarrow> replica \<Rightarrow> string \<Rightarrow> bool \<Rightarrow> headers \<Rightarrow> nat option \<Rightarrow> (string \<times> string) list \<Rightarrow>
    string + outbound \<times> container_reply" where
  "do_forward env rq r pre is_https h cap pairs =
     (let url = ''http://'' @ r_upstream r @ rq_path rq @ query_suffix rq;
          ob = \<lparr>ob_url = url, ob_method = rq_method rq, ob_headers = upstream_headers pairs pre is_https h, ob_cap = cap\<rparr>;
          answer = (\<lambda>o1 c. Inr (o1, c\<lparr>co_headers := downstream_headers (co_headers c)\<rparr>))
      in if \<not> fe_url_ok env url then Inl ''build upstream uri''
         else (case fe_http env False ob of
             Inr c \<Rightarrow> answer ob c
           | Inl e \<Rightarrow>
               if rq_method rq = ''GET'' \<or> rq_method rq = ''HEAD''
               then (let again = ob\<lparr>ob_cap := None\<rparr> in
                 case fe_http env True again of Inr c \<Rightarrow> answer again c | Inl e2 \<Rightarrow> Inl e2)
               else Inl e))"

definition set_sticky_cookie :: "'b surroundings \<Rightarrow> sticky_session \<Rightarrow> string \<Rightarrow> bool \<Rightarrow> sticky_set option" where
  "set_sticky_cookie env session mount_path is_https =
     (case fe_seal env session of
        Inl e \<Rightarrow> None
      | Inr v \<Rightarrow> Some \<lparr>sk_name = cookie_name (ssn_spec session), sk_value = v, sk_path = mount_path, sk_http_only = True,
          sk_same_site_lax = True, sk_secure = is_https, sk_max_age_hours = 8\<rparr>)"

definition transforms_html :: "app_request \<Rightarrow> spec \<Rightarrow> bool" where
  "transforms_html rq sp \<longleftrightarrow> rq_prefix rq = APP_PREFIX \<and> effective_inject_base_href sp"

definition http_headers :: "'b surroundings \<Rightarrow> app_request \<Rightarrow> spec \<Rightarrow> headers" where
  "http_headers env rq sp =
     forwarded_for (forward_headers_trusted (fe_server env)) (rq_peer rq)
       (if transforms_html rq sp then hm_insert ''accept-encoding'' ''identity'' (rq_headers rq) else rq_headers rq)"

definition gauge_up :: "app_request \<Rightarrow> replica \<Rightarrow> 'b front \<Rightarrow> 'b front" where
  "gauge_up rq r fd =
     (if rq_prefix rq = API_PREFIX then fd\<lparr>fr_world := (fr_world fd)\<lparr>w_inflight := guard_new (r_id r) (w_inflight (fr_world fd))\<rparr>\<rparr> else fd)"

definition gauge_down :: "app_request \<Rightarrow> replica \<Rightarrow> 'b front \<Rightarrow> 'b front" where
  "gauge_down rq r fd =
     (if rq_prefix rq = API_PREFIX then fd\<lparr>fr_world := (fr_world fd)\<lparr>w_inflight := guard_drop (r_id r) (w_inflight (fr_world fd))\<rparr>\<rparr> else fd)"

definition http_branch :: "'b surroundings \<Rightarrow> app_request \<Rightarrow> spec \<Rightarrow> routed \<Rightarrow> (string \<times> string) list \<Rightarrow> 'b front \<Rightarrow> forward_reply \<times> 'b front" where
  "http_branch env rq sp rt pairs fd =
     (let r = rt_replica rt; pre = mount_prefix (fe_base env) (rq_prefix rq) (sp_id sp);
          is_https = request_is_https (rq_headers rq) (forward_headers_trusted (fe_server env));
          fd1 = gauge_up rq r fd
      in case do_forward env rq r pre is_https (http_headers env rq sp) (body_cap (body_limit env sp)) pairs of
           Inl e \<Rightarrow>
             (case recover env sp r fd1 of (gone, fd2) \<Rightarrow>
                (if gone \<and> rq_method rq = ''GET'' \<and> wants_html (rq_headers rq) then Splashed False
                 else Answered 502 (with_cors plain (cors_on rq sp)), gauge_down rq r fd2))
         | Inr (ob, c) \<Rightarrow>
             (let fresh = \<not> rt_cookie_used rt \<and> needs_sticky_sessions sp;
                  fd2 = (if fresh then record_access env (sp_id sp) fd1 else fd1);
                  fd3 = (if spec_kind_of sp = Api then record_access env (sp_id sp) fd2 else fd2)
              in (Delivered \<lparr>dv_request = ob, dv_reply = c\<lparr>co_headers := with_cors (co_headers c) (cors_on rq sp)\<rparr>,
                    dv_rewrite = (if transforms_html rq sp then Some (fe_base env @ rq_prefix rq @ sp_id sp @ ''/'', r_upstream r) else None),
                    dv_sticky = (if fresh then set_sticky_cookie env \<lparr>ssn_id = rt_session rt, ssn_spec = sp_id sp, ssn_replica = r_id r\<rparr> pre is_https else None),
                    dv_expire_legacy = (rq_cookies rq COOKIE_NAME \<noteq> None)\<rparr>, fd3)))"

section \<open>The whole request\<close>

definition serve :: "'b surroundings \<Rightarrow> app_request \<Rightarrow> spec \<Rightarrow> (string \<times> string) list \<Rightarrow> 'b front \<Rightarrow> forward_reply \<times> 'b front" where
  "serve env rq sp pairs fd =
     (if fe_backend env = None then (Answered 503 (with_cors plain (cors_on rq sp)), fd)
      else stage (cold_stage env rq sp fd) (\<lambda>_ fd.
        stage (route_stage env rq sp fd) (\<lambda>rt fd.
          (if rq_ws rq then ws_branch else http_branch) env rq sp rt pairs (session_step env rq sp rt fd))))"

definition forward :: "'b surroundings \<Rightarrow> app_request \<Rightarrow> 'b front \<Rightarrow> forward_reply \<times> 'b front" where
  "forward env rq fd =
     stage (spec_stage env rq fd) (\<lambda>sp fd.
       stage (api_stage env rq sp fd) (\<lambda>_ fd.
         (case body_stage env rq sp of Some reply \<Rightarrow> (reply, fd) | None \<Rightarrow>
           (case identity_stage env rq sp fd of (idn, fd) \<Rightarrow>
             (case access_stage env rq sp idn of Some reply \<Rightarrow> (reply, fd) | None \<Rightarrow>
               stage (mfa_stage env rq sp fd) (\<lambda>_ fd. serve env rq sp (identity_headers idn sp) fd))))))"


section \<open>What the guards let through\<close>

definition app_of :: "'b surroundings \<Rightarrow> app_request \<Rightarrow> 'b front \<Rightarrow> spec option" where
  "app_of env rq fd =
     fst (find_spec (fe_clock env) (fe_clock env) (load_spec (fe_fetched env) (fe_yaml env) (rq_spec rq)) (rq_spec rq) (fr_specs fd))"

text \<open>The groups the signed-in visitor has by the cache or the database.\<close>

definition visitor_groups :: "'b surroundings \<Rightarrow> app_request \<Rightarrow> 'b front \<Rightarrow> string list" where
  "visitor_groups env rq fd =
     (case acting_user rq of None \<Rightarrow> [] | Some u \<Rightarrow> ci_groups (fst (resolve_identity env u fd)))"

definition access_granted :: "'b surroundings \<Rightarrow> app_request \<Rightarrow> spec \<Rightarrow> 'b front \<Rightarrow> bool" where
  "access_granted env rq sp fd \<longleftrightarrow> is_open sp \<or> access_allows sp (is_admin rq) (acting_user rq) (visitor_groups env rq fd)"

definition factor_proved :: "'b surroundings \<Rightarrow> app_request \<Rightarrow> spec \<Rightarrow> bool" where
  "factor_proved env rq sp \<longleftrightarrow> \<not> effective_require_mfa sp \<or> break_glass rq
     \<or> (\<exists>u sid. acting_user rq = Some u \<and> rq_cookies rq ''ruscker_admin_session'' = Some sid
          \<and> evaluate (fe_crypto env) (fe_wall env) (fe_mfa env) u sid (rq_cookies rq) sp = Satisfied)"

definition within_rate :: "'b surroundings \<Rightarrow> app_request \<Rightarrow> spec \<Rightarrow> 'b front \<Rightarrow> bool" where
  "within_rate env rq sp fd \<longleftrightarrow> rq_prefix rq = API_PREFIX \<longrightarrow>
     (\<forall>a policy. sp_api sp = Some a \<longrightarrow> rate_policy_of a = Some policy \<longrightarrow>
        fst (rl_check (fe_clock env) (sp_id sp) (client_key (fe_parse_ip env) (fe_server env) (rq_headers rq) (rq_peer rq)) policy (fr_limiter fd)) = Allow)"

definition within_size :: "'b surroundings \<Rightarrow> app_request \<Rightarrow> spec \<Rightarrow> bool" where
  "within_size env rq sp \<longleftrightarrow> (\<forall>limit v len. body_limit env sp = Some limit \<longrightarrow> hm_get ''content-length'' (rq_headers rq) = Some v \<longrightarrow>
     Option.bind (to_str v) parse_i64 = Some len \<longrightarrow> len \<le> limit)"

text \<open>The headers of the request a container got, if one did.\<close>

fun sent_headers :: "forward_reply \<Rightarrow> headers option" where
  "sent_headers (Upgraded ob _) = Some (ob_headers ob)"
| "sent_headers (Delivered d) = Some (ob_headers (dv_request d))"
| "sent_headers _ = None"

lemma spec_stage_Inr:
  "spec_stage env rq fd = (Inr sp, fd1) \<Longrightarrow> app_of env rq fd = Some sp \<and> spec_kind_of sp \<noteq> External \<and> (\<exists>c. fd1 = fd\<lparr>fr_specs := c\<rparr>)"
  by (auto simp: spec_stage_def app_of_def Let_def split: option.splits prod.splits if_splits)

lemma spec_stage_Inl:
  "spec_stage env rq fd = (Inl reply, fd1) \<Longrightarrow> sent_headers reply = None \<and> fr_world fd1 = fr_world fd \<and> fr_turn fd1 = fr_turn fd"
  by (auto simp: spec_stage_def Let_def record_access_def split: option.splits prod.splits if_splits)

lemma api_stage_Inr: "api_stage env rq sp fd = (Inr x, fd1) \<Longrightarrow> within_rate env rq sp fd \<and> (\<exists>l. fd1 = fd\<lparr>fr_limiter := l\<rparr>)"
proof (cases "api_of rq sp")
  case None
  then show "api_stage env rq sp fd = (Inr x, fd1) \<Longrightarrow> ?thesis"
    by (auto simp: api_stage_def api_of_def within_rate_def intro: exI [of _ "fr_limiter fd"] split: if_splits)
next
  case (Some a)
  then have a: "sp_api sp = Some a" by (auto simp: api_of_def split: if_splits)
  assume eq: "api_stage env rq sp fd = (Inr x, fd1)"
  show ?thesis
  proof (cases "rate_policy_of a")
    case None
    with eq Some a show ?thesis
      by (auto simp: api_stage_def within_rate_def intro: exI [of _ "fr_limiter fd"] split: if_splits)
  next
    case (Some policy)
    obtain d l where d: "rl_check (fe_clock env) (sp_id sp) (client_key (fe_parse_ip env) (fe_server env) (rq_headers rq) (rq_peer rq))
        policy (fr_limiter fd) = (d, l)" by fastforce
    with eq Some a \<open>api_of rq sp = Some a\<close> show ?thesis
      by (cases d) (auto simp: api_stage_def within_rate_def split: if_splits)
  qed
qed

text \<open>The policies of an API hold under \<open>/api/\<close> only: the same app under \<open>/app/\<close> has no rate limit, CORS or in-flight count.\<close>

lemma app_route_skips_api_policy:
  "rq_prefix rq = APP_PREFIX \<Longrightarrow> api_stage env rq sp fd = (Inr (), fd) \<and> gauge_up rq r fd = fd \<and> \<not> cors_on rq sp"
  by (simp add: api_stage_def api_of_def cors_on_def gauge_up_def API_PREFIX_def APP_PREFIX_def)

lemma api_stage_Inl:
  "api_stage env rq sp fd = (Inl reply, fd1) \<Longrightarrow> sent_headers reply = None \<and> fr_world fd1 = fr_world fd \<and> fr_turn fd1 = fr_turn fd"
  by (auto simp: api_stage_def cors_preflight_response_def Let_def split: option.splits prod.splits if_splits rate_decision.splits)

lemma body_stage_cases:
  "body_stage env rq sp = None \<Longrightarrow> within_size env rq sp"
  "body_stage env rq sp = Some reply \<Longrightarrow> sent_headers reply = None"
  by (auto simp: body_stage_def within_size_def split: option.splits if_splits)

lemma resolve_identity_frame:
  "fr_world (snd (resolve_identity env u fd)) = fr_world fd" "fr_turn (snd (resolve_identity env u fd)) = fr_turn fd"
  by (simp_all add: resolve_identity_def split: sum.split prod.split)

lemma resolve_identity_cong:
  "fr_identity fd = fr_identity fd2 \<Longrightarrow> fst (resolve_identity env u fd) = fst (resolve_identity env u fd2)"
  by (simp add: resolve_identity_def split: sum.split prod.split)

lemma identity_stage_cases:
  assumes "identity_stage env rq sp fd = (idn, fd1)"
  shows "fr_world fd1 = fr_world fd \<and> fr_turn fd1 = fr_turn fd
    \<and> (\<forall>i. idn = Some i \<longrightarrow> acting_user rq = Some (idn_username i) \<and> idn_groups i = visitor_groups env rq fd)
    \<and> (\<not> is_open sp \<longrightarrow> (case idn of None \<Rightarrow> [] | Some i \<Rightarrow> idn_groups i) = visitor_groups env rq fd)"
  using assms resolve_identity_frame [of env "the (acting_user rq)" fd]
  by (auto simp: identity_stage_def visitor_groups_def split: option.splits prod.splits if_splits)

lemma access_stage_cases:
  "access_stage env rq sp idn = None \<Longrightarrow>
     is_open sp \<or> access_allows sp (is_admin rq) (acting_user rq) (case idn of None \<Rightarrow> [] | Some i \<Rightarrow> idn_groups i)"
  "access_stage env rq sp idn = Some reply \<Longrightarrow> sent_headers reply = None"
  by (auto simp: access_stage_def split: if_splits)

lemma audit_frame [simp]:
  "fr_world (audit_mfa_break_glass_bypass env s i fd) = fr_world fd" "fr_turn (audit_mfa_break_glass_bypass env s i fd) = fr_turn fd"
  by (simp_all add: audit_mfa_break_glass_bypass_def Let_def)

lemma mfa_refusal_unsent [simp]: "sent_headers (mfa_refusal env rq sp n path) = None"
  by (simp add: mfa_refusal_def mfa_app_redirect_def)

lemma mfa_stage_cases:
  assumes "mfa_stage env rq sp fd = (res, fd1)"
  shows "fr_world fd1 = fr_world fd \<and> fr_turn fd1 = fr_turn fd
    \<and> (case res of Inr _ \<Rightarrow> factor_proved env rq sp | Inl reply \<Rightarrow> sent_headers reply = None)"
  using assms
  by (auto simp: mfa_stage_def factor_proved_def acting_user_def Let_def split: option.splits if_splits mfa_decision.splits)

text \<open>Either a guard refuses and nothing happens, or all let the request through.\<close>

lemma forward_cases:
  obtains (refused) "sent_headers (fst (forward env rq fd)) = None" "fr_world (snd (forward env rq fd)) = fr_world fd"
      "fr_turn (snd (forward env rq fd)) = fr_turn fd"
  | (served) sp idn fd1 where "forward env rq fd = serve env rq sp (identity_headers idn sp) fd1"
      "app_of env rq fd = Some sp" "spec_kind_of sp \<noteq> External" "within_rate env rq sp fd" "within_size env rq sp"
      "access_granted env rq sp fd" "factor_proved env rq sp" "fr_world fd1 = fr_world fd" "fr_turn fd1 = fr_turn fd"
      "\<forall>i. idn = Some i \<longrightarrow> acting_user rq = Some (idn_username i) \<and> idn_groups i = visitor_groups env rq fd"
proof -
  obtain r1 fd1 where s1: "spec_stage env rq fd = (r1, fd1)" by fastforce
  show ?thesis
  proof (cases r1)
    case (Inl reply)
    with s1 spec_stage_Inl [OF s1 [unfolded Inl]] show ?thesis by (intro refused) (simp_all add: forward_def stage_def)
  next
    case (Inr sp)
    note p1 = spec_stage_Inr [OF s1 [unfolded Inr]]
    obtain r2 fd2 where s2: "api_stage env rq sp fd1 = (r2, fd2)" by fastforce
    show ?thesis
    proof (cases r2)
      case (Inl reply)
      with s1 s2 \<open>r1 = Inr sp\<close> p1 api_stage_Inl [OF s2 [unfolded Inl]] show ?thesis
        by (intro refused) (auto simp: forward_def stage_def)
    next
      case (Inr u)
      note p2 = api_stage_Inr [OF s2 [unfolded Inr]]
      obtain idn fd3 where s3: "identity_stage env rq sp fd2 = (idn, fd3)" by fastforce
      note p3 = identity_stage_cases [OF s3]
      obtain r4 fd4 where s4: "mfa_stage env rq sp fd3 = (r4, fd4)" by fastforce
      note p4 = mfa_stage_cases [OF s4]
      have eq: "forward env rq fd = (case body_stage env rq sp of Some reply \<Rightarrow> (reply, fd2) | None \<Rightarrow>
          (case access_stage env rq sp idn of Some reply \<Rightarrow> (reply, fd3) | None \<Rightarrow>
             stage (r4, fd4) (\<lambda>_ fd. serve env rq sp (identity_headers idn sp) fd)))"
        using s1 s2 s3 s4 \<open>r1 = Inr sp\<close> Inr by (simp add: forward_def stage_def split: option.split)
      have same: "fr_world fd2 = fr_world fd" "fr_turn fd2 = fr_turn fd" "fr_identity fd2 = fr_identity fd"
        "fr_limiter fd1 = fr_limiter fd" using p1 p2 by auto
      have groups: "visitor_groups env rq fd2 = visitor_groups env rq fd"
        using resolve_identity_cong [OF same(3)] by (simp add: visitor_groups_def split: option.split)
      show ?thesis
      proof (cases "body_stage env rq sp")
        case (Some reply)
        with eq same body_stage_cases(2) show ?thesis by (intro refused) simp_all
      next
        case small: None
        show ?thesis
        proof (cases "access_stage env rq sp idn")
          case (Some reply)
          with eq small same p3 access_stage_cases(2) show ?thesis by (intro refused) simp_all
        next
          case None
          note granted = access_stage_cases(1) [OF None]
          show ?thesis
          proof (cases r4)
            case (Inl reply)
            with eq small None same p3 p4 show ?thesis by (intro refused) (simp_all add: stage_def)
          next
            case (Inr v)
            show ?thesis
            proof (rule served [of sp idn fd4])
              show "forward env rq fd = serve env rq sp (identity_headers idn sp) fd4"
                using eq small None Inr by (simp add: stage_def)
              show "access_granted env rq sp fd" using granted p3 groups by (auto simp: access_granted_def)
            qed (use p1 p2 p3 p4 Inr same groups body_stage_cases(1) [OF small] in \<open>auto simp: within_rate_def\<close>)
          qed
        qed
      qed
    qed
  qed
qed


lemma cold_stage_Inl: "cold_stage env rq sp fd = (Inl reply, fd1) \<Longrightarrow> sent_headers reply = None"
  by (auto simp: cold_stage_def Let_def split: if_splits prod.splits)

lemma route_stage_Inl: "route_stage env rq sp fd = (Inl reply, fd1) \<Longrightarrow> sent_headers reply = None"
  by (auto simp: route_stage_def split: if_splits prod.splits sum.splits)

lemma do_forward_sent: "do_forward env rq r pre s h cap pairs = Inr (ob, c) \<Longrightarrow> ob_headers ob = upstream_headers pairs pre s h"
  by (auto simp: do_forward_def Let_def split: if_splits sum.splits)

lemma ws_branch_sent: "sent_headers (fst (ws_branch env rq sp rt pairs fd)) = Some h \<Longrightarrow> h = ob_headers (ws_request rq (rt_replica rt) pairs)"
  by (auto simp: ws_branch_def Let_def split: sum.splits)

lemma http_branch_sent:
  "sent_headers (fst (http_branch env rq sp rt pairs fd)) = Some h \<Longrightarrow> \<exists>h0 pre s. h = upstream_headers pairs pre s h0"
proof -
  let ?f = "do_forward env rq (rt_replica rt) (mount_prefix (fe_base env) (rq_prefix rq) (sp_id sp))
    (request_is_https (rq_headers rq) (forward_headers_trusted (fe_server env))) (http_headers env rq sp) (body_cap (body_limit env sp)) pairs"
  assume "sent_headers (fst (http_branch env rq sp rt pairs fd)) = Some h"
  then show ?thesis
    by (cases ?f) (auto simp: http_branch_def Let_def split: prod.splits if_splits dest: do_forward_sent)
qed

lemma serve_headers:
  assumes "sent_headers (fst (serve env rq sp pairs fd)) = Some h"
  shows "(\<exists>h0 pre s. h = upstream_headers pairs pre s h0) \<or> (\<exists>r. h = ob_headers (ws_request rq r pairs))"
proof -
  obtain r1 fd1 where c: "cold_stage env rq sp fd = (r1, fd1)" by fastforce
  obtain r2 fd2 where t: "route_stage env rq sp fd1 = (r2, fd2)" by fastforce
  obtain rt where "fe_backend env \<noteq> None" "r2 = Inr rt"
    and "sent_headers (fst ((if rq_ws rq then ws_branch else http_branch) env rq sp rt pairs (session_step env rq sp rt fd2))) = Some h"
    using assms c t cold_stage_Inl [of env rq sp fd] route_stage_Inl [of env rq sp fd1]
    by (auto simp: serve_def stage_def split: if_splits sum.splits)
  then show ?thesis by (cases "rq_ws rq") (auto dest: ws_branch_sent http_branch_sent)
qed

lemma ws_request_headers:
  "\<exists>g. ob_headers (ws_request rq r pairs) = insert_identity pairs g \<and> (\<forall>n. n \<noteq> ''cookie'' \<longrightarrow> n \<noteq> ''sec-websocket-protocol'' \<longrightarrow> g n = [])"
  unfolding ws_request_def connect_with_headers_def Let_def outbound.simps
  by (rule exI, rule conjI [OF refl]) (simp split: option.split)

text \<open>
  C11: Over both transports a container learns who visits from the proxy alone: a value it finds under a reserved identity
  name (\<open>X-SP-*\<close>, \<open>X-Ruscker-User-*\<close>) is one of the pairs made for the signed-in user of this very request, with the groups
  the proxy resolved, whatever headers the client sent; for an anonymous visitor there is none.
\<close>

theorem identity_is_the_visitors:
  assumes "forward env rq fd = (reply, fd')" and "sent_headers reply = Some h" and "reserved_identity n" and "v \<in> set (h n)"
  shows "\<exists>i sp m. acting_user rq = Some (idn_username i) \<and> idn_groups i = visitor_groups env rq fd
    \<and> app_of env rq fd = Some sp \<and> (m, v) \<in> set (identity_headers (Some i) sp) \<and> lowercase m = n"
proof (cases rule: forward_cases [of env rq fd])
  case (served sp idn fd1)
  have n: "n \<notin> {''cookie'', ''sec-websocket-protocol''}" using assms(3) by (auto simp: reserved_identity_def)
  have "sent_headers (fst (serve env rq sp (identity_headers idn sp) fd1)) = Some h" using served(1) assms(1,2) by (metis fst_conv)
  from serve_headers [OF this] have "\<exists>m. (m, v) \<in> set (identity_headers idn sp) \<and> lowercase m = n"
  proof (elim disjE exE)
    fix h0 pre s assume "h = upstream_headers (identity_headers idn sp) pre s h0"
    with upstream_identity [OF assms(3)] inserted_pairs_only [of "\<lambda>_. []" n] assms(4) show ?thesis by auto
  next
    fix r assume "h = ob_headers (ws_request rq r (identity_headers idn sp))"
    then obtain g where "h = insert_identity (identity_headers idn sp) g" "g n = []"
      using ws_request_headers [of rq r "identity_headers idn sp"] n by auto
    with inserted_pairs_only assms(4) show ?thesis by blast
  qed
  with served(2,10) show ?thesis by (cases idn) (auto simp: identity_headers_def)
qed (use assms in simp)

section \<open>A visit\<close>

text \<open>A restricted app of the roster, visited by \<open>ana\<close> of the group \<open>ops\<close> with a forged identity header.\<close>

definition visited_app :: spec where
  "visited_app = (roster_spec 0 2)\<lparr>sp_access_groups := Some [''ops''], sp_add_default_http_headers := Some True\<rparr>"

definition visit_env :: "string list surroundings" where
  "visit_env = \<lparr>fe_backend = Some roster_outside, fe_fetched = None, fe_yaml = [visited_app],
     fe_identity = Some \<lparr>ci_groups = [''ops''], ci_email = None, ci_setor = None\<rparr>, fe_mfa = None, fe_crypto = demo_crypto, fe_clock = 0, fe_wall = 0,
     fe_today = [], fe_server = \<lparr>srv_use_forward_headers = False, srv_forward_headers_strategy = None, srv_secure_cookies = False,
       srv_servlet = None, srv_flat_servlet_session_timeout = None, srv_context_path = None, srv_flat_servlet_context_path = None, srv_timezone = None\<rparr>,
     fe_global = proxy_default, fe_base = [], fe_decode = foreign_cookie, fe_seal = (\<lambda>s. Inr ''sealed''), fe_fresh = 7, fe_parse_ip = Some,
     fe_percent = id, fe_audit_fails = False, fe_url_ok = (\<lambda>_. True),
     fe_http = (\<lambda>_ _. Inr \<lparr>co_status = 200, co_headers = plain\<rparr>), fe_ws = (\<lambda>_. Inr None)\<rparr>"

definition visit :: app_request where
  "visit = \<lparr>rq_prefix = APP_PREFIX, rq_spec = ''app'', rq_path = ''/'', rq_uri = ''/app/app/'', rq_query = None, rq_method = ''GET'',
     rq_headers = plain(''x-sp-userid'' := [''root'']), rq_peer = None, rq_ws = False,
     rq_session = Some \<lparr>si_role = Viewer, si_actor = Some ''ana''\<rparr>, rq_cookies = Map.empty\<rparr>"

definition quiet_front :: "string list front" where
  "quiet_front = \<lparr>fr_world = roster_world [idle_replica 0] [''app''], fr_turn = 0, fr_specs = Map.empty, fr_identity = ic_empty,
     fr_limiter = rl_new, fr_access = ac_new, fr_logout = Map.empty, fr_bypass = [], fr_bypass_rows = []\<rparr>"

lemma visited_simps [simp]:
  "sp_id visited_app = ''app''" "spec_kind_of visited_app = Shiny" "sp_access_groups visited_app = Some [''ops'']"
  "sp_access_users visited_app = None" "\<not> is_open visited_app" "\<not> effective_require_mfa visited_app"
  "effective_add_default_http_headers visited_app" "effective_identity_claims visited_app = []" "sp_api visited_app = None"
  "effective_routing visited_app = LeastConnections" "effective_max_body_bytes visited_app None = None"
  by (simp_all add: visited_app_def roster_spec_def blank_spec_def spec_kind_of_def is_open_def effective_require_mfa_def
      effective_add_default_http_headers_def effective_identity_claims_def effective_routing_def effective_max_body_bytes_def or_option_def)

lemma visit_app: "spec_stage visit_env visit quiet_front = (Inr visited_app, quiet_front\<lparr>fr_specs := [''app'' \<mapsto> (visited_app, 0)]\<rparr>)"
  by (simp add: spec_stage_def find_spec_def load_spec_def visit_env_def visit_def quiet_front_def)

lemma visit_ungated: "api_of visit visited_app = None" "body_stage visit_env visit visited_app = None" "mfa_stage visit_env visit visited_app fd = (Inr (), fd)"
  by (simp_all add: api_of_def body_stage_def body_limit_def visit_def visit_env_def mfa_stage_def proxy_default_def max_body_bytes_def hm_get_def)

lemma visit_identity:
  "\<exists>fd. identity_stage visit_env visit visited_app (quiet_front\<lparr>fr_specs := m\<rparr>)
     = (Some \<lparr>idn_username = ''ana'', idn_groups = [''ops''], idn_email = None, idn_setor = None\<rparr>, fd) \<and> fr_world fd = fr_world quiet_front \<and> fr_turn fd = fr_turn quiet_front"
  by (simp add: identity_stage_def acting_user_def visit_def resolve_identity_def resolve_start_def resolve_finish_def ic_get_def ic_empty_def
      quiet_front_def visit_env_def)

definition visitor :: identity where
  "visitor = \<lparr>idn_username = ''ana'', idn_groups = [''ops''], idn_email = None, idn_setor = None\<rparr>"

lemma visit_served:
  "\<exists>fd. forward visit_env visit quiet_front = serve visit_env visit visited_app (identity_headers (Some visitor) visited_app) fd
     \<and> fr_world fd = fr_world quiet_front \<and> fr_turn fd = fr_turn quiet_front"
proof -
  obtain fd where i: "identity_stage visit_env visit visited_app (quiet_front\<lparr>fr_specs := [''app'' \<mapsto> (visited_app, 0)]\<rparr>) = (Some visitor, fd)"
    and "fr_world fd = fr_world quiet_front" "fr_turn fd = fr_turn quiet_front" using visit_identity unfolding visitor_def by blast
  moreover have "access_stage visit_env visit visited_app (Some visitor) = None"
    by (simp add: access_stage_def access_allows_def is_admin_def visit_def acting_user_def visitor_def)
  ultimately show ?thesis
    by (intro exI [of _ fd]) (simp add: forward_def stage_def visit_app api_stage_def visit_ungated)
qed

lemma idle_ready [simp]: "is_accepting (idle_replica i)"
  by (simp add: is_accepting_iff idle_replica_def)

lemma visit_delivered:
  "\<exists>h pre s h0. sent_headers (fst (forward visit_env visit quiet_front)) = Some h
     \<and> h = upstream_headers (identity_headers (Some visitor) visited_app) pre s h0"
proof -
  obtain fd where f: "forward visit_env visit quiet_front = serve visit_env visit visited_app (identity_headers (Some visitor) visited_app) fd"
    and fd: "fr_world fd = roster_world [idle_replica 0] [''app'']" "fr_turn fd = 0" using visit_served by (auto simp: quiet_front_def)
  have cold: "cold_stage visit_env visit visited_app fd = (Inr (), fd)"
    by (simp add: cold_stage_def visit_def wants_html_def hm_get_def APP_PREFIX_def COLD_PROBE_PATH_def)
  have not_html: "\<not> wants_html (rq_headers visit)" "rq_cookies visit = Map.empty" "rq_ws visit = False"
    by (simp_all add: wants_html_def hm_get_def visit_def)
  have pool: "pool_of visited_app (roster_world [idle_replica 0] [''app'']) = [idle_replica 0]" by (simp add: pool_of_def)
  obtain t where p: "pick_replica (w_inflight (fr_world fd)) [idle_replica 0] LeastConnections False 0 = (Some (idle_replica 0), t)"
    using idle_ready by (simp add: pick_replica_def pick_accepting_def select_def)
  have route: "route_stage visit_env visit visited_app fd = (Inr \<lparr>rt_replica = idle_replica 0, rt_session = 7, rt_cookie_used = True,
      rt_reserved = False, rt_track = False\<rparr>, fd\<lparr>fr_turn := t\<rparr>)"
    using p fd not_html by (simp add: route_stage_def resolve_replica_def sticky_target_def pool visit_env_def)
  have env: "fe_backend visit_env \<noteq> None" "fe_url_ok visit_env = (\<lambda>_. True)" "fe_http visit_env b ob = Inr \<lparr>co_status = 200, co_headers = plain\<rparr>"
    for b ob by (simp_all add: visit_env_def)
  show ?thesis unfolding f by (simp add: serve_def stage_def cold route not_html(3) http_branch_def do_forward_def Let_def env) blast
qed


lemma identity_is_the_visitors_witness:
  "\<exists>h (i :: identity). sent_headers (fst (forward visit_env visit quiet_front)) = Some h \<and> acting_user visit = Some (idn_username i)
     \<and> h ''x-sp-userid'' = [idn_username i]"
proof -
  obtain reply fd' where f: "forward visit_env visit quiet_front = (reply, fd')" by fastforce
  obtain h pre s h0 where h: "sent_headers reply = Some h" "h = upstream_headers (identity_headers (Some visitor) visited_app) pre s h0"
    using visit_delivered f by auto
  have r: "reserved_identity ''x-sp-userid''" by (simp add: reserved_identity_def)
  have ana: "h ''x-sp-userid'' = [''ana'']"
    by (simp add: h(2) upstream_identity [OF r] identity_headers_def header_pairs_def visitor_def insert_identity_def value_from_bytes_def
        hm_insert_def identity_names)
  have "''ana'' \<in> set (h ''x-sp-userid'')" by (simp add: ana)
  from identity_is_the_visitors [OF f h(1) r this] obtain i :: identity where "acting_user visit = Some (idn_username i)" by blast
  moreover have "acting_user visit = Some ''ana''" by (simp add: acting_user_def visit_def)
  ultimately have "idn_username i = ''ana''" "acting_user visit = Some (idn_username i)" by simp_all
  with f h(1) ana show ?thesis by (intro exI [of _ h] exI [of _ i]) simp
qed

end
