(* ===== verification/Proxy_Ledger.thy ===== *)
theory Proxy_Ledger
  imports Proxy_Forward
begin

text \<open>
  The seats a whole request of the proxy leaves behind: a seat reserved by the choice of a replica is taken over by the
  session the request registers, a request that fails gives back what it took by forgetting the replica, and the counters of
  all replicas agree with the sessions before and after. The contract of the backend is that of \<open>Scaler_Bounds\<close>.
\<close>

section \<open>The books\<close>

text \<open>
  \<open>res\<close> are the seats other requests have reserved: every counter is the number of its sessions and reservations, and sessions
  and reservations are of replicas the backend has started.
\<close>

definition booked :: "session_store \<Rightarrow> replica_id list \<Rightarrow> replica_id set" where
  "booked st res = (\<lambda>(_, e). se_replica e) ` set st \<union> set res"

definition settled :: "('b \<Rightarrow> replica_id \<rightharpoonup> string) \<Rightarrow> replica_id list \<Rightarrow> 'b world \<Rightarrow> bool" where
  "settled owner res w \<longleftrightarrow> world_ok owner w \<and> table_wf (w_sessions w) \<and> ledger (w_sessions w) res (w_reg w)
     \<and> booked (w_sessions w) res \<subseteq> dom (owner (w_out w))"

abbreviation started :: "('b \<Rightarrow> replica_id \<rightharpoonup> string) \<Rightarrow> 'b \<Rightarrow> 'b \<Rightarrow> bool" where
  "started \<equiv> Scaler_Bounds.grows"

definition roomy :: "'b world \<Rightarrow> bool" where
  "roomy w \<longleftrightarrow> (\<forall>i. has_room i (w_reg w))"

lemma started_dom: "started owner b b' \<Longrightarrow> dom (owner b) \<subseteq> dom (owner b')"
  unfolding Scaler_Bounds.grows_def by (rule map_le_implies_dom_le)

lemma settled_frame:
  assumes "settled owner res w" and "w_reg w' = w_reg w" and "w_sessions w' = w_sessions w" and "started owner (w_out w) (w_out w')"
  shows "settled owner res w'"
  using assms world_ok_out [of owner w w'] order_trans [OF _ started_dom [OF assms(4)]] unfolding settled_def by metis

lemma settled_none: "settled owner res w \<Longrightarrow> owner (w_out w) i = None \<Longrightarrow> seats (w_sessions w) res i = 0"
proof -
  assume s: "settled owner res w" and n: "owner (w_out w) i = None"
  then have "i \<notin> booked (w_sessions w) res" by (auto simp: settled_def)
  then have "i \<notin> set res" "\<forall>(sid, e) \<in> set (w_sessions w). se_replica e \<noteq> i" by (auto simp: booked_def)
  then show ?thesis by (auto simp: seats_def sessions_on_def table_sum_def count_list_zero_iff intro!: sum_list_0)
qed

lemma settled_add:
  assumes "settled owner res w" and "w_reg w' = reg_add r (w_reg w)" and "w_sessions w' = w_sessions w"
    and "started owner (w_out w) (w_out w')" and "owner (w_out w) (r_id r) = None" and "owner (w_out w') (r_id r) = Some (r_spec_id r)"
    and "r_sessions_active r = 0"
  shows "settled owner res w'"
proof -
  have mem: "set (reg_all (reg_add r (w_reg w))) = insert r (set (reg_all (w_reg w)))"
    by (metis reg_all_add_mset set_mset_add_mset_insert set_mset_mset)
  have ok: "world_ok owner w" using assms(1) by (simp add: settled_def)
  have "reg_wf (w_reg w')" unfolding assms(2) by (rule reg_wf_add [OF world_ok_wf [OF ok] fresh_id [OF ok assms(5)]])
  moreover have "\<forall>x \<in> set (reg_all (w_reg w')). owner (w_out w') (r_id x) = Some (r_spec_id x)"
    using ok assms(4,6) unfolding assms(2) mem by (force simp: world_ok_def Scaler_Bounds.grows_def map_le_def dom_def)
  moreover have "ledger (w_sessions w') res (w_reg w')"
    using assms(1,3,7) settled_none [OF assms(1,5)] unfolding ledger_def assms(2) mem by (auto simp: settled_def ledger_def)
  ultimately show ?thesis using assms(1,3) order_trans [OF _ started_dom [OF assms(4)]] unfolding settled_def world_ok_def by metis
qed

lemma world_ok_inc: "world_ok owner w \<Longrightarrow> w_reg w' = inc_sessions i (w_reg w) \<Longrightarrow> w_out w' = w_out w \<Longrightarrow> world_ok owner w'"
  by (auto simp: world_ok_def inc_sessions_def reg_wf_update reg_all_update)

lemma settled_reserve:
  assumes "settled owner res w" and "w_reg w' = inc_sessions i (w_reg w)" and "w_sessions w' = w_sessions w" and "w_out w' = w_out w"
    and "has_room i (w_reg w)" and "owner (w_out w) i \<noteq> None"
  shows "settled owner (i # res) w'"
proof -
  have "ledger (w_sessions w) (i # res) (inc_sessions i (w_reg w))"
    using assms(1,5) world_ok_wf by (intro ledger_inc [of _ "w_sessions w" res]) (auto simp: settled_def seats_def)
  then show ?thesis using assms world_ok_inc [OF _ assms(2,4)] by (auto simp: settled_def booked_def)
qed

text \<open>Registering a session: with a reserved seat, or without.\<close>

lemma settled_registers:
  assumes "settled owner (i # res) w" and "table_get (w_sessions w) sid = None"
  shows "settled owner res (w\<lparr>w_sessions := table_put sid \<lparr>se_spec = s, se_replica = i, se_last_seen = t\<rparr> (w_sessions w)\<rparr>)"
proof -
  let ?st = "table_put sid \<lparr>se_spec = s, se_replica = i, se_last_seen = t\<rparr> (w_sessions w)"
  have wf: "table_wf (w_sessions w)" using assms(1) by (simp add: settled_def)
  have "seats ?st res j = seats (w_sessions w) (i # res) j" for j
    using sessions_on_new [OF wf assms(2), of j "\<lparr>se_spec = s, se_replica = i, se_last_seen = t\<rparr>"] by (simp add: seats_def)
  then have "ledger ?st res (w_reg w)" using assms(1) by (simp add: settled_def ledger_def)
  moreover have "booked ?st res \<subseteq> booked (w_sessions w) (i # res)"
    using rows_put [of _ _ sid "\<lparr>se_spec = s, se_replica = i, se_last_seen = t\<rparr>" "w_sessions w"] by (force simp: booked_def)
  ultimately show ?thesis using assms(1) wf unfolding settled_def world_ok_def by auto
qed

lemma settled_touches:
  assumes "settled owner res w" and "table_get (w_sessions w) sid = Some e"
  shows "settled owner res (w\<lparr>w_sessions := table_put sid (e\<lparr>se_last_seen := t\<rparr>) (w_sessions w)\<rparr>)"
proof -
  let ?st = "table_put sid (e\<lparr>se_last_seen := t\<rparr>) (w_sessions w)"
  have wf: "table_wf (w_sessions w)" using assms(1) by (simp add: settled_def)
  have "seats ?st res j = seats (w_sessions w) res j" for j
    using sessions_on_touch [OF wf assms(2)] by (simp add: seats_def)
  then have "ledger ?st res (w_reg w)" using assms(1) by (simp add: settled_def ledger_def)
  moreover have "(sid, e) \<in> set (w_sessions w)" using wf assms(2) by (simp add: table_get_mem)
  then have "booked ?st res \<subseteq> booked (w_sessions w) res"
    using rows_put [of _ _ sid "e\<lparr>se_last_seen := t\<rparr>" "w_sessions w"] by (force simp: booked_def)
  ultimately show ?thesis using assms(1) wf unfolding settled_def world_ok_def by auto
qed

lemma settled_forget:
  assumes "settled owner res w"
  shows "settled owner res (snd (cleanup_replica_state i w))"
proof -
  have wf: "reg_wf (w_reg w)" "table_wf (w_sessions w)" "world_ok owner w" using assms world_ok_wf by (auto simp: settled_def)
  have "ledger (snd (drop_replica i (w_sessions w))) res (snd (reg_remove i (w_reg w)))"
    using assms by (intro ledger_forget wf) (simp add: settled_def)
  moreover have "booked (snd (drop_replica i (w_sessions w))) res \<subseteq> booked (w_sessions w) res"
    by (force simp: booked_def drop_replica_filter [OF wf(2)])
  moreover have "table_wf (snd (drop_replica i (w_sessions w)))" using wf(2) by (simp add: drop_replica_filter [OF wf(2)] table_wf_filter)
  ultimately show ?thesis using assms world_ok_remove [OF wf(3), of "snd (cleanup_replica_state i w)" i]
    unfolding settled_def cleanup_simps by (auto simp del: started_dom)
qed

section \<open>Spawns\<close>

definition starts_empty :: "'b outside \<Rightarrow> bool" where
  "starts_empty k \<longleftrightarrow> (\<forall>req b r. fst (bk_spawn k req b) = Inr r \<longrightarrow> r_sessions_active r = 0)"

lemma spawn_one_sessions: "w_sessions (snd (spawn_one k intent sp w)) = w_sessions w"
  by (simp add: spawn_one_def Let_def call_out_eq split: sum.split)

lemma spawn_adds_empty:
  "w_reg (snd (spawn_one k intent sp w)) = w_reg w
   \<or> (\<exists>req r. fst (bk_spawn k req (w_out w)) = Inr r
        \<and> w_reg (snd (spawn_one k intent sp w)) = reg_add (r\<lparr>r_sessions_max := effective_seats sp\<rparr>) (w_reg w))"
  by (auto simp: spawn_one_def Let_def call_out_eq split: sum.splits)

lemma reg_add_same: "reg_add r reg = reg_add r' reg \<Longrightarrow> r = r'"
proof -
  assume "reg_add r reg = reg_add r' reg"
  then have "add_mset r (mset (reg_all reg)) = add_mset r' (mset (reg_all reg))" by (simp flip: reg_all_add_mset)
  then show "r = r'" by simp
qed

lemma settled_spawn:
  assumes "honest k owner" and "starts_empty k" and "settled owner res w"
  shows "settled owner res (snd (spawn_one k intent sp w))"
proof -
  have ok: "world_ok owner w" using assms(3) by (simp add: settled_def)
  from spawn_one_cases [OF assms(1) ok, of intent sp] show ?thesis
  proof (elim disjE exE conjE)
    assume "w_reg (snd (spawn_one k intent sp w)) = w_reg w" "started owner (w_out w) (w_out (snd (spawn_one k intent sp w)))"
    with settled_frame [OF assms(3) _ spawn_one_sessions] show ?thesis by blast
  next
    fix r assume a: "w_reg (snd (spawn_one k intent sp w)) = reg_add r (w_reg w)" "owner (w_out w) (r_id r) = None"
      "owner (w_out (snd (spawn_one k intent sp w))) (r_id r) = Some (r_spec_id r)"
      "started owner (w_out w) (w_out (snd (spawn_one k intent sp w)))"
    have "w_reg (snd (spawn_one k intent sp w)) \<noteq> w_reg w"
    proof
      assume "w_reg (snd (spawn_one k intent sp w)) = w_reg w"
      with a(1) have "mset (reg_all (w_reg w)) = add_mset r (mset (reg_all (w_reg w)))" by (metis reg_all_add_mset)
      then show False by simp
    qed
    with spawn_adds_empty [of k intent sp w] obtain req r0 where r0: "fst (bk_spawn k req (w_out w)) = Inr r0"
      "reg_add r (w_reg w) = reg_add (r0\<lparr>r_sessions_max := effective_seats sp\<rparr>) (w_reg w)" using a(1) by auto
    with assms(2) have "r_sessions_active r = 0" using reg_add_same [OF r0(2)] by (auto simp: starts_empty_def)
    with settled_add [OF assms(3) a(1) spawn_one_sessions a(4,2,3)] show ?thesis .
  qed
qed

lemma settled_ensure: "honest k owner \<Longrightarrow> starts_empty k \<Longrightarrow> settled owner res w \<Longrightarrow> settled owner res (snd (ensure_replica_available (Some k) sp w))"
  using settled_spawn [of k owner res w EnsureAvailable sp] by (simp add: ensure_replica_available_def with_backend_def)

lemma settled_recover:
  assumes "honest k owner" and "starts_empty k" and "fe_backend env = Some k" and "settled owner res (fr_world fd)"
  shows "settled owner res (fr_world (snd (recover env sp r fd)))"
proof -
  let ?w = "fr_world fd\<lparr>w_out := snd (bk_liveness k [query_of r] (w_out (fr_world fd)))\<rparr>"
  have s: "settled owner res ?w" by (rule settled_frame [OF assms(4)]) (use assms(1) in \<open>simp_all add: honest_def\<close>)
  have kick: "settled owner res (kick_replacement_spawn (Some k) sp w)" if "settled owner res w" for w
    using settled_ensure [OF assms(1,2) that] that by (simp add: kick_replacement_spawn_def)
  then show ?thesis using s settled_forget [OF s, of "r_id r"]
    by (auto simp: recover_def reap_if_confirmed_dead_def assms(3) call_out_eq intro: kick split: sum.splits)
qed

section \<open>The choice of a replica\<close>

lemma spawn_for_visit_frame:
  assumes "honest k owner"
  shows "w_sessions (fst (snd (spawn_for_visit (Some k) sp (w, turn)))) = w_sessions w"
    "started owner (w_out w) (w_out (fst (snd (spawn_for_visit (Some k) sp (w, turn)))))"
    "\<And>r b. fst (spawn_for_visit (Some k) sp (w, turn)) = Inr (r, b) \<Longrightarrow>
       owner (w_out (fst (snd (spawn_for_visit (Some k) sp (w, turn))))) (r_id r) = Some (r_spec_id r)"
  using assms by (auto simp: spawn_for_visit_def call_out_eq Let_def honest_def split: sum.splits)

lemma take_seat_frame:
  "w_sessions (fst (snd (take_seat sp c w))) = w_sessions w" "w_out (fst (snd (take_seat sp c w))) = w_out w"
  by (cases c; cases "fst c"; simp add: take_seat_def)+

lemma pick_fast_frame:
  "w_sessions (fst (snd (pick_fast sp (w, turn)))) = w_sessions w" "w_out (fst (snd (pick_fast sp (w, turn)))) = w_out w"
  by (simp_all add: pick_fast_def take_seat_frame)

lemma pick_locked_frame:
  "w_sessions (fst (snd (pick_locked sp (w, turn)))) = w_sessions w" "w_out (fst (snd (pick_locked sp (w, turn)))) = w_out w"
proof -
  obtain x w1 t1 where p: "pick_fast sp (w, turn) = (x, w1, t1)" by (metis surj_pair)
  then have f: "w_sessions w1 = w_sessions w" "w_out w1 = w_out w" using pick_fast_frame [of sp w turn] by auto
  have "w_sessions (fst (snd (pick_locked sp (w, turn)))) = w_sessions w \<and> w_out (fst (snd (pick_locked sp (w, turn)))) = w_out w"
    by (cases x) (simp_all add: pick_locked_def p f take_seat_frame split: option.split del: take_seat_simps)
  then show "w_sessions (fst (snd (pick_locked sp (w, turn)))) = w_sessions w" "w_out (fst (snd (pick_locked sp (w, turn)))) = w_out w"
    by auto
qed

lemma pick_or_spawn_frame:
  assumes "honest k owner"
  shows "w_sessions (fst (snd (pick_or_spawn (Some k) sp (w, turn)))) = w_sessions w"
    "started owner (w_out w) (w_out (fst (snd (pick_or_spawn (Some k) sp (w, turn)))))"
proof -
  obtain x w1 t1 where p: "pick_fast sp (w, turn) = (x, w1, t1)" by (metis surj_pair)
  obtain y w2 t2 where q: "pick_locked sp (take_lock (sp_id sp) w1, t1) = (y, w2, t2)" by (metis surj_pair)
  have f: "w_sessions w1 = w_sessions w" "w_out w1 = w_out w" using pick_fast_frame [of sp w turn] p by auto
  have g: "w_sessions w2 = w_sessions w" "w_out w2 = w_out w"
    using pick_locked_frame [of sp "take_lock (sp_id sp) w1" t1] q f by auto
  have "w_sessions (fst (snd (pick_or_spawn (Some k) sp (w, turn)))) = w_sessions w
      \<and> started owner (w_out w) (w_out (fst (snd (pick_or_spawn (Some k) sp (w, turn)))))"
    using spawn_for_visit_frame [OF assms, where sp = sp and w = w2 and turn = t2]
    by (cases x; cases y) (simp_all add: pick_or_spawn_def p q f g)
  then show "w_sessions (fst (snd (pick_or_spawn (Some k) sp (w, turn)))) = w_sessions w"
    "started owner (w_out w) (w_out (fst (snd (pick_or_spawn (Some k) sp (w, turn)))))" by auto
qed

lemma pool_owner: "world_ok owner w \<Longrightarrow> r \<in> set (replicas_of (w_reg w) s) \<Longrightarrow> owner (w_out w) (r_id r) = Some (r_spec_id r)"
  using replicas_of_in_all by (fastforce simp: world_ok_def)

lemma pick_owned:
  assumes "honest k owner" and "world_ok owner w" and "pick_or_spawn (Some k) sp (w, turn) = (Inr (r, b), w', turn')"
  shows "owner (w_out w') (r_id r) = Some (r_spec_id r)"
proof (cases rule: pick_fast_cases [of sp w turn])
  case (some x t1)
  then have "r = x" "w_out w' = w_out w" using assms(3) by (auto simp: pick_or_spawn_def)
  with pool_owner [OF assms(2)] some(2) show ?thesis by (simp add: pool_of_def)
next
  case none
  show ?thesis
  proof (cases rule: pick_locked_cases [of sp "take_lock (sp_id sp) w" turn])
    case (some x t1)
    then have "r = x" "w_out w' = w_out w" using assms(3) none(1) by (auto simp: pick_or_spawn_def)
    with pool_owner [OF assms(2)] some(2) show ?thesis by (auto simp: pool_of_def reusable_def)
  next
    case l: (none t1)
    then have "spawn_for_visit (Some k) sp (take_lock (sp_id sp) w, t1) = (Inr (r, b), w', turn')"
      using assms(3) none(1) by (simp add: pick_or_spawn_def)
    with spawn_for_visit_frame(3) [OF assms(1), where sp = sp and w = "take_lock (sp_id sp) w" and turn = t1] show ?thesis by simp
  qed
qed

lemma take_reserved: "take_seat sp c w = (Some (r, True), w') \<Longrightarrow> seats_of sp"
  by (cases c; cases "fst c") (auto simp: take_seat_def split: if_splits)

lemma fast_reserved: "pick_fast sp s = (Some (r, True), s') \<Longrightarrow> seats_of sp"
  by (cases s) (auto simp: pick_fast_def simp del: take_seat_simps split: prod.splits dest: take_reserved)

lemma locked_reserved: "pick_locked sp s = (Some (r, True), s') \<Longrightarrow> seats_of sp"
  by (auto simp: pick_locked_def simp del: take_seat_simps split: prod.splits option.splits if_splits
      dest: take_reserved fast_reserved)

lemma spawn_reserved: "spawn_for_visit backend sp s = (Inr (r, True), s') \<Longrightarrow> seats_of sp"
  by (auto simp: spawn_for_visit_def Let_def split: prod.splits option.splits sum.splits)

lemma pick_reserved: "pick_or_spawn backend sp s = (Inr (r, True), s') \<Longrightarrow> seats_of sp"
  by (auto simp: pick_or_spawn_def split: prod.splits option.splits dest: fast_reserved locked_reserved spawn_reserved)

text \<open>What a chosen replica leaves to be settled: its seat, when one was reserved.\<close>

definition seat_taken :: "replica \<Rightarrow> bool \<Rightarrow> replica_id list" where
  "seat_taken r reserved = (if reserved then [r_id r] else [])"

lemma settled_seated:
  assumes "settled owner res w" and "roomy w" and "w_reg w' = seated sp (r_id r) (w_reg w)" and "w_sessions w' = w_sessions w"
    and "w_out w' = w_out w" and "owner (w_out w) (r_id r) \<noteq> None"
  shows "settled owner (seat_taken r (seats_of sp) @ res) w'"
  using settled_reserve [OF assms(1) _ assms(4,5) _ assms(6)] settled_frame [OF assms(1) _ assms(4)] assms(2,3,5)
  by (auto simp: seated_def seat_taken_def roomy_def)

lemma roomy_add: "roomy w \<Longrightarrow> r_sessions_active r = 0 \<Longrightarrow> w_reg w' = reg_add r (w_reg w) \<Longrightarrow> roomy w'"
proof -
  assume a: "roomy w" "r_sessions_active r = 0" "w_reg w' = reg_add r (w_reg w)"
  have "set (reg_all (reg_add r (w_reg w))) = insert r (set (reg_all (w_reg w)))"
    by (metis reg_all_add_mset set_mset_add_mset_insert set_mset_mset)
  with a show ?thesis by (simp add: roomy_def has_room_def list_all_iff)
qed

lemma settled_pick:
  assumes "honest k owner" and "starts_empty k" and "settled owner res w" and "roomy w"
    and eq: "pick_or_spawn (Some k) sp (w, turn) = (out, w', turn')"
  shows "case out of Inl _ \<Rightarrow> settled owner res w'
    | Inr (r, reserved) \<Rightarrow> reserved = seats_of sp \<and> owner (w_out w') (r_id r) \<noteq> None \<and> settled owner (seat_taken r reserved @ res) w'"
proof -
  note frame = pick_or_spawn_frame [OF assms(1), where sp = sp and w = w and turn = turn, unfolded eq fst_conv snd_conv]
  from assms(1) eq show ?thesis
  proof (cases rule: pick_or_spawn_cases)
    case (failed e)
    with settled_frame [OF assms(3) _ frame] show ?thesis by simp
  next
    case (reused r)
    have "owner (w_out w) (r_id r) \<noteq> None" using reused(3) assms(3) by (auto simp: reusable_def pool_of_def settled_def dest: pool_owner)
    with settled_seated [OF assms(3,4) reused(2) frame(1) reused(4)] reused(1,4) show ?thesis by simp
  next
    case (fresh r)
    have zero: "r_sessions_active r = 0" using fresh(6) assms(2) by (auto simp: starts_empty_def)
    have owned: "owner (w_out w') (r_id r) = Some (r_spec_id r)" using pick_owned [OF assms(1) _ eq [unfolded fresh(1)]] assms(3) by (simp add: settled_def)
    let ?w = "w'\<lparr>w_reg := reg_add r (w_reg w)\<rparr>"
    have s: "settled owner res ?w" by (rule settled_add [OF assms(3), of _ r]) (use frame fresh(4) owned zero in simp_all)
    have "roomy ?w" by (rule roomy_add [OF assms(4) zero]) simp
    with settled_seated [OF s, of w' sp r] fresh(1,2) owned show ?thesis by simp
  qed
qed

lemma settled_resolve:
  assumes "honest k owner" and "starts_empty k" and "settled owner res w" and "roomy w"
    and eq: "resolve_replica dec sid (Some k) sp cookies vis (w, turn) = (out, w', turn')"
  shows "case out of Inl _ \<Rightarrow> settled owner res w'
    | Inr rt \<Rightarrow> owner (w_out w') (r_id (rt_replica rt)) \<noteq> None \<and> settled owner (seat_taken (rt_replica rt) (rt_reserved rt) @ res) w'
        \<and> (rt_reserved rt \<longrightarrow> rt_track rt \<and> rt_session rt = sid \<and> w_sessions w' = w_sessions w)
        \<and> (\<not> rt_reserved rt \<longrightarrow> spec_kind_of sp = Api \<or> roomy w')"
proof -
  have owned: "owner (w_out w) (r_id r) \<noteq> None" if "r \<in> set (replicas_of (w_reg w) s)" for r s
    using pool_owner [of owner w r s] that assms(3) by (simp add: settled_def)
  show ?thesis
  proof (cases "sticky_target dec sp cookies (w_reg w)")
    case (Some p)
    obtain r session where p: "p = (r, session)" by (cases p)
    with Some have "r \<in> set (replicas_of (w_reg w) (sp_id sp))"
      by (auto simp: sticky_target_def find_Some_iff split: option.splits sum.splits if_splits)
    from owned [OF this] Some p eq assms(3,4) show ?thesis by (auto simp: resolve_replica_def seat_taken_def)
  next
    case None
    obtain c t1 where c: "(if vis then (None, turn)
        else pick_replica (w_inflight w) (pool_of sp w) (effective_routing sp) (spec_kind_of sp = Api) turn) = (c, t1)" by fastforce
    show ?thesis
    proof (cases c)
      case (Some r)
      then have "r \<in> set (replicas_of (w_reg w) (sp_id sp))"
        using c pick_replica_contract [of "w_inflight w" "pool_of sp w" "effective_routing sp" "spec_kind_of sp = Api" turn]
        by (auto simp: pool_of_def split: if_splits)
      from owned [OF this] None c Some eq assms(3,4) show ?thesis by (auto simp: resolve_replica_def seat_taken_def)
    next
      case n: None
      obtain out1 w1 t2 where p: "pick_or_spawn (Some k) sp (w, t1) = (out1, w1, t2)" by (metis surj_pair)
      have "w' = w1" using None c n eq p by (auto simp: resolve_replica_def split: sum.splits prod.splits)
      moreover have "w_sessions w1 = w_sessions w" using pick_or_spawn_frame(1) [OF assms(1), where sp = sp and w = w and turn = t1] p by simp
      ultimately show ?thesis using settled_pick [OF assms(1-4) p] None c n eq p
        by (auto simp: resolve_replica_def seats_of_def split: sum.splits prod.splits)
    qed
  qed
qed

section \<open>The whole request\<close>

lemma roomy_same: "w_reg w' = w_reg w \<Longrightarrow> roomy w' = roomy w"
  by (simp add: roomy_def)

lemma settled_session:
  assumes "owner (w_out (fr_world fd)) (r_id (rt_replica rt)) \<noteq> None"
    and "settled owner (seat_taken (rt_replica rt) (rt_reserved rt) @ res) (fr_world fd)"
    and "rt_reserved rt \<longrightarrow> rt_track rt \<and> table_get (w_sessions (fr_world fd)) (rt_session rt) = None \<and> needs_sticky_sessions sp"
    and "\<not> rt_reserved rt \<longrightarrow> spec_kind_of sp = Api \<or> roomy (fr_world fd)"
  shows "settled owner res (fr_world (session_step env rq sp rt fd))"
proof -
  let ?w = "fr_world fd" and ?i = "r_id (rt_replica rt)"
  have idx: "fr_world (index_logout rq sp s fd1) = fr_world fd1" for s fd1
    by (simp add: index_logout_def split: option.split)
  show ?thesis
  proof (cases "rt_track rt \<and> needs_sticky_sessions sp")
    case False
    with assms(2,3) show ?thesis by (auto simp: session_step_def seat_taken_def)
  next
    case True
    then have not_api: "spec_kind_of sp \<noteq> Api" by (auto simp: needs_sticky_sessions_def)
    show ?thesis
    proof (cases "table_get (w_sessions ?w) (rt_session rt)")
      case (Some e)
      with assms(2,3) True settled_touches [of owner res ?w "rt_session rt" e "fe_clock env"] show ?thesis
        by (auto simp: session_step_def Let_def touch_or_register_def seat_taken_def)
    next
      case None
      show ?thesis
      proof (cases "rt_reserved rt")
        case reserved: True
        with assms(2) settled_registers [OF _ None] True None show ?thesis
          by (auto simp: session_step_def Let_def touch_or_register_def seat_taken_def idx)
      next
        case False
        let ?w1 = "?w\<lparr>w_reg := inc_sessions ?i (w_reg ?w)\<rparr>"
        have "settled owner (?i # res) ?w1"
          by (rule settled_reserve [where w = ?w]) (use assms False not_api in \<open>auto simp: seat_taken_def roomy_def\<close>)
        from settled_frame [OF settled_registers [OF this, of "rt_session rt" "sp_id sp" "fe_clock env"],
            of "fr_world (session_step env rq sp rt fd)"] None False True show ?thesis
          by (simp add: session_step_def Let_def touch_or_register_def idx Scaler_Bounds.grows_refl)
      qed
    qed
  qed
qed

lemma settled_gauge: "settled owner res w \<Longrightarrow> settled owner res (w\<lparr>w_inflight := g\<rparr>)"
  by (rule settled_frame [of owner res w]) (simp_all add: Scaler_Bounds.grows_refl)

lemma settled_cold:
  assumes "honest k owner" and "starts_empty k" and "fe_backend env = Some k" and "settled owner res (fr_world fd)"
    and "cold_stage env rq sp fd = (out, fd1)"
  shows "settled owner res (fr_world fd1) \<and> (\<forall>x. out = Inr x \<longrightarrow> fr_world fd1 = fr_world fd)"
proof -
  obtain ok fd2 where v: "serveable env rq sp fd = (ok, fd2)" by fastforce
  then have "fr_world fd2 = fr_world fd" by (auto simp: serveable_def has_ready_replica_def split: prod.splits)
  with assms(4,5) v settled_ensure [OF assms(1,2,4), of sp] show ?thesis
    by (auto simp: cold_stage_def assms(3) Let_def split: if_splits)
qed

lemma settled_branch:
  assumes "honest k owner" and "starts_empty k" and "fe_backend env = Some k" and "settled owner res (fr_world fd)"
  shows "settled owner res (fr_world (snd (ws_branch env rq sp rt pairs fd)))"
    and "settled owner res (fr_world (snd (http_branch env rq sp rt pairs fd)))"
proof -
  show "settled owner res (fr_world (snd (ws_branch env rq sp rt pairs fd)))"
    using settled_recover [OF assms] assms(4) by (simp add: ws_branch_def Let_def split: sum.split)
  let ?f = "do_forward env rq (rt_replica rt) (mount_prefix (fe_base env) (rq_prefix rq) (sp_id sp))
    (request_is_https (rq_headers rq) (forward_headers_trusted (fe_server env))) (http_headers env rq sp) (body_cap (body_limit env sp)) pairs"
  have up: "settled owner res (fr_world (gauge_up rq r fd))" for r using settled_gauge [OF assms(4)] assms(4) by (simp add: gauge_up_def)
  have down: "settled owner res (fr_world (gauge_down rq r fd'))" if "settled owner res (fr_world fd')" for r fd'
    using settled_gauge [OF that] that by (simp add: gauge_down_def)
  have acc: "fr_world (record_access env i fd') = fr_world fd'" for i fd' by (simp add: record_access_def)
  obtain b fd2 where r: "recover env sp (rt_replica rt) (gauge_up rq (rt_replica rt) fd) = (b, fd2)" by fastforce
  have "settled owner res (fr_world fd2)" using settled_recover [OF assms(1-3) up, of sp "rt_replica rt" "rt_replica rt"] r by simp
  with up down show "settled owner res (fr_world (snd (http_branch env rq sp rt pairs fd)))"
    by (cases ?f) (auto simp: http_branch_def Let_def r acc)
qed

lemma settled_serve:
  assumes "honest k owner" and "starts_empty k" and "fe_backend env = Some k" and "settled owner res (fr_world fd)" and "roomy (fr_world fd)"
    and "table_get (w_sessions (fr_world fd)) (fe_fresh env) = None" and "spec_kind_of sp \<noteq> External"
  shows "settled owner res (fr_world (snd (serve env rq sp pairs fd)))"
proof -
  obtain out fd1 where c: "cold_stage env rq sp fd = (out, fd1)" by fastforce
  note cold = settled_cold [OF assms(1-4) c]
  show ?thesis
  proof (cases out)
    case (Inl reply)
    with c cold assms(3) show ?thesis by (simp add: serve_def stage_def)
  next
    case (Inr u)
    then have same: "fr_world fd1 = fr_world fd" using cold by simp
    obtain out2 w2 t2 where q: "resolve_replica (fe_decode env) (fe_fresh env) (Some k) sp (rq_cookies rq) (wants_html (rq_headers rq))
        (fr_world fd1, fr_turn fd1) = (out2, w2, t2)" by (metis surj_pair)
    note res = settled_resolve [OF assms(1,2) _ _ q, of res, unfolded same, OF assms(4,5)]
    show ?thesis
    proof (cases out2)
      case (Inl e)
      with c Inr q res show ?thesis by (simp add: serve_def stage_def route_stage_def assms(3))
    next
      case rt: (Inr rt)
      let ?fd2 = "fd1\<lparr>fr_world := w2, fr_turn := t2\<rparr>"
      have "settled owner res (fr_world (session_step env rq sp rt ?fd2))"
      proof (rule settled_session)
        have "seats_of sp" if "rt_reserved rt" using q rt that
          by (auto simp: resolve_replica_def split: option.splits prod.splits sum.splits dest: pick_reserved)
        with res rt assms(6,7) show "rt_reserved rt \<longrightarrow> rt_track rt \<and> table_get (w_sessions (fr_world ?fd2)) (rt_session rt) = None \<and> needs_sticky_sessions sp"
          by (cases "spec_kind_of sp") (auto simp: seats_of_def needs_sticky_sessions_def)
      qed (use res rt in auto)
      from settled_branch [OF assms(1-3) this] c Inr q rt show ?thesis
        by (simp add: serve_def stage_def route_stage_def assms(3))
    qed
  qed
qed

text \<open>
  C3: The books balance after every request. Whatever request the proxy handles and however it ends (refused, shown the splash,
  routed by a cookie, given a fresh container, passed on, failed with the container gone), the session counter of every
  replica is again the number of its sessions and of the seats other requests hold: no seat leaks and none is given twice.
\<close>

theorem request_settles_seats:
  assumes "honest k owner" and "starts_empty k" and "fe_backend env = Some k" and "settled owner res (fr_world fd)" and "roomy (fr_world fd)"
    and "table_get (w_sessions (fr_world fd)) (fe_fresh env) = None"
  shows "settled owner res (fr_world (snd (forward env rq fd)))"
proof (cases rule: forward_cases [of env rq fd])
  case (served sp idn fd1)
  show ?thesis unfolding served(1) by (rule settled_serve [OF assms(1-3)]) (use served assms in simp_all)
qed (use assms in simp)

lemma visit_settled: "settled roster_owner [] (fr_world quiet_front)" "roomy (fr_world quiet_front)"
  by (simp_all add: settled_def quiet_front_def roster_world_def world_ok_def reg_wf_def reg_all_def idle_replica_def roster_owner_def
      table_wf_def ledger_def seats_def sessions_on_def table_sum_def booked_def roomy_def has_room_def)

lemma request_settles_seats_witness: "settled roster_owner [] (fr_world (snd (forward visit_env visit quiet_front)))"
proof -
  have "starts_empty roster_outside" by (auto simp: starts_empty_def roster_outside_def)
  moreover have "fe_backend visit_env = Some roster_outside" by (simp add: visit_env_def)
  moreover have "table_get (w_sessions (fr_world quiet_front)) (fe_fresh visit_env) = None"
    by (simp add: quiet_front_def roster_world_def table_get_def)
  ultimately show ?thesis by (intro request_settles_seats [OF roster_honest] visit_settled)
qed

end
