(* ===== verification/Editor_Scope.thy ===== *)
theory Editor_Scope
  imports User_Store
begin

text \<open>
  Which rows an Editor may act on (\<open>crates/ruscker-admin/src/scope.rs\<close>): the scope drawn from the account's
  groups at every request, and the predicates the handlers ask. Sets of strings of the code
  (\<open>BTreeSet\<close>) are sorted lists without repetition.
\<close>

section \<open>The scope\<close>

record editor_scope =
  es_role :: role
  es_actor :: "string option"
  es_groups :: "string list"
  es_unscoped :: bool

text \<open>\<open>db\<close> is the database, when there is one: what a query for an account answers.\<close>

definition scope_from_editor :: "(string \<Rightarrow> string + user_row option) option \<Rightarrow> session_info \<Rightarrow> editor_scope" where
  "scope_from_editor db s =
     (if si_role s = Admin
      then \<lparr>es_role = si_role s, es_actor = si_actor s, es_groups = [], es_unscoped = True\<rparr>
      else \<lparr>es_role = si_role s, es_actor = si_actor s,
        es_groups = (case (db, si_actor s) of
            (Some fetch, Some username) \<Rightarrow> (case fetch username of Inr (Some row) \<Rightarrow> ur_groups row | _ \<Rightarrow> [])
          | _ \<Rightarrow> []),
        es_unscoped = False\<rparr>)"

definition scope_actor :: "editor_scope \<Rightarrow> string" where
  "scope_actor sc = unwrap_or ''token'' (es_actor sc)"

definition has_group :: "editor_scope \<Rightarrow> string \<Rightarrow> bool" where
  "has_group sc g \<longleftrightarrow> list_ex (\<lambda>owned. owned = g) (es_groups sc)"

definition may_touch_group :: "editor_scope \<Rightarrow> string \<Rightarrow> bool" where
  "may_touch_group sc g \<longleftrightarrow> es_unscoped sc \<or> has_group sc g"

definition may_touch_spec :: "editor_scope \<Rightarrow> spec \<Rightarrow> bool" where
  "may_touch_spec sc sp \<longleftrightarrow> es_unscoped sc \<or> is_open sp
     \<or> (case sp_access_groups sp of None \<Rightarrow> False | Some gs \<Rightarrow> list_ex (has_group sc) gs)"

definition may_touch_user :: "editor_scope \<Rightarrow> user_row \<Rightarrow> bool" where
  "may_touch_user sc x \<longleftrightarrow> es_unscoped sc \<or> (ur_role x \<noteq> Admin \<and> list_ex (has_group sc) (ur_groups x))"

definition may_assign_groups :: "editor_scope \<Rightarrow> string list \<Rightarrow> bool" where
  "may_assign_groups sc requested \<longleftrightarrow> es_unscoped sc \<or> list_all (has_group sc) requested"

definition may_assign_role :: "editor_scope \<Rightarrow> role \<Rightarrow> bool" where
  "may_assign_role sc r \<longleftrightarrow> es_unscoped sc \<or> r = Viewer \<or> r = Editor"

definition scope_filter :: "editor_scope \<Rightarrow> string \<Rightarrow> user_filter" where
  "scope_filter sc search = \<lparr>uf_search = search, uf_visible = (if es_unscoped sc then None else Some (es_groups sc))\<rparr>"

definition merge_preserving_out_of_scope :: "editor_scope \<Rightarrow> string list \<Rightarrow> string list \<Rightarrow> string list" where
  "merge_preserving_out_of_scope sc existing requested =
     (if es_unscoped sc then sort (remdups requested)
      else sort (remdups (filter (\<lambda>g. \<not> has_group sc g) existing @ filter (has_group sc) requested)))"

section \<open>Lemmas\<close>

lemma has_group_iff [simp]: "has_group sc g \<longleftrightarrow> g \<in> set (es_groups sc)"
  by (auto simp: has_group_def list_ex_iff)

lemma set_merge:
  "set (merge_preserving_out_of_scope sc existing requested) =
     (if es_unscoped sc then set requested else (set existing - set (es_groups sc)) \<union> (set requested \<inter> set (es_groups sc)))"
  by (auto simp: merge_preserving_out_of_scope_def)

lemma merge_canonical:
  "canonical existing \<Longrightarrow> canonical requested \<Longrightarrow> canonical (merge_preserving_out_of_scope sc existing requested)"
  by (auto simp: canonical_def merge_preserving_out_of_scope_def)

lemma lowercase_role: "lowercase ''viewer'' = ''viewer''" "lowercase ''editor'' = ''editor''" "lowercase ''admin'' = ''admin''"
  by code_simp+

lemma lowercase_role_as_str [simp]: "lowercase (role_as_str r) = role_as_str r"
  by (cases r) (simp_all add: role_as_str_def lowercase_role)

lemma visible_is_touchable:
  assumes "portal_wf P" and "canonical (es_groups sc)" and "x \<in> set (pt_users P)"
  shows "visible_to (uf_visible (scope_filter sc search)) x \<longleftrightarrow> may_touch_user sc (row_from x)"
proof -
  from assms(1,3) obtain r gs where x: "us_role x = role_as_str r" "us_groups x = join '','' gs" "canonical gs"
    by (auto simp: portal_wf_def list_all_iff stored_ok_def)
  have "lowercase (us_role x) \<noteq> ''admin'' \<longleftrightarrow> ur_role (row_from x) \<noteq> Admin"
    by (simp add: x row_from_def unwrap_or_def)
  moreover have "ur_groups (row_from x) = gs" by (simp add: row_from_def x parse_groups_join)
  moreover have "instr ('','' @ g @ '','') ('','' @ us_groups x @ '','') \<longleftrightarrow> g \<in> set gs" if "g \<in> set (es_groups sc)" for g
    using that assms(2) x(2,3) instr_canonical [of gs g] by (auto simp: canonical_def)
  ultimately show ?thesis
    by (auto simp: visible_to_def scope_filter_def may_touch_user_def list_ex_iff)
qed

section \<open>Properties\<close>

text \<open>
  C34: The users page shows an Editor exactly the accounts the Editor may act on. Over well-formed tables, the
  condition put into the query (a search for the group between commas in the stored list, and the
  lower-cased role) selects the rows for which the predicate on the parsed row holds, so the listing, its count and
  its pages hold these accounts and no other, and the check of the fetched page never fails.
\<close>

theorem editor_page_is_scope:
  assumes "portal_wf P" and "canonical (es_groups sc)"
  shows "selected like d (scope_filter sc search) P
      = filter (\<lambda>x. matches_search like d (trim search) x \<and> may_touch_user sc (row_from x)) (pt_users P)
    \<and> (\<forall>r \<in> set (list_with like d (scope_filter sc search) ord page P). may_touch_user sc r)"
proof -
  have sel: "selected like d (scope_filter sc search) P
      = filter (\<lambda>x. matches_search like d (trim search) x \<and> may_touch_user sc (row_from x)) (pt_users P)"
    unfolding selected_def using visible_is_touchable [OF assms, where search = search]
    by (intro filter_cong) (auto simp: scope_filter_def)
  have "set (order_rows ord us) = set us" for us by (cases ord) (simp_all add: order_rows_def)
  with sel show ?thesis
    by (auto simp: list_with_def Let_def split: option.splits prod.splits dest!: in_set_takeD in_set_dropD)
qed

lemma editor_page_is_scope_witness:
  "map us_username (selected (\<lambda>_ _ _. True) Sqlite
     (scope_filter \<lparr>es_role = Editor, es_actor = Some ''bob'', es_groups = [''ops''], es_unscoped = False\<rparr> []) demo_portal) = [''bob'']"
  (is "map us_username (selected ?like Sqlite (scope_filter ?sc []) demo_portal) = _")
proof -
  have "canonical (es_groups ?sc)" by (simp add: canonical_def) code_simp
  from editor_page_is_scope [OF demo_portal_wf this, of ?like Sqlite "[]"]
  have "selected ?like Sqlite (scope_filter ?sc []) demo_portal = filter (\<lambda>x. may_touch_user ?sc (row_from x)) (pt_users demo_portal)"
    by (simp add: matches_search_def trim_def trim_start_def trim_end_def)
  moreover have "may_touch_user ?sc (row_from (new_user ''2'' 0 ''bob'' ''h'' Editor False [''ops''] None))"
    by code_simp
  ultimately show ?thesis
    by (simp add: demo_portal_def may_touch_user_def row_from_def unwrap_or_def)
qed

end
