(* ===== verification/User_Admin.thy ===== *)
theory User_Admin
  imports Editor_Scope Identity_Cache Spec_Store Session_Store
begin

text \<open>
  The pages that manage accounts and groups (\<open>crates/ruscker-admin/src/routes/admin/users.rs\<close> and
  \<open>groups.rs\<close>): every handler that changes an account, behind the extractor of its role and scope. One request is one step of the server; what the
  outside decides (the clock, the new identifiers, the password hash, whether a query of the database fails)
  is a record that goes with the request. What a page shows is left out; what it answers is a status, a redirect or
  the rejection of the extractor.
\<close>

section \<open>The server, a request and its answer\<close>

record site =
  sv_auth :: admin_auth
  sv_db :: "portal option"
  sv_sessions :: admin_sessions
  sv_limiter :: login_limiter
  sv_identity :: identity_cache
  sv_catalog :: catalog
  sv_logout :: "string \<rightharpoonup> uuid list"
  sv_apps :: "session_store \<times> registry"

text \<open>The queries of a handler that may fail.\<close>

datatype query = QScope | QTarget | QGuardFetch | QGuardCount | QCommit | QProfile | QVerify | QAnyAdmin | QFirst | QListUsers | QListSpecs

record request_env =
  en_id :: string
  en_now :: timestamp
  en_clock :: nat
  en_hash :: "string \<Rightarrow> string + string"
  en_verify :: "string \<Rightarrow> string \<Rightarrow> bool"
  en_dummy :: string
  en_session :: string
  en_fails :: "query \<Rightarrow> bool"
  en_item_fails :: "string \<Rightarrow> bool"
  en_codec :: codec

datatype reply = Rejected rejection | StatusOf nat | RedirectTo string | LoginPage string bool string | FormPage string

definition redirect_flash :: "string \<Rightarrow> reply" where
  "redirect_flash flash = RedirectTo (''/admin/users?flash='' @ flash)"

definition redirect_edit_flash :: "string \<Rightarrow> string \<Rightarrow> reply" where
  "redirect_edit_flash username flash = RedirectTo (''/admin/users/'' @ username @ ''/edit?flash='' @ flash)"

text \<open>A query that fails, or what it answers; a transaction that fails, or its outcome.\<close>

definition queried :: "request_env \<Rightarrow> query \<Rightarrow> 'a \<Rightarrow> string + 'a" where
  "queried env q v = (if en_fails env q then Inl ''db error'' else Inr v)"

definition transact :: "request_env \<Rightarrow> query \<Rightarrow> string + portal \<Rightarrow> string + portal" where
  "transact env q r = (if en_fails env q then Inl ''db error'' else r)"

definition store_portal :: "portal \<Rightarrow> site \<Rightarrow> site" where
  "store_portal P sv = sv\<lparr>sv_db := Some P\<rparr>"

definition kick :: "string \<Rightarrow> site \<Rightarrow> site" where
  "kick username sv = sv\<lparr>sv_sessions := revoke_by_actor username (sv_sessions sv)\<rparr>"

definition forget_identities :: "site \<Rightarrow> site" where
  "forget_identities sv = sv\<lparr>sv_identity := ic_invalidate (sv_identity sv)\<rparr>"

section \<open>The target and the guards\<close>

definition scoped_target :: "request_env \<Rightarrow> portal \<Rightarrow> editor_scope \<Rightarrow> string \<Rightarrow> reply + user_row" where
  "scoped_target env P sc raw_username =
     (let username = normalize_username raw_username in
      if \<not> is_valid_username username then Inl (StatusOf 404)
      else (case queried env QTarget (users_fetch username P) of
          Inr (Some u) \<Rightarrow> if may_touch_user sc u then Inr u else Inl (StatusOf 404)
        | Inr None \<Rightarrow> Inl (StatusOf 404)
        | Inl _ \<Rightarrow> Inl (StatusOf 500)))"

definition is_scoped_self_edit :: "editor_scope \<Rightarrow> string \<Rightarrow> bool" where
  "is_scoped_self_edit sc username \<longleftrightarrow> \<not> es_unscoped sc \<and> es_actor sc = Some username"

definition would_strip_last_admin :: "request_env \<Rightarrow> portal \<Rightarrow> string \<Rightarrow> role option \<Rightarrow> bool" where
  "would_strip_last_admin env P username new_role =
     (case queried env QGuardFetch (users_fetch username P) of
        Inr (Some target) \<Rightarrow>
          if ur_role target \<noteq> Admin then False
          else if new_role = Some Admin then False
          else (case queried env QGuardCount (count_admins P) of Inr n \<Rightarrow> n | Inl _ \<Rightarrow> 0) \<le> 1
      | _ \<Rightarrow> False)"

section \<open>The handlers\<close>

record create_form =
  cf_username :: string
  cf_password :: string
  cf_role :: string
  cf_groups :: string
  cf_setor :: string
  cf_email :: string
  cf_celular :: string

definition create_account :: "request_env \<Rightarrow> editor_scope \<Rightarrow> create_form \<Rightarrow> site \<Rightarrow> reply \<times> site" where
  "create_account env sc form sv =
     (case sv_db sv of
        None \<Rightarrow> (StatusOf 503, sv)
      | Some P \<Rightarrow>
          (let username = normalize_username (cf_username form);
               r = unwrap_or Viewer (role_parse (cf_role form));
               groups = parse_groups (cf_groups form)
           in if \<not> is_valid_username username then (redirect_flash ''bad-input'', sv)
              else if \<not> password_meets_policy (cf_password form) then (redirect_flash ''weak-password'', sv)
              else if \<not> may_assign_role sc r then (redirect_flash ''scope-role'', sv)
              else if \<not> may_assign_groups sc groups then (redirect_flash ''scope-groups'', sv)
              else if \<not> es_unscoped sc \<and> groups = [] then (redirect_flash ''group-required'', sv)
              else (case transact env QCommit (users_create (en_id env) (en_now env) (en_hash env (cf_password form))
                        username r True groups (Some (scope_actor sc)) P) of
                  Inl _ \<Rightarrow> (redirect_flash ''exists'', sv)
                | Inr P1 \<Rightarrow>
                    (let P2 = (if list_ex (\<lambda>s. trim s \<noteq> []) [cf_setor form, cf_email form, cf_celular form]
                         then (case transact env QProfile (update_profile (en_now env) username (Some (cf_setor form))
                                   (Some (cf_email form)) (Some (cf_celular form)) (Some (scope_actor sc)) P1) of
                               Inl _ \<Rightarrow> P1 | Inr P2 \<Rightarrow> P2)
                         else P1)
                     in (redirect_flash ''created'', store_portal P2 sv)))))"

record edit_form =
  ef_role :: string
  ef_groups :: string
  ef_setor :: string
  ef_email :: string
  ef_celular :: string

definition save_edit :: "request_env \<Rightarrow> editor_scope \<Rightarrow> string \<Rightarrow> edit_form \<Rightarrow> site \<Rightarrow> reply \<times> site" where
  "save_edit env sc raw form sv =
     (case sv_db sv of
        None \<Rightarrow> (StatusOf 503, sv)
      | Some P \<Rightarrow> (case scoped_target env P sc raw of
          Inl response \<Rightarrow> (response, sv)
        | Inr current \<Rightarrow>
            (let username = ur_username current in
             if is_scoped_self_edit sc username then (redirect_edit_flash username ''self-edit'', sv)
             else (case role_parse (ef_role form) of
                 None \<Rightarrow> (redirect_edit_flash username ''bad-input'', sv)
               | Some r \<Rightarrow>
                   if \<not> may_assign_role sc r then (redirect_edit_flash username ''scope-role'', sv)
                   else if would_strip_last_admin env P username (Some r) then (redirect_edit_flash username ''last-admin'', sv)
                   else (let requested = parse_groups (ef_groups form) in
                     if \<not> may_assign_groups sc requested then (redirect_edit_flash username ''scope-groups'', sv)
                     else (let groups = merge_preserving_out_of_scope sc (ur_groups current) requested;
                               up = \<lparr>acc_role = r, acc_groups = groups, acc_setor = Some (ef_setor form),
                                 acc_email = Some (ef_email form), acc_celular = Some (ef_celular form)\<rparr>
                       in (case transact env QCommit (update_account (en_now env) username up (Some (scope_actor sc)) P) of
                           Inr P1 \<Rightarrow>
                             (redirect_flash ''saved'',
                              forget_identities ((if ur_role current \<noteq> r then kick username else id) (store_portal P1 sv)))
                         | Inl _ \<Rightarrow>
                             (redirect_edit_flash username
                                (if would_strip_last_admin env P username (Some r) then ''last-admin'' else ''bad-input''), sv))))))))"

record profile_form =
  pf_setor :: string
  pf_email :: string
  pf_celular :: string

definition set_profile :: "request_env \<Rightarrow> editor_scope \<Rightarrow> string \<Rightarrow> profile_form \<Rightarrow> site \<Rightarrow> reply \<times> site" where
  "set_profile env sc raw form sv =
     (case sv_db sv of
        None \<Rightarrow> (StatusOf 503, sv)
      | Some P \<Rightarrow> (case scoped_target env P sc raw of
          Inl response \<Rightarrow> (response, sv)
        | Inr target \<Rightarrow>
            (case transact env QCommit (update_profile (en_now env) (ur_username target) (Some (pf_setor form))
                (Some (pf_email form)) (Some (pf_celular form)) (Some (scope_actor sc)) P) of
               Inr P1 \<Rightarrow> (redirect_flash ''saved'', forget_identities (store_portal P1 sv))
             | Inl _ \<Rightarrow> (redirect_flash ''bad-input'', sv))))"

definition set_groups :: "request_env \<Rightarrow> editor_scope \<Rightarrow> string \<Rightarrow> string \<Rightarrow> site \<Rightarrow> reply \<times> site" where
  "set_groups env sc raw form_groups sv =
     (case sv_db sv of
        None \<Rightarrow> (StatusOf 503, sv)
      | Some P \<Rightarrow> (case scoped_target env P sc raw of
          Inl response \<Rightarrow> (response, sv)
        | Inr target \<Rightarrow>
            if is_scoped_self_edit sc (ur_username target) then (redirect_edit_flash (ur_username target) ''self-edit'', sv)
            else (let requested = parse_groups form_groups in
              if \<not> may_assign_groups sc requested then (redirect_edit_flash (ur_username target) ''scope-groups'', sv)
              else (let groups = merge_preserving_out_of_scope sc (ur_groups target) requested in
                (case transact env QCommit (users_set_groups (en_now env) (ur_username target) groups (Some (scope_actor sc)) P) of
                   Inr P1 \<Rightarrow> (redirect_flash ''saved'', forget_identities (store_portal P1 sv))
                 | Inl _ \<Rightarrow> (redirect_flash ''bad-input'', sv))))))"

definition set_role :: "request_env \<Rightarrow> editor_scope \<Rightarrow> string \<Rightarrow> string \<Rightarrow> site \<Rightarrow> reply \<times> site" where
  "set_role env sc raw form_role sv =
     (case sv_db sv of
        None \<Rightarrow> (StatusOf 503, sv)
      | Some P \<Rightarrow> (case scoped_target env P sc raw of
          Inl response \<Rightarrow> (response, sv)
        | Inr target \<Rightarrow>
            if is_scoped_self_edit sc (ur_username target) then (redirect_edit_flash (ur_username target) ''self-edit'', sv)
            else (let new_role = unwrap_or Viewer (role_parse form_role) in
              if \<not> may_assign_role sc new_role then (redirect_edit_flash (ur_username target) ''scope-role'', sv)
              else if would_strip_last_admin env P (ur_username target) (Some new_role) then (redirect_flash ''last-admin'', sv)
              else (case transact env QCommit (users_set_role (en_now env) (ur_username target) new_role (Some (scope_actor sc)) P) of
                   Inr P1 \<Rightarrow> (redirect_flash ''saved'', kick (ur_username target) (store_portal P1 sv))
                 | Inl _ \<Rightarrow> (redirect_flash ''bad-input'', sv)))))"

definition reset_password :: "request_env \<Rightarrow> editor_scope \<Rightarrow> string \<Rightarrow> string \<Rightarrow> site \<Rightarrow> reply \<times> site" where
  "reset_password env sc raw password sv =
     (case sv_db sv of
        None \<Rightarrow> (StatusOf 503, sv)
      | Some P \<Rightarrow> (case scoped_target env P sc raw of
          Inl response \<Rightarrow> (response, sv)
        | Inr target \<Rightarrow>
            if is_scoped_self_edit sc (ur_username target) then (redirect_edit_flash (ur_username target) ''self-edit'', sv)
            else if \<not> password_meets_policy password then (redirect_edit_flash (ur_username target) ''weak-password'', sv)
            else (case transact env QCommit (users_set_password (en_now env) (en_hash env password) (ur_username target) True
                  (Some (scope_actor sc)) P) of
                Inr P1 \<Rightarrow> (redirect_flash ''saved'', kick (ur_username target) (store_portal P1 sv))
              | Inl _ \<Rightarrow> (redirect_flash ''bad-input'', sv))))"

text \<open>The two operations only an administrator has: they fetch the target without a scope.\<close>

definition existing_target :: "request_env \<Rightarrow> portal \<Rightarrow> string \<Rightarrow> reply + string" where
  "existing_target env P raw =
     (let username = normalize_username raw in
      if \<not> is_valid_username username then Inl (StatusOf 404)
      else (case queried env QTarget (users_fetch username P) of
          Inr (Some _) \<Rightarrow> Inr username
        | Inr None \<Rightarrow> Inl (StatusOf 404)
        | Inl _ \<Rightarrow> Inl (StatusOf 500)))"

definition reset_mfa :: "request_env \<Rightarrow> session_info \<Rightarrow> string \<Rightarrow> site \<Rightarrow> reply \<times> site" where
  "reset_mfa env adm raw sv =
     (case sv_db sv of
        None \<Rightarrow> (StatusOf 503, sv)
      | Some P \<Rightarrow> (case existing_target env P raw of
          Inl response \<Rightarrow> (response, sv)
        | Inr username \<Rightarrow>
            (case transact env QCommit (Inr (P\<lparr>pt_mfa := mfa_reset (en_now env) username (session_actor adm) (pt_mfa P)\<rparr>)) of
               Inr P1 \<Rightarrow> (redirect_edit_flash username ''mfa-reset'', store_portal P1 sv)
             | Inl _ \<Rightarrow> (redirect_edit_flash username ''bad-input'', sv))))"

definition delete_account :: "request_env \<Rightarrow> session_info \<Rightarrow> string \<Rightarrow> site \<Rightarrow> reply \<times> site" where
  "delete_account env adm raw sv =
     (case sv_db sv of
        None \<Rightarrow> (StatusOf 503, sv)
      | Some P \<Rightarrow> (case existing_target env P raw of
          Inl response \<Rightarrow> (response, sv)
        | Inr username \<Rightarrow>
            if would_strip_last_admin env P username None then (redirect_flash ''last-admin'', sv)
            else (case transact env QCommit (users_delete (en_now env) username (Some (session_actor adm)) P) of
                Inr P1 \<Rightarrow> (redirect_flash ''deleted'', forget_identities (kick username (store_portal P1 sv)))
              | Inl _ \<Rightarrow> (redirect_flash ''bad-input'', sv))))"

section \<open>Groups\<close>

definition group_flash :: "string \<Rightarrow> reply" where
  "group_flash flash = RedirectTo (''/admin/groups?flash='' @ flash)"

definition clean_group :: "string \<Rightarrow> string option" where
  "clean_group raw = (let g = trim raw in if g = [] \<or> CHR '','' \<in> set g then None else Some g)"

definition save_memberships :: "request_env \<Rightarrow> user_row \<Rightarrow> string list \<Rightarrow> string \<Rightarrow> string \<Rightarrow> site \<Rightarrow> reply \<times> site" where
  "save_memberships env user groups actor success sv =
     (case sv_db sv of
        None \<Rightarrow> (group_flash ''bad-input'', sv)
      | Some P \<Rightarrow>
          (case transact env QCommit (users_set_groups (en_now env) (ur_username user) groups (Some actor) P) of
             Inr P1 \<Rightarrow> (group_flash success, forget_identities (store_portal P1 sv))
           | Inl _ \<Rightarrow> (group_flash ''bad-input'', sv)))"

definition group_create :: "request_env \<Rightarrow> session_info \<Rightarrow> string \<Rightarrow> string \<Rightarrow> site \<Rightarrow> reply \<times> site" where
  "group_create env adm form_group form_username sv =
     (case clean_group form_group of
        None \<Rightarrow> (group_flash ''bad-input'', sv)
      | Some grp \<Rightarrow> (case sv_db sv of
          None \<Rightarrow> (group_flash ''bad-input'', sv)
        | Some P \<Rightarrow> (case queried env QTarget (users_fetch form_username P) of
            Inr (Some user) \<Rightarrow>
              save_memberships env user (if grp \<in> set (ur_groups user) then ur_groups user else ur_groups user @ [grp])
                (session_actor adm) ''created'' sv
          | _ \<Rightarrow> (group_flash ''bad-input'', sv))))"

definition add_member :: "request_env \<Rightarrow> editor_scope \<Rightarrow> string \<Rightarrow> string \<Rightarrow> site \<Rightarrow> reply \<times> site" where
  "add_member env sc form_group form_username sv =
     (case clean_group form_group of
        None \<Rightarrow> (group_flash ''bad-input'', sv)
      | Some grp \<Rightarrow>
          if \<not> may_touch_group sc grp then (StatusOf 404, sv)
          else (case sv_db sv of
            None \<Rightarrow> (group_flash ''bad-input'', sv)
          | Some P \<Rightarrow> (case queried env QTarget (users_fetch form_username P) of
              Inr (Some user) \<Rightarrow>
                (let kept = filter (may_touch_group sc) (ur_groups user);
                     requested = (if grp \<in> set kept then kept else kept @ [grp]);
                     groups = merge_preserving_out_of_scope sc (ur_groups user) requested
                 in if \<not> may_touch_user sc (user\<lparr>ur_groups := groups\<rparr>) then (StatusOf 404, sv)
                    else save_memberships env user groups (scope_actor sc) ''member-added'' sv)
            | _ \<Rightarrow> (StatusOf 404, sv))))"

definition remove_member :: "request_env \<Rightarrow> editor_scope \<Rightarrow> string \<Rightarrow> string \<Rightarrow> site \<Rightarrow> reply \<times> site" where
  "remove_member env sc form_group form_username sv =
     (case clean_group form_group of
        None \<Rightarrow> (group_flash ''bad-input'', sv)
      | Some grp \<Rightarrow>
          if \<not> may_touch_group sc grp then (StatusOf 404, sv)
          else (case sv_db sv of
            None \<Rightarrow> (group_flash ''bad-input'', sv)
          | Some P \<Rightarrow> (case queried env QTarget (users_fetch form_username P) of
              Inr (Some user) \<Rightarrow>
                if \<not> may_touch_user sc user then (StatusOf 404, sv)
                else save_memberships env user
                  (merge_preserving_out_of_scope sc (ur_groups user) (filter (\<lambda>g. g \<noteq> grp \<and> may_touch_group sc g) (ur_groups user)))
                  (scope_actor sc) ''member-removed'' sv
            | _ \<Rightarrow> (StatusOf 404, sv))))"

text \<open>
  A rename or a deletion rewrites the name in every account and every app. A write that fails is logged and
  passed over; the accounts and the apps are listed once, before the writes.
\<close>

definition rewrite_names :: "string \<Rightarrow> string option \<Rightarrow> string list \<Rightarrow> string list" where
  "rewrite_names old new groups =
     (let kept = filter (\<lambda>g. g \<noteq> old) groups in
      case new of None \<Rightarrow> kept | Some n \<Rightarrow> if n \<in> set kept then kept else kept @ [n])"

definition rewrite_user :: "request_env \<Rightarrow> string \<Rightarrow> string option \<Rightarrow> string \<Rightarrow> user_row \<Rightarrow> portal \<Rightarrow> portal" where
  "rewrite_user env old new actor u P =
     (if old \<notin> set (ur_groups u) \<or> en_item_fails env (ur_username u) then P
      else (case users_set_groups (en_now env) (ur_username u) (rewrite_names old new (ur_groups u)) (Some actor) P of
          Inl _ \<Rightarrow> P | Inr P1 \<Rightarrow> P1))"

definition rewrite_spec :: "request_env \<Rightarrow> string \<Rightarrow> string option \<Rightarrow> string \<Rightarrow> spec \<Rightarrow> catalog \<Rightarrow> catalog" where
  "rewrite_spec env old new actor sp C =
     (case sp_access_groups sp of
        None \<Rightarrow> C
      | Some ag \<Rightarrow>
          if old \<notin> set ag \<or> en_item_fails env (sp_id sp) then C
          else (let groups = rewrite_names old new ag in
            committed_to C (upsert_one (en_codec env) (en_now env)
              (sp\<lparr>sp_access_groups := (if groups = [] then None else Some groups)\<rparr>) (Some actor) C)))"

definition rewrite_group :: "request_env \<Rightarrow> string \<Rightarrow> string option \<Rightarrow> string \<Rightarrow> site \<Rightarrow> site" where
  "rewrite_group env old new actor sv =
     (case sv_db sv of
        None \<Rightarrow> sv
      | Some P \<Rightarrow>
          (let sv1 = (case queried env QListUsers (list_all_users P) of
               Inl _ \<Rightarrow> sv
             | Inr us \<Rightarrow> forget_identities (store_portal (fold (rewrite_user env old new actor) us P) sv))
           in (case (if en_fails env QListSpecs then Inl ''db error'' else specs_list_all (en_codec env) (sv_catalog sv1)) of
               Inl _ \<Rightarrow> sv1
             | Inr sps \<Rightarrow> sv1\<lparr>sv_catalog := fold (rewrite_spec env old new actor) sps (sv_catalog sv1)\<rparr>)))"

definition group_rename :: "request_env \<Rightarrow> session_info \<Rightarrow> string \<Rightarrow> string \<Rightarrow> site \<Rightarrow> reply \<times> site" where
  "group_rename env adm form_old form_new sv =
     (case (clean_group form_old, clean_group form_new) of
        (Some old, Some new) \<Rightarrow>
          if old = new then (group_flash ''renamed'', sv)
          else (group_flash ''renamed'', rewrite_group env old (Some new) (session_actor adm) sv)
      | _ \<Rightarrow> (group_flash ''bad-input'', sv))"

definition group_delete :: "request_env \<Rightarrow> session_info \<Rightarrow> string \<Rightarrow> site \<Rightarrow> reply \<times> site" where
  "group_delete env adm form_name sv =
     (case clean_group form_name of
        None \<Rightarrow> (group_flash ''bad-input'', sv)
      | Some name \<Rightarrow> (group_flash ''deleted'', rewrite_group env name None (session_actor adm) sv))"

section \<open>A request on the accounts\<close>

datatype user_request =
    Create create_form
  | SaveEdit string edit_form
  | SetProfile string profile_form
  | SetGroups string string
  | SetRole string string
  | ResetPassword string string
  | ResetMfa string
  | Delete string
  | GroupCreate string string
  | GroupRename string string
  | GroupDelete string
  | AddMember string string
  | RemoveMember string string

fun user_handler :: "user_request \<Rightarrow> request_env \<Rightarrow> session_info \<Rightarrow> editor_scope \<Rightarrow> site \<Rightarrow> reply \<times> site" where
  "user_handler (Create form) env s sc sv = create_account env sc form sv"
| "user_handler (SaveEdit u form) env s sc sv = save_edit env sc u form sv"
| "user_handler (SetProfile u form) env s sc sv = set_profile env sc u form sv"
| "user_handler (SetGroups u gs) env s sc sv = set_groups env sc u gs sv"
| "user_handler (SetRole u r) env s sc sv = set_role env sc u r sv"
| "user_handler (ResetPassword u p) env s sc sv = reset_password env sc u p sv"
| "user_handler (ResetMfa u) env s sc sv = reset_mfa env s u sv"
| "user_handler (Delete u) env s sc sv = delete_account env s u sv"
| "user_handler (GroupCreate g u) env s sc sv = group_create env s g u sv"
| "user_handler (GroupRename g h) env s sc sv = group_rename env s g h sv"
| "user_handler (GroupDelete g) env s sc sv = group_delete env s g sv"
| "user_handler (AddMember g u) env s sc sv = add_member env sc g u sv"
| "user_handler (RemoveMember g u) env s sc sv = remove_member env sc g u sv"

fun admin_only :: "user_request \<Rightarrow> bool" where
  "admin_only (ResetMfa _) \<longleftrightarrow> True"
| "admin_only (Delete _) \<longleftrightarrow> True"
| "admin_only (GroupCreate _ _) \<longleftrightarrow> True"
| "admin_only (GroupRename _ _) \<longleftrightarrow> True"
| "admin_only (GroupDelete _) \<longleftrightarrow> True"
| "admin_only _ \<longleftrightarrow> False"

text \<open>
  The extractors run first: the session of the cookie, the role the handler requires, and for the handlers of
  an Editor the scope, read from the database of that moment.
\<close>

definition user_call :: "user_request \<Rightarrow> request_env \<Rightarrow> (string \<rightharpoonup> string) \<Rightarrow> site \<Rightarrow> reply \<times> site" where
  "user_call rq env cookies sv =
     (case extract_session (sv_auth sv) (en_clock env) cookies (sv_sessions sv) of (who, st) \<Rightarrow>
        (let sv1 = sv\<lparr>sv_sessions := st\<rparr> in
         case (if admin_only rq then require_admin who else require_editor who) of
           Inl e \<Rightarrow> (Rejected e, sv1)
         | Inr s \<Rightarrow>
             user_handler rq env s
               (scope_from_editor (map_option (\<lambda>P u. queried env QScope (users_fetch u P)) (sv_db sv1)) s) sv1))"

section \<open>Names\<close>

lemma byte_lower: "is_upper c \<Longrightarrow> byte (lower_char c) = byte c + 32"
  by (simp add: lower_char_def is_upper_def)

lemma lower_char_idem [simp]: "lower_char (lower_char c) = lower_char c"
proof (cases "is_upper c")
  case True
  then have "\<not> is_upper (lower_char c)" using byte_lower [OF True] by (simp add: is_upper_def)
  then show ?thesis by (simp add: lower_char_def [of "lower_char c"])
qed (simp add: lower_char_def)

lemma is_ws_lower [simp]: "is_ws (lower_char c) \<longleftrightarrow> is_ws c"
proof (cases "is_upper c")
  case True
  then show ?thesis using byte_lower [OF True] by (simp add: is_ws_def is_upper_def)
qed (simp add: lower_char_def)

lemma trim_lowercase: "trim (lowercase s) = lowercase (trim s)"
  by (simp add: trim_def trim_start_def trim_end_def lowercase_def dropWhile_map rev_map o_def)

lemma normalize_idem [simp]: "normalize_username (normalize_username s) = normalize_username s"
proof -
  have "lowercase (lowercase t) = lowercase t" for t by (simp add: lowercase_def o_def)
  then show ?thesis by (simp add: normalize_username_def trim_lowercase)
qed

lemma users_fetch_Some:
  "users_fetch v P = Some u \<longleftrightarrow> (\<exists>y. user_at (normalize_username v) P = Some y \<and> u = row_from y)"
  by (auto simp: users_fetch_def)

lemma user_at_Some: "user_at u P = Some y \<Longrightarrow> y \<in> set (pt_users P) \<and> us_username y = u"
  unfolding user_at_def by (rule find_Some_mem)

lemma row_from_simps [simp]:
  "ur_username (row_from y) = us_username y" "ur_groups (row_from y) = parse_groups (us_groups y)"
  "ur_role (row_from y) = unwrap_or Viewer (role_parse (us_role y))"
  by (simp_all add: row_from_def)

lemma wf_role: "portal_wf P \<Longrightarrow> y \<in> set (pt_users P) \<Longrightarrow> \<exists>r. us_role y = role_as_str r"
  by (auto simp: portal_wf_def list_all_iff stored_ok_def)

lemma row_role_admin: "portal_wf P \<Longrightarrow> y \<in> set (pt_users P) \<Longrightarrow> ur_role (row_from y) = Admin \<longleftrightarrow> us_role y = ''admin''"
  using wf_role by (fastforce simp: unwrap_or_def)

lemma wf_unique: "portal_wf P \<Longrightarrow> x \<in> set (pt_users P) \<Longrightarrow> y \<in> set (pt_users P) \<Longrightarrow> us_username x = us_username y \<Longrightarrow> x = y"
  by (auto simp: portal_wf_def distinct_map inj_on_def)

lemma scoped_target_Inr:
  assumes "scoped_target env P sc raw = Inr u"
  obtains y where "y \<in> set (pt_users P)" "u = row_from y" "normalize_username (us_username y) = us_username y" "may_touch_user sc (row_from y)"
proof -
  from assms obtain y where "user_at (normalize_username raw) P = Some y" "u = row_from y" "may_touch_user sc (row_from y)"
    by (auto simp: scoped_target_def Let_def queried_def users_fetch_Some split: if_splits sum.splits option.splits)
  with user_at_Some [of "normalize_username raw" P y] that show ?thesis by auto
qed

section \<open>What a transaction leaves of the rows\<close>

lemma update_where_rows:
  "snd (update_where u c upd us) = map (\<lambda>x. if us_username x = u \<and> c x then upd x else x) us"
  by (simp add: update_where_def Let_def)

lemma transact_Inr [simp]: "transact env q r = Inr P' \<longleftrightarrow> \<not> en_fails env q \<and> r = Inr P'"
  by (simp add: transact_def)

lemma set_groups_rows:
  "users_set_groups now v gs actor P = Inr P' \<Longrightarrow>
     pt_users P' = map (\<lambda>x. if us_username x = normalize_username v then x\<lparr>us_groups := join_groups gs, us_updated_at := now\<rparr> else x) (pt_users P)"
  by (auto simp: users_set_groups_def Let_def commit_update_Inr update_where_rows)

lemma profile_rows:
  "update_profile now v setor email cel actor P = Inr P' \<Longrightarrow>
     pt_users P' = map (\<lambda>x. if us_username x = normalize_username v then x\<lparr>us_setor := clean_field setor, us_email := clean_field email,
       us_celular := clean_field cel, us_updated_at := now\<rparr> else x) (pt_users P)"
  by (auto simp: update_profile_def Let_def commit_update_Inr update_where_rows)

lemma set_role_rows:
  "users_set_role now v r actor P = Inr P' \<Longrightarrow>
     pt_users P' = map (\<lambda>x. if us_username x = normalize_username v \<and> keeps_an_admin P (Some r) x
       then x\<lparr>us_role := role_as_str r, us_updated_at := now\<rparr> else x) (pt_users P)"
  by (auto simp: users_set_role_def Let_def commit_update_Inr update_where_rows)

lemma account_rows:
  "update_account now v up actor P = Inr P' \<Longrightarrow>
     pt_users P' = map (\<lambda>x. if us_username x = normalize_username v \<and> keeps_an_admin P (Some (acc_role up)) x
       then x\<lparr>us_role := role_as_str (acc_role up), us_groups := join_groups (acc_groups up), us_setor := clean_field (acc_setor up),
         us_email := clean_field (acc_email up), us_celular := clean_field (acc_celular up), us_updated_at := now\<rparr> else x) (pt_users P)"
  by (auto simp: update_account_def Let_def commit_update_Inr update_where_rows)

lemma password_rows:
  "users_set_password now hashed v mc actor P = Inr P' \<Longrightarrow>
     \<exists>h. pt_users P' = map (\<lambda>x. if us_username x = normalize_username v
       then x\<lparr>us_hash := h, us_must_change := mc, us_updated_at := now\<rparr> else x) (pt_users P)"
  by (drule set_password_Inr) (auto simp: Let_def update_where_rows)

lemma create_rows:
  "users_create new now hashed v r mc gs actor P = Inr P' \<Longrightarrow>
     \<exists>h. pt_users P' = pt_users P @ [new_user new now (normalize_username v) h r mc gs actor]
       \<and> normalize_username v \<notin> us_username ` set (pt_users P)"
  by (auto simp: users_create_Inr)

section \<open>Properties: what an Editor may do\<close>

text \<open>The change from one row to another an Editor named \<open>a\<close> with the groups \<open>G\<close> may make.\<close>

definition same_rights :: "user \<Rightarrow> user \<Rightarrow> bool" where
  "same_rights y x \<longleftrightarrow> us_username x = us_username y \<and> us_role x = us_role y \<and> us_hash x = us_hash y \<and> us_groups x = us_groups y"

definition memberships :: "user \<Rightarrow> string set" where
  "memberships y = set (parse_groups (us_groups y))"

definition editor_may :: "string set \<Rightarrow> string \<Rightarrow> user \<Rightarrow> user \<Rightarrow> bool" where
  "editor_may G a y x \<longleftrightarrow> same_rights y x \<or>
     (us_username x = us_username y \<and> us_role y \<noteq> ''admin'' \<and> us_role x \<noteq> ''admin''
       \<and> memberships x - G = memberships y - G
       \<and> (us_username y = a \<longrightarrow> us_role x = us_role y \<and> us_hash x = us_hash y \<and> memberships x \<subseteq> memberships y)
       \<and> (us_role x \<noteq> us_role y \<or> us_hash x \<noteq> us_hash y \<longrightarrow> memberships y \<inter> G \<noteq> {}))"

definition editor_may_enrol :: "string set \<Rightarrow> user \<Rightarrow> bool" where
  "editor_may_enrol G x \<longleftrightarrow> us_role x \<noteq> ''admin'' \<and> memberships x \<noteq> {} \<and> memberships x \<subseteq> G"

definition editor_ok :: "string set \<Rightarrow> string \<Rightarrow> user list \<Rightarrow> user list \<Rightarrow> bool" where
  "editor_ok G a us us' \<longleftrightarrow> (\<forall>y \<in> set us. \<exists>x \<in> set us'. editor_may G a y x)
     \<and> (\<forall>x \<in> set us'. (\<exists>y \<in> set us. editor_may G a y x) \<or> editor_may_enrol G x)"

lemma same_rights_refl [simp]: "same_rights y y"
  by (simp add: same_rights_def)

lemma editor_may_refl [simp]: "editor_may G a y y"
  by (simp add: editor_may_def)

lemma editor_ok_refl [simp]: "editor_ok G a us us"
  unfolding editor_ok_def by (meson editor_may_refl)

lemma editor_ok_map: "(\<And>y. y \<in> set us \<Longrightarrow> editor_may G a y (f y)) \<Longrightarrow> editor_ok G a us (map f us)"
  by (auto simp: editor_ok_def)

lemma editor_may_same: "editor_may G a y x \<Longrightarrow> same_rights x z \<Longrightarrow> editor_may G a y z"
  by (auto simp: editor_may_def same_rights_def memberships_def)

lemma editor_enrol_same: "editor_may_enrol G x \<Longrightarrow> same_rights x z \<Longrightarrow> editor_may_enrol G z"
  by (auto simp: editor_may_enrol_def same_rights_def memberships_def)

lemma editor_ok_same:
  "editor_ok G a us us' \<Longrightarrow> (\<And>x. same_rights x (f x)) \<Longrightarrow> editor_ok G a us (map f us')"
  unfolding editor_ok_def by (simp; meson editor_may_same editor_enrol_same)

lemma editor_ok_target:
  assumes "us' = map (\<lambda>x. if us_username x = us_username y \<and> c x then upd x else x) (pt_users P)"
    and "portal_wf P" and "y \<in> set (pt_users P)" and "editor_may G a y (upd y)"
  shows "editor_ok G a (pt_users P) us'"
  unfolding assms(1) using wf_unique [OF assms(2) _ assms(3)] assms(4) by (intro editor_ok_map) auto

lemma editor_ok_named:
  assumes "us' = map (\<lambda>x. if us_username x = us_username y then upd x else x) (pt_users P)"
    and "portal_wf P" and "y \<in> set (pt_users P)" and "editor_may G a y (upd y)"
  shows "editor_ok G a (pt_users P) us'"
  using editor_ok_target [of us' y "\<lambda>_. True" upd P G a] assms by simp

lemma memberships_written: "canonical gs \<Longrightarrow> memberships (x\<lparr>us_groups := join_groups gs\<rparr>) = set gs"
  by (simp add: memberships_def join_groups_def parse_groups_join)

lemma merge_editor:
  assumes "\<not> es_unscoped sc" and "canonical gs" and "canonical existing"
  shows "canonical (merge_preserving_out_of_scope sc existing gs)"
    "set (merge_preserving_out_of_scope sc existing gs) - set (es_groups sc) = set existing - set (es_groups sc)"
    "set (merge_preserving_out_of_scope sc existing gs) \<subseteq> set existing \<union> set (es_groups sc)"
  using assms by (auto simp: set_merge intro: merge_canonical)

text \<open>The scope of an Editor: the groups of the own row, or none.\<close>

definition editor_scope_of :: "string \<Rightarrow> portal \<Rightarrow> editor_scope \<Rightarrow> bool" where
  "editor_scope_of a P sc \<longleftrightarrow> \<not> es_unscoped sc \<and> es_actor sc = Some a
     \<and> (\<forall>y. y \<in> set (pt_users P) \<longrightarrow> us_username y = a \<longrightarrow> normalize_username a = a \<longrightarrow> set (es_groups sc) \<subseteq> memberships y)"

lemma editor_groups_written:
  assumes "portal_wf P" and "editor_scope_of a P sc" and "y \<in> set (pt_users P)" and "normalize_username (us_username y) = us_username y"
    and "us_role y \<noteq> ''admin''" and "us_role x = us_role y" "us_hash x = us_hash y" "us_username x = us_username y"
    and "memberships x = set (merge_preserving_out_of_scope sc (parse_groups (us_groups y)) gs)" and "canonical gs"
  shows "editor_may (set (es_groups sc)) a y x"
proof -
  from assms(2) have "\<not> es_unscoped sc" by (simp add: editor_scope_of_def)
  note m = merge_editor [OF this assms(10) parse_groups_canonical [of "us_groups y"]]
  have "memberships x \<subseteq> memberships y" if "us_username y = a"
    using assms(2,3,4,9) m(3) that by (auto simp: editor_scope_of_def memberships_def)
  with assms m(2) show ?thesis by (auto simp: editor_may_def memberships_def)
qed

lemma touched_is_not_admin:
  assumes "portal_wf P" and "\<not> es_unscoped sc" and "y \<in> set (pt_users P)" and "may_touch_user sc (row_from y)"
  shows "us_role y \<noteq> ''admin'' \<and> memberships y \<inter> set (es_groups sc) \<noteq> {}"
  using assms row_role_admin [OF assms(1,3)] by (auto simp: may_touch_user_def list_ex_iff memberships_def)

definition rows_of :: "site \<Rightarrow> user list" where
  "rows_of sv = (case sv_db sv of None \<Rightarrow> [] | Some P \<Rightarrow> pt_users P)"

lemma rows_of_simps [simp]:
  "rows_of (store_portal P sv) = pt_users P" "rows_of (kick u sv) = rows_of sv" "rows_of (forget_identities sv) = rows_of sv"
  "rows_of (sv\<lparr>sv_sessions := st\<rparr>) = rows_of sv" "rows_of (sv\<lparr>sv_catalog := C\<rparr>) = rows_of sv"
  by (simp_all add: rows_of_def store_portal_def kick_def forget_identities_def)

lemma rows_kept: "sv_db sv = Some P \<Longrightarrow> rows_of sv = pt_users P"
  by (simp add: rows_of_def)

text \<open>An Editor acts on \<open>P\<close> in the scope \<open>sc\<close>.\<close>

definition editor_acts :: "string \<Rightarrow> portal \<Rightarrow> editor_scope \<Rightarrow> site \<Rightarrow> bool" where
  "editor_acts a P sc sv \<longleftrightarrow> portal_wf P \<and> editor_scope_of a P sc \<and> sv_db sv = Some P"

abbreviation editor_result :: "string \<Rightarrow> portal \<Rightarrow> editor_scope \<Rightarrow> reply \<times> site \<Rightarrow> bool" where
  "editor_result a P sc r \<equiv> editor_ok (set (es_groups sc)) a (pt_users P) (rows_of (snd r))"

lemma editor_unscoped: "editor_acts a P sc sv \<Longrightarrow> \<not> es_unscoped sc"
  by (simp add: editor_acts_def editor_scope_of_def)

lemma editor_self: "editor_acts a P sc sv \<Longrightarrow> is_scoped_self_edit sc u \<longleftrightarrow> u = a"
  by (auto simp: editor_acts_def editor_scope_of_def is_scoped_self_edit_def)

lemma editor_create:
  assumes e: "editor_acts a P sc sv"
  shows "editor_result a P sc (create_account env sc form sv)"
proof (cases "snd (create_account env sc form sv) = sv")
  case True
  with e show ?thesis by (simp add: editor_acts_def rows_kept)
next
  case False
  let ?u = "normalize_username (cf_username form)" and ?r = "unwrap_or Viewer (role_parse (cf_role form))" and ?gs = "parse_groups (cf_groups form)"
  from e have db: "sv_db sv = Some P" by (simp add: editor_acts_def)
  from False db obtain P1 where may: "may_assign_role sc ?r" "may_assign_groups sc ?gs" "?gs \<noteq> []"
    and P1: "users_create (en_id env) (en_now env) (en_hash env (cf_password form)) ?u ?r True ?gs (Some (scope_actor sc)) P = Inr P1"
    and res: "snd (create_account env sc form sv) = store_portal P1 sv \<or>
      (\<exists>P2. update_profile (en_now env) ?u (Some (cf_setor form)) (Some (cf_email form)) (Some (cf_celular form)) (Some (scope_actor sc)) P1 = Inr P2
        \<and> snd (create_account env sc form sv) = store_portal P2 sv)"
    using editor_unscoped [OF e]
    by (auto simp: create_account_def Let_def transact_def split: if_splits sum.splits)
  from create_rows [OF P1] obtain h where rows: "pt_users P1 = pt_users P @ [new_user (en_id env) (en_now env) ?u h ?r True ?gs (Some (scope_actor sc))]"
    by auto
  have "editor_may_enrol (set (es_groups sc)) (new_user (en_id env) (en_now env) ?u h ?r True ?gs (Some (scope_actor sc)))"
    using may editor_unscoped [OF e] parse_groups_canonical [of "cf_groups form"]
    by (auto simp: editor_may_enrol_def may_assign_role_def may_assign_groups_def list_all_iff memberships_def join_groups_def parse_groups_join)
  with rows have P1': "editor_ok (set (es_groups sc)) a (pt_users P) (pt_users P1)"
    unfolding editor_ok_def by (auto intro: editor_may_refl)
  from res show ?thesis
  proof
    assume "snd (create_account env sc form sv) = store_portal P1 sv"
    with P1' show ?thesis by simp
  next
    assume "\<exists>P2. update_profile (en_now env) ?u (Some (cf_setor form)) (Some (cf_email form)) (Some (cf_celular form)) (Some (scope_actor sc)) P1 = Inr P2
        \<and> snd (create_account env sc form sv) = store_portal P2 sv"
    then obtain P2 where "update_profile (en_now env) ?u (Some (cf_setor form)) (Some (cf_email form)) (Some (cf_celular form)) (Some (scope_actor sc)) P1 = Inr P2"
      and P2: "snd (create_account env sc form sv) = store_portal P2 sv" by blast
    from profile_rows [OF this(1)] editor_ok_same [OF P1'] P2 show ?thesis by (simp add: same_rights_def)
  qed
qed

text \<open>The handlers that work on a target: either nothing happens, or the target is in scope and its transaction commits.\<close>

lemma editor_profile:
  assumes e: "editor_acts a P sc sv"
  shows "editor_result a P sc (set_profile env sc raw form sv)"
proof -
  from e have db: "sv_db sv = Some P" by (simp add: editor_acts_def)
  have "editor_ok (set (es_groups sc)) a (pt_users P) (pt_users P')"
    if "update_profile now v s1 s2 s3 act P = Inr P'" for now v s1 s2 s3 act P'
    unfolding profile_rows [OF that] by (rule editor_ok_same) (simp_all add: same_rights_def)
  with db show ?thesis
    by (auto simp: set_profile_def rows_kept split: sum.splits)
qed

text \<open>Writing merged memberships, whatever was asked for.\<close>

lemma editor_memberships:
  assumes e: "editor_acts a P sc sv" and y: "y \<in> set (pt_users P)" "normalize_username (us_username y) = us_username y" "us_role y \<noteq> ''admin''"
    and gs: "canonical gs"
    and P1: "users_set_groups now (us_username y) (merge_preserving_out_of_scope sc (parse_groups (us_groups y)) gs) act P = Inr P1"
  shows "editor_ok (set (es_groups sc)) a (pt_users P) (pt_users P1)"
proof -
  from e have wf: "portal_wf P" and sc: "editor_scope_of a P sc" by (simp_all add: editor_acts_def)
  let ?gs = "merge_preserving_out_of_scope sc (parse_groups (us_groups y)) gs"
  have "canonical ?gs" using merge_canonical parse_groups_canonical gs by blast
  then have "editor_may (set (es_groups sc)) a y (y\<lparr>us_groups := join_groups ?gs, us_updated_at := now\<rparr>)"
    using y gs by (intro editor_groups_written [OF wf sc y(1,2,3), of _ gs])
      (simp_all add: memberships_def join_groups_def parse_groups_join)
  with editor_ok_named [OF set_groups_rows [OF P1, unfolded y(2)] wf y(1)] show ?thesis by simp
qed

lemma editor_set_groups:
  assumes e: "editor_acts a P sc sv"
  shows "editor_result a P sc (set_groups env sc raw gs sv)"
proof (cases "snd (set_groups env sc raw gs sv) = sv")
  case True
  with e show ?thesis by (simp add: editor_acts_def rows_kept)
next
  case False
  from e have db: "sv_db sv = Some P" and wf: "portal_wf P" by (simp_all add: editor_acts_def)
  from False db obtain u P1 where u: "scoped_target env P sc raw = Inr u"
    and P1: "users_set_groups (en_now env) (ur_username u) (merge_preserving_out_of_scope sc (ur_groups u) (parse_groups gs)) (Some (scope_actor sc)) P = Inr P1"
    and res: "snd (set_groups env sc raw gs sv) = forget_identities (store_portal P1 sv)"
    by (auto simp: set_groups_def Let_def transact_def split: if_splits sum.splits)
  from scoped_target_Inr [OF u] obtain y where y: "y \<in> set (pt_users P)" "u = row_from y" "normalize_username (us_username y) = us_username y"
    "may_touch_user sc (row_from y)" .
  with touched_is_not_admin [OF wf editor_unscoped [OF e] y(1,4)] P1 res show ?thesis
    by (auto intro!: editor_memberships [OF e] simp: parse_groups_canonical)
qed

lemma editor_save_memberships:
  assumes e: "editor_acts a P sc sv" and y: "user_at (normalize_username v) P = Some y" "us_role y \<noteq> ''admin''" and gs: "canonical gs"
  shows "editor_result a P sc (save_memberships env (row_from y) (merge_preserving_out_of_scope sc (parse_groups (us_groups y)) gs) act flash sv)"
proof -
  from e have db: "sv_db sv = Some P" by (simp add: editor_acts_def)
  from user_at_Some [OF y(1)] have "y \<in> set (pt_users P)" "normalize_username (us_username y) = us_username y" by auto
  from editor_memberships [OF e this y(2) gs] db show ?thesis
    by (auto simp: save_memberships_def transact_def rows_kept split: sum.splits)
qed

lemma editor_add_member:
  assumes e: "editor_acts a P sc sv"
  shows "editor_result a P sc (add_member env sc g v sv)"
proof (cases "snd (add_member env sc g v sv) = sv")
  case True
  with e show ?thesis by (simp add: editor_acts_def rows_kept)
next
  case False
  from e have db: "sv_db sv = Some P" and wf: "portal_wf P" and sc: "\<not> es_unscoped sc" by (simp_all add: editor_acts_def editor_scope_of_def)
  from False db obtain grp u where g: "clean_group g = Some grp" and u: "users_fetch v P = Some u"
    by (auto simp: add_member_def queried_def split: if_splits option.splits)
  from u obtain y where y: "user_at (normalize_username v) P = Some y" "u = row_from y" by (auto simp: users_fetch_Some)
  let ?kept = "filter (may_touch_group sc) (parse_groups (us_groups y))"
  let ?gs = "if grp \<in> set ?kept then ?kept else ?kept @ [grp]"
  have can: "canonical ?gs"
    using parse_groups_canonical [of "us_groups y"] g by (auto simp: canonical_def clean_group_def Let_def split: if_splits)
  from False db g u y have res: "add_member env sc g v sv
      = save_memberships env (row_from y) (merge_preserving_out_of_scope sc (parse_groups (us_groups y)) ?gs) (scope_actor sc) ''member-added'' sv"
    and t: "may_touch_user sc ((row_from y)\<lparr>ur_groups := merge_preserving_out_of_scope sc (parse_groups (us_groups y)) ?gs\<rparr>)"
    by (auto simp: add_member_def queried_def Let_def split: if_splits)
  have "us_role y \<noteq> ''admin''"
    using t sc row_role_admin [OF wf] user_at_Some [OF y(1)] by (auto simp: may_touch_user_def)
  with editor_save_memberships [OF e y(1) _ can] show ?thesis unfolding res by simp
qed

lemma editor_remove_member:
  assumes e: "editor_acts a P sc sv"
  shows "editor_result a P sc (remove_member env sc g v sv)"
proof (cases "snd (remove_member env sc g v sv) = sv")
  case True
  with e show ?thesis by (simp add: editor_acts_def rows_kept)
next
  case False
  from e have db: "sv_db sv = Some P" and wf: "portal_wf P" by (simp_all add: editor_acts_def)
  from False db obtain grp u where u: "users_fetch v P = Some u" and g: "clean_group g = Some grp"
    by (auto simp: remove_member_def queried_def split: if_splits option.splits)
  from u obtain y where y: "user_at (normalize_username v) P = Some y" "u = row_from y" by (auto simp: users_fetch_Some)
  let ?gs = "filter (\<lambda>h. h \<noteq> grp \<and> may_touch_group sc h) (parse_groups (us_groups y))"
  have can: "canonical ?gs" using parse_groups_canonical [of "us_groups y"] by (auto simp: canonical_def)
  from False db g u y have res: "remove_member env sc g v sv
      = save_memberships env (row_from y) (merge_preserving_out_of_scope sc (parse_groups (us_groups y)) ?gs) (scope_actor sc) ''member-removed'' sv"
    and t: "may_touch_user sc (row_from y)"
    by (auto simp: remove_member_def queried_def Let_def split: if_splits)
  from touched_is_not_admin [OF wf editor_unscoped [OF e] _ t] user_at_Some [OF y(1)] editor_save_memberships [OF e y(1) _ can]
  show ?thesis unfolding res by simp
qed

lemma editor_set_role:
  assumes e: "editor_acts a P sc sv"
  shows "editor_result a P sc (set_role env sc raw r sv)"
proof (cases "snd (set_role env sc raw r sv) = sv")
  case True
  with e show ?thesis by (simp add: editor_acts_def rows_kept)
next
  case False
  from e have db: "sv_db sv = Some P" and wf: "portal_wf P" by (simp_all add: editor_acts_def)
  let ?r = "unwrap_or Viewer (role_parse r)"
  from False db obtain u P1 where u: "scoped_target env P sc raw = Inr u" and may: "may_assign_role sc ?r" "ur_username u \<noteq> a"
    and P1: "users_set_role (en_now env) (ur_username u) ?r (Some (scope_actor sc)) P = Inr P1"
    and res: "snd (set_role env sc raw r sv) = kick (ur_username u) (store_portal P1 sv)"
    by (auto simp: set_role_def Let_def transact_def editor_self [OF e] split: if_splits sum.splits)
  from scoped_target_Inr [OF u] obtain y where y: "y \<in> set (pt_users P)" "u = row_from y" "normalize_username (us_username y) = us_username y"
    "may_touch_user sc (row_from y)" .
  have "editor_may (set (es_groups sc)) a y (y\<lparr>us_role := role_as_str ?r, us_updated_at := en_now env\<rparr>)"
    using touched_is_not_admin [OF wf editor_unscoped [OF e] y(1,4)] may y(2) editor_unscoped [OF e]
    by (auto simp: editor_may_def memberships_def may_assign_role_def)
  with editor_ok_target [OF set_role_rows [OF P1, unfolded y(2), unfolded row_from_simps y(3)] wf y(1)] res show ?thesis by simp
qed

lemma editor_reset_password:
  assumes e: "editor_acts a P sc sv"
  shows "editor_result a P sc (reset_password env sc raw pw sv)"
proof (cases "snd (reset_password env sc raw pw sv) = sv")
  case True
  with e show ?thesis by (simp add: editor_acts_def rows_kept)
next
  case False
  from e have db: "sv_db sv = Some P" and wf: "portal_wf P" by (simp_all add: editor_acts_def)
  from False db obtain u P1 where u: "scoped_target env P sc raw = Inr u" and may: "ur_username u \<noteq> a"
    and P1: "users_set_password (en_now env) (en_hash env pw) (ur_username u) True (Some (scope_actor sc)) P = Inr P1"
    and res: "snd (reset_password env sc raw pw sv) = kick (ur_username u) (store_portal P1 sv)"
    by (auto simp: reset_password_def Let_def transact_def editor_self [OF e] split: if_splits sum.splits)
  from scoped_target_Inr [OF u] obtain y where y: "y \<in> set (pt_users P)" "u = row_from y" "normalize_username (us_username y) = us_username y"
    "may_touch_user sc (row_from y)" .
  from password_rows [OF P1] obtain h where rows: "pt_users P1 = map (\<lambda>x. if us_username x = us_username y
      then x\<lparr>us_hash := h, us_must_change := True, us_updated_at := en_now env\<rparr> else x) (pt_users P)"
    by (auto simp: y(2,3))
  have "editor_may (set (es_groups sc)) a y (y\<lparr>us_hash := h, us_must_change := True, us_updated_at := en_now env\<rparr>)"
    using touched_is_not_admin [OF wf editor_unscoped [OF e] y(1,4)] may y(2)
    by (auto simp: editor_may_def memberships_def)
  with editor_ok_named [OF rows wf y(1)] res show ?thesis by simp
qed

lemma editor_save_edit:
  assumes e: "editor_acts a P sc sv"
  shows "editor_result a P sc (save_edit env sc raw form sv)"
proof (cases "snd (save_edit env sc raw form sv) = sv")
  case True
  with e show ?thesis by (simp add: editor_acts_def rows_kept)
next
  case False
  from e have db: "sv_db sv = Some P" and wf: "portal_wf P" by (simp_all add: editor_acts_def)
  from False db obtain u r P1 where u: "scoped_target env P sc raw = Inr u" and may: "may_assign_role sc r" "ur_username u \<noteq> a"
    and P1: "update_account (en_now env) (ur_username u) \<lparr>acc_role = r,
        acc_groups = merge_preserving_out_of_scope sc (ur_groups u) (parse_groups (ef_groups form)), acc_setor = Some (ef_setor form),
        acc_email = Some (ef_email form), acc_celular = Some (ef_celular form)\<rparr> (Some (scope_actor sc)) P = Inr P1"
    and res: "rows_of (snd (save_edit env sc raw form sv)) = pt_users P1"
    by (auto simp: save_edit_def Let_def transact_def editor_self [OF e] split: if_splits sum.splits option.splits)
  from scoped_target_Inr [OF u] obtain y where y: "y \<in> set (pt_users P)" "u = row_from y" "normalize_username (us_username y) = us_username y"
    "may_touch_user sc (row_from y)" .
  let ?gs = "merge_preserving_out_of_scope sc (parse_groups (us_groups y)) (parse_groups (ef_groups form))"
  note m = merge_editor [OF editor_unscoped [OF e] parse_groups_canonical [of "ef_groups form"] parse_groups_canonical [of "us_groups y"]]
  have "editor_may (set (es_groups sc)) a y (y\<lparr>us_role := role_as_str r, us_groups := join_groups ?gs, us_setor := clean_field (Some (ef_setor form)),
      us_email := clean_field (Some (ef_email form)), us_celular := clean_field (Some (ef_celular form)), us_updated_at := en_now env\<rparr>)"
    using touched_is_not_admin [OF wf editor_unscoped [OF e] y(1,4)] may y(2) editor_unscoped [OF e] m
    by (auto simp: editor_may_def memberships_def may_assign_role_def join_groups_def parse_groups_join)
  with editor_ok_target [OF account_rows [OF P1, unfolded y(2), unfolded row_from_simps y(3)] wf y(1)] res show ?thesis by simp
qed

lemma own_memberships:
  assumes "portal_wf P" and "normalize_username a = a" and "y \<in> set (pt_users P)" and "us_username y = a"
    and "queried env QScope (users_fetch a P) = Inr (Some row)"
  shows "set (ur_groups row) \<subseteq> memberships y"
proof -
  from assms(2,5) obtain z where z: "user_at a P = Some z" "row = row_from z"
    by (auto simp: queried_def users_fetch_def split: if_splits)
  from user_at_Some [OF z(1)] wf_unique [OF assms(1) _ assms(3)] assms(4) have "z = y" by auto
  with z show ?thesis by (simp add: memberships_def)
qed

lemma scope_of_editor:
  assumes "si_role s = Editor" and "si_actor s = Some a" and "portal_wf P"
  shows "editor_scope_of a P (scope_from_editor (Some (\<lambda>u. queried env QScope (users_fetch u P))) s)"
proof (cases "queried env QScope (users_fetch a P)")
  case (Inr fetched)
  with assms(1,2) own_memberships [OF assms(3), of a _ env] show ?thesis
    by (cases fetched) (simp_all add: editor_scope_of_def scope_from_editor_def)
qed (use assms(1,2) in \<open>simp add: editor_scope_of_def scope_from_editor_def\<close>)


section \<open>Two steps across a team boundary\<close>

text \<open>
  One request stays inside the scope; two do not. An Editor may induct any account that is not an
  administrator's into a group of its own, and may then reset the password of the account, which keeps its
  other groups.
\<close>

definition demo_env :: request_env where
  "demo_env = \<lparr>en_id = ''9'', en_now = 7, en_clock = 0, en_hash = Inr, en_verify = (=), en_dummy = [], en_session = ''fresh'',
     en_fails = (\<lambda>_. False), en_item_fails = (\<lambda>_. False), en_codec = \<lparr>cd_encode = (\<lambda>_. None), cd_decode = (\<lambda>_. None)\<rparr>\<rparr>"

definition two_teams :: portal where
  "two_teams = \<lparr>pt_users = [new_user ''1'' 0 ''ann'' ''h'' Admin False [] None, new_user ''2'' 0 ''bob'' ''h'' Editor False [''ops''] None,
       new_user ''3'' 0 ''eve'' ''h'' Editor False [''fin''] None],
     pt_mfa = \<lparr>mt_users = [''ann'', ''bob'', ''eve''], mt_factors = Map.empty, mt_recovery = [], mt_grants = [], mt_audit = []\<rparr>\<rparr>"

definition demo_site :: site where
  "demo_site = \<lparr>sv_auth = Some ''key'', sv_db = Some two_teams,
     sv_sessions = session_create ''sid'' 0 Editor (Some ''bob'') sessions_default, sv_limiter = login_limiter_default, sv_identity = ic_empty,
     sv_catalog = empty_catalog, sv_logout = Map.empty, sv_apps = ([], [])\<rparr>"

lemma two_teams_wf: "portal_wf two_teams"
  using join_groups_stored by (auto simp: portal_wf_def two_teams_def stored_ok_def mfa_wf_def)

lemma demo_session:
  "extract_session (sv_auth demo_site) (en_clock demo_env) [''ruscker_admin_session'' \<mapsto> ''sid''] (sv_sessions demo_site)
     = (Inr \<lparr>si_role = Editor, si_actor = Some ''bob''\<rparr>, sv_sessions demo_site)"
  by (simp add: extract_session_def demo_site_def demo_env_def is_configured_def session_validate_def sessions_default_def sessions_new_def secs_def session_create_def)

abbreviation demo_cookies :: "string \<rightharpoonup> string" where
  "demo_cookies \<equiv> [''ruscker_admin_session'' \<mapsto> ''sid'']"

abbreviation bob_scope :: editor_scope where
  "bob_scope \<equiv> \<lparr>es_role = Editor, es_actor = Some ''bob'', es_groups = [''ops''], es_unscoped = False\<rparr>"

lemma demo_texts [simp]:
  "normalize_username ''eve'' = ''eve''" "normalize_username ''bob'' = ''bob''" "is_valid_username ''eve''"
  "password_meets_policy ''Str0ng!pass''" "clean_group ''ops'' = Some ''ops''"
  "parse_groups ''fin'' = [''fin'']" "parse_groups ''ops'' = [''ops'']" "parse_groups ''fin,ops'' = [''fin'', ''ops'']"
  "join_groups [''fin''] = ''fin''" "join_groups [''ops''] = ''ops''" "join_groups [''fin'', ''ops''] = ''fin,ops''" "join_groups [] = []"
  by code_simp+

lemma demo_merge [simp]: "merge_preserving_out_of_scope bob_scope [''fin''] [''ops''] = [''fin'', ''ops'']"
  by code_simp

text \<open>A request of \<open>bob\<close> while the session of the demonstration is there and its own row is that of \<open>two_teams\<close>.\<close>

lemma bob_calls:
  assumes "sv_auth sv = sv_auth demo_site" and "sv_sessions sv = sv_sessions demo_site" and "\<not> admin_only rq"
    and "sv_db sv = Some P" and "user_at ''bob'' P = user_at ''bob'' two_teams"
  shows "user_call rq demo_env demo_cookies sv = user_handler rq demo_env \<lparr>si_role = Editor, si_actor = Some ''bob''\<rparr> bob_scope sv"
proof -
  have "users_fetch ''bob'' P = Some (row_from (new_user ''2'' 0 ''bob'' ''h'' Editor False [''ops''] None))"
    using assms(5) by (simp add: users_fetch_def user_at_def two_teams_def new_user_def)
  moreover have same: "sv\<lparr>sv_sessions := sv_sessions demo_site\<rparr> = sv" using assms(2) by simp
  ultimately show ?thesis
    using assms demo_session
    by (simp add: same user_call_def Let_def require_editor_def scope_from_editor_def queried_def demo_env_def row_from_def new_user_def)
qed

definition inducted_eve :: user where
  "inducted_eve = (new_user ''3'' 0 ''eve'' ''h'' Editor False [''fin''] None)\<lparr>us_groups := ''fin,ops'', us_updated_at := 7\<rparr>"

lemma eve_inducted:
  "\<exists>P. snd (user_call (AddMember ''ops'' ''eve'') demo_env demo_cookies demo_site) = forget_identities (store_portal P demo_site)
     \<and> pt_users P = take 2 (pt_users two_teams) @ [inducted_eve]"
proof -
  have eve: "users_fetch ''eve'' two_teams = Some (row_from (new_user ''3'' 0 ''eve'' ''h'' Editor False [''fin''] None))"
    by (simp add: users_fetch_def user_at_def two_teams_def)
  have "user_call (AddMember ''ops'' ''eve'') demo_env demo_cookies demo_site
      = add_member demo_env bob_scope ''ops'' ''eve'' demo_site"
    by (subst bob_calls) (simp_all add: demo_site_def)
  moreover have "\<exists>P. users_set_groups 7 ''eve'' [''fin'', ''ops''] (Some ''bob'') two_teams = Inr P
      \<and> pt_users P = take 2 (pt_users two_teams) @ [inducted_eve]"
    by (simp add: users_set_groups_def Let_def commit_update_def update_where_def two_teams_def inducted_eve_def new_user_def)
  ultimately show ?thesis
    by (auto simp: add_member_def demo_site_def queried_def demo_env_def eve Let_def may_touch_user_def may_touch_group_def
        row_from_def new_user_def role_parse_strs role_as_str_def unwrap_or_def save_memberships_def transact_def scope_actor_def)
qed

lemma induct_then_reset:
  "map (\<lambda>x. (us_username x, us_role x, us_groups x, us_hash x)) (rows_of (snd (user_call (ResetPassword ''eve'' ''Str0ng!pass'') demo_env demo_cookies
     (snd (user_call (AddMember ''ops'' ''eve'') demo_env demo_cookies demo_site)))))
   = [(''ann'', ''admin'', [], ''h''), (''bob'', ''editor'', ''ops'', ''h''), (''eve'', ''editor'', ''fin,ops'', ''Str0ng!pass'')]"
proof -
  obtain P where P: "snd (user_call (AddMember ''ops'' ''eve'') demo_env demo_cookies demo_site) = forget_identities (store_portal P demo_site)"
    "pt_users P = take 2 (pt_users two_teams) @ [inducted_eve]" using eve_inducted by blast
  let ?sv = "forget_identities (store_portal P demo_site)"
  have eve: "users_fetch ''eve'' P = Some (row_from inducted_eve)"
    by (simp add: users_fetch_def user_at_def P two_teams_def inducted_eve_def)
  have call: "user_call (ResetPassword ''eve'' ''Str0ng!pass'') demo_env demo_cookies ?sv
      = reset_password demo_env bob_scope ''eve'' ''Str0ng!pass'' ?sv"
    by (subst bob_calls [where P = P]) (simp_all add: forget_identities_def store_portal_def user_at_def P two_teams_def)
  obtain P' where P': "users_set_password 7 (Inr ''Str0ng!pass'') ''eve'' True (Some ''bob'') P = Inr P'"
    by (auto simp: users_set_password_def update_where_def Let_def P inducted_eve_def two_teams_def)
  have "rows_of (snd (reset_password demo_env bob_scope ''eve'' ''Str0ng!pass'' ?sv)) = pt_users P'"
    using P' by (simp add: reset_password_def scoped_target_def Let_def queried_def eve demo_env_def may_touch_user_def inducted_eve_def
        role_parse_strs role_as_str_def unwrap_or_def is_scoped_self_edit_def transact_def scope_actor_def
        forget_identities_def store_portal_def new_user_def row_from_def rows_of_def kick_def)
  moreover have "pt_users P' = map (\<lambda>x. if us_username x = ''eve''
      then x\<lparr>us_hash := ''Str0ng!pass'', us_must_change := True, us_updated_at := 7\<rparr> else x) (pt_users P)"
    using set_password_Inr [OF P'] by (auto simp: Let_def update_where_rows)
  ultimately show ?thesis unfolding P(1) call by (simp add: P two_teams_def inducted_eve_def new_user_def role_as_str_def)
qed


end
