(* ===== verification/Admin_Login.thy ===== *)
theory Admin_Login
  imports User_Admin Proxy_Headers
begin

text \<open>
  Signing in and out of the panel (\<open>crates/ruscker-admin/src/routes/admin.rs\<close>): the password login, the
  break-glass token, the set-up of the first administrator, the change of one's own password and the logout, with
  the targets they redirect to. A request is one step of the server of \<open>User_Admin\<close>; the record of activity and the
  pages shown are left out, the cookie a request sets or removes is part of its outcome.
\<close>

section \<open>Where a login leads\<close>

definition strip_base_prefix :: "string \<Rightarrow> string \<Rightarrow> string" where
  "strip_base_prefix path base =
     (if base = [] then path
      else (case strip_prefix base path of
          None \<Rightarrow> path
        | Some rest \<Rightarrow> if rest = [] then ''/'' else if prefix ''/'' rest then rest else path))"

definition app_next_path :: "string option \<Rightarrow> string \<Rightarrow> string option" where
  "app_next_path nxt base =
     (case local_next_path nxt of
        None \<Rightarrow> None
      | Some p \<Rightarrow>
          (let path = strip_base_prefix p base; path_only = takeWhile (\<lambda>c. c \<noteq> CHR ''?'' \<and> c \<noteq> CHR ''#'') path
           in if prefix ''/app/'' path_only then Some path else None))"

definition section_for_admin_path :: "string \<Rightarrow> string" where
  "section_for_admin_path path =
     (if prefix ''/admin/dashboard'' path then ''dashboard''
      else if prefix ''/admin/disk'' path then ''disk''
      else if prefix ''/admin/specs'' path then ''specs''
      else if prefix ''/admin/media'' path then ''images''
      else if prefix ''/admin/credentials'' path then ''credentials''
      else if prefix ''/admin/landing'' path then ''landing''
      else if prefix ''/admin/blocks'' path then ''blocks''
      else if prefix ''/admin/audit'' path then ''audit''
      else if prefix ''/admin/logs'' path then ''logs''
      else if prefix ''/admin/schedules'' path then ''schedules''
      else if prefix ''/admin/users'' path then ''users''
      else if prefix ''/admin/groups'' path then ''groups''
      else ''dashboard'')"

definition after_login :: "role \<Rightarrow> string option \<Rightarrow> string \<Rightarrow> string" where
  "after_login r referer base =
     (let path = strip_base_prefix (same_origin_path referer (role_home r)) base in
      if path = ''/'' then path
      else if prefix ''/admin/'' path \<and> \<not> prefix ''/admin/login'' path \<and> can_access_section r (section_for_admin_path path) then path
      else role_home r)"

section \<open>The cookie\<close>

record admin_cookie =
  ck_value :: string
  ck_path :: string
  ck_http_only :: bool
  ck_same_site_strict :: bool
  ck_secure :: bool
  ck_max_age_hours :: nat

datatype cookie_change = KeepCookie | SetCookie admin_cookie | RemoveCookie

definition issue_session_cookie :: "server \<Rightarrow> headers \<Rightarrow> string \<Rightarrow> cookie_change" where
  "issue_session_cookie srv h session_id =
     SetCookie \<lparr>ck_value = session_id, ck_path = ''/'', ck_http_only = True, ck_same_site_strict = True,
       ck_secure = request_is_https h (forward_headers_trusted srv), ck_max_age_hours = 24\<rparr>"

type_synonym outcome = "reply \<times> cookie_change \<times> site"

text \<open>What does not change while the server runs, and the percent-encoder.\<close>

record portal_config =
  pc_server :: server
  pc_base :: string
  pc_encode :: "string \<Rightarrow> string"

definition show_token_form :: "request_env \<Rightarrow> bool \<Rightarrow> site \<Rightarrow> bool" where
  "show_token_form env force_token sv =
     (if force_token then True
      else (case sv_db sv of
          Some P \<Rightarrow> \<not> (case queried env QAnyAdmin (any_user_exists P) of Inr b \<Rightarrow> b | Inl _ \<Rightarrow> False)
        | None \<Rightarrow> True))"

definition login_form :: "request_env \<Rightarrow> portal_config \<Rightarrow> string option \<Rightarrow> string option \<Rightarrow> site \<Rightarrow> reply" where
  "login_form env pc token nxt sv =
     LoginPage [] (show_token_form env (token \<noteq> None) sv) (unwrap_or [] (app_next_path nxt (pc_base pc)))"

definition any_admin :: "request_env \<Rightarrow> portal \<Rightarrow> bool" where
  "any_admin env P = (case queried env QAnyAdmin (any_admin_exists P) of Inr b \<Rightarrow> b | Inl _ \<Rightarrow> False)"

definition new_session :: "request_env \<Rightarrow> role \<Rightarrow> string option \<Rightarrow> site \<Rightarrow> site" where
  "new_session env r actor sv = sv\<lparr>sv_sessions := session_create (en_session env) (en_clock env) r actor (sv_sessions sv)\<rparr>"

section \<open>The handlers\<close>

definition login_submit :: "request_env \<Rightarrow> portal_config \<Rightarrow> headers \<Rightarrow> string \<Rightarrow> string \<Rightarrow> string option \<Rightarrow> site \<Rightarrow> outcome" where
  "login_submit env pc h username password form_next sv =
     (if \<not> is_configured (sv_auth sv) then (StatusOf 503, KeepCookie, sv)
      else (case login_allow (en_clock env) (sv_limiter sv) of
        (False, l) \<Rightarrow> (StatusOf 429, KeepCookie, sv\<lparr>sv_limiter := l\<rparr>)
      | (True, l) \<Rightarrow>
          (let nxt = app_next_path form_next (pc_base pc);
               wrong = (LoginPage ''wrong-login'' False (unwrap_or [] nxt), KeepCookie, sv\<lparr>sv_limiter := login_failed (en_clock env) l\<rparr>)
           in case sv_db sv of
             None \<Rightarrow> wrong
           | Some P \<Rightarrow>
               (case queried env QVerify (verify_login (en_verify env) (en_dummy env) username password P) of
                  Inl _ \<Rightarrow> (StatusOf 500, KeepCookie, sv\<lparr>sv_limiter := l\<rparr>)
                | Inr None \<Rightarrow> wrong
                | Inr (Some u) \<Rightarrow>
                    (let sv1 = new_session env (ur_role u) (Some (ur_username u)) (sv\<lparr>sv_limiter := login_succeeded l\<rparr>);
                         target = (if ur_must_change u
                           then (case nxt of Some n \<Rightarrow> with_next_query (pc_encode pc) ''/admin/account/password'' n | None \<Rightarrow> ''/admin/account/password'')
                           else (case nxt of Some t \<Rightarrow> t
                             | None \<Rightarrow> after_login (ur_role u) (Option.bind (hm_get ''referer'' h) to_str) (pc_base pc)))
                     in (RedirectTo target, issue_session_cookie (pc_server pc) h (en_session env), sv1))))))"

definition token_login :: "request_env \<Rightarrow> portal_config \<Rightarrow> headers \<Rightarrow> string \<Rightarrow> string option \<Rightarrow> site \<Rightarrow> outcome" where
  "token_login env pc h token form_next sv =
     (if \<not> is_configured (sv_auth sv) then (StatusOf 503, KeepCookie, sv)
      else (case login_allow (en_clock env) (sv_limiter sv) of
        (False, l) \<Rightarrow> (StatusOf 429, KeepCookie, sv\<lparr>sv_limiter := l\<rparr>)
      | (True, l) \<Rightarrow>
          (let nxt = app_next_path form_next (pc_base pc) in
           if \<not> matches_token (sv_auth sv) token
           then (LoginPage ''wrong-token'' True (unwrap_or [] nxt), RemoveCookie, sv\<lparr>sv_limiter := login_failed (en_clock env) l\<rparr>)
           else (let sv1 = new_session env Admin None (sv\<lparr>sv_limiter := login_succeeded l\<rparr>);
                     need_setup = (case sv_db sv of Some P \<Rightarrow> \<not> any_admin env P | None \<Rightarrow> False)
             in (RedirectTo (if need_setup then ''/admin/setup'' else unwrap_or ''/admin/dashboard'' nxt),
                 issue_session_cookie (pc_server pc) h (en_session env), sv1)))))"

definition setup_submit :: "request_env \<Rightarrow> portal_config \<Rightarrow> headers \<Rightarrow> string option \<Rightarrow> string \<Rightarrow> string \<Rightarrow> string \<Rightarrow> site \<Rightarrow> outcome" where
  "setup_submit env pc h cookie form_username password confirm sv =
     (case sv_db sv of
        None \<Rightarrow> (StatusOf 503, KeepCookie, sv)
      | Some P \<Rightarrow>
          if any_admin env P then (RedirectTo ''/admin/dashboard'', KeepCookie, sv)
          else (let username = normalize_username form_username in
            if username = [] then (FormPage ''exists'', KeepCookie, sv)
            else if \<not> password_meets_policy password then (FormPage ''short'', KeepCookie, sv)
            else if password \<noteq> confirm then (FormPage ''mismatch'', KeepCookie, sv)
            else (case transact env QCommit (users_create (en_id env) (en_now env) (en_hash env password) username Admin False [] (Some ''token'') P) of
                Inl _ \<Rightarrow> (FormPage ''exists'', KeepCookie, sv)
              | Inr P1 \<Rightarrow>
                  (let sv1 = store_portal P1 sv;
                       sv2 = (case cookie of Some c \<Rightarrow> sv1\<lparr>sv_sessions := session_remove c (sv_sessions sv1)\<rparr> | None \<Rightarrow> sv1)
                   in (RedirectTo ''/admin/dashboard'', issue_session_cookie (pc_server pc) h (en_session env),
                       new_session env Admin (Some username) sv2)))))"

definition password_submit :: "request_env \<Rightarrow> portal_config \<Rightarrow> headers \<Rightarrow> session_info \<Rightarrow> string \<Rightarrow> string \<Rightarrow> string \<Rightarrow> string option \<Rightarrow> site \<Rightarrow> outcome" where
  "password_submit env pc h s current new_password confirm form_next sv =
     (case si_actor s of
        None \<Rightarrow> (RedirectTo ''/admin/dashboard'', KeepCookie, sv)
      | Some actor \<Rightarrow> (case sv_db sv of
          None \<Rightarrow> (StatusOf 503, KeepCookie, sv)
        | Some P \<Rightarrow>
            (let nxt = app_next_path form_next (pc_base pc) in
             if \<not> password_meets_policy new_password then (FormPage ''short'', KeepCookie, sv)
             else if new_password \<noteq> confirm then (FormPage ''mismatch'', KeepCookie, sv)
             else if (case queried env QVerify (verify_login (en_verify env) (en_dummy env) actor current P) of Inr (Some _) \<Rightarrow> False | _ \<Rightarrow> True)
             then (FormPage ''wrong-current'', KeepCookie, sv)
             else (case transact env QCommit (users_set_password (en_now env) (en_hash env new_password) actor False (Some actor) P) of
                 Inl _ \<Rightarrow> (StatusOf 500, KeepCookie, sv)
               | Inr P1 \<Rightarrow>
                   (RedirectTo (unwrap_or (role_home (si_role s)) nxt), issue_session_cookie (pc_server pc) h (en_session env),
                    new_session env (si_role s) (Some actor) (kick actor (store_portal P1 sv)))))))"

text \<open>The app sessions of a user that asked to stop on logout end one after the other.\<close>

definition end_app_sessions :: "uuid list \<Rightarrow> session_store \<times> registry \<Rightarrow> session_store \<times> registry" where
  "end_app_sessions sids apps = foldl (\<lambda>ap sid. snd (end_session sid ap)) apps sids"

definition logout :: "request_env \<Rightarrow> string option \<Rightarrow> site \<Rightarrow> outcome" where
  "logout env cookie sv =
     (case cookie of
        None \<Rightarrow> (RedirectTo ''/admin/login'', RemoveCookie, sv)
      | Some sid \<Rightarrow>
          (case session_validate (en_clock env) sid (sv_sessions sv) of (who, st) \<Rightarrow>
            (let sv1 = sv\<lparr>sv_sessions := st\<rparr>;
                 sv2 = (case Option.bind who si_actor of
                     Some user \<Rightarrow> (case sv_logout sv1 user of
                         Some sids \<Rightarrow> sv1\<lparr>sv_logout := (sv_logout sv1)(user := None), sv_apps := end_app_sessions sids (sv_apps sv1)\<rparr>
                       | None \<Rightarrow> sv1)
                   | None \<Rightarrow> sv1)
             in (RedirectTo ''/admin/login'', RemoveCookie, sv2\<lparr>sv_sessions := session_remove sid (sv_sessions sv2)\<rparr>))))"

section \<open>A request on the panel\<close>

datatype site_request =
    Users user_request
  | Login string string "string option"
  | Token string "string option"
  | Setup string string string
  | Password string string string "string option"
  | Logout

definition with_session :: "request_env \<Rightarrow> bool \<Rightarrow> (string \<rightharpoonup> string) \<Rightarrow> (session_info \<Rightarrow> site \<Rightarrow> outcome) \<Rightarrow> site \<Rightarrow> outcome" where
  "with_session env admins cookies handler sv =
     (case extract_session (sv_auth sv) (en_clock env) cookies (sv_sessions sv) of (who, st) \<Rightarrow>
        (case (if admins then require_admin who else who) of
           Inl e \<Rightarrow> (Rejected e, KeepCookie, sv\<lparr>sv_sessions := st\<rparr>)
         | Inr s \<Rightarrow> handler s (sv\<lparr>sv_sessions := st\<rparr>)))"

fun site_call :: "site_request \<Rightarrow> request_env \<Rightarrow> portal_config \<Rightarrow> headers \<Rightarrow> (string \<rightharpoonup> string) \<Rightarrow> site \<Rightarrow> outcome" where
  "site_call (Users rq) env pc h cookies sv = (case user_call rq env cookies sv of (r, sv') \<Rightarrow> (r, KeepCookie, sv'))"
| "site_call (Login u p n) env pc h cookies sv = login_submit env pc h u p n sv"
| "site_call (Token t n) env pc h cookies sv = token_login env pc h t n sv"
| "site_call (Setup u p c) env pc h cookies sv =
     with_session env True cookies (\<lambda>s. setup_submit env pc h (cookies ''ruscker_admin_session'') u p c) sv"
| "site_call (Password c p k n) env pc h cookies sv = with_session env False cookies (\<lambda>s. password_submit env pc h s c p k n) sv"
| "site_call Logout env pc h cookies sv =
     (case extract_session (sv_auth sv) (en_clock env) cookies (sv_sessions sv) of (_, st) \<Rightarrow>
        logout env (cookies ''ruscker_admin_session'') (sv\<lparr>sv_sessions := st\<rparr>))"

section \<open>Properties: redirects\<close>

lemma same_origin_app: "prefix ''/app/'' (takeWhile Q path) \<Longrightarrow> same_origin path"
proof -
  assume "prefix ''/app/'' (takeWhile Q path)"
  then have "prefix ''/app/'' path" using takeWhile_is_prefix prefix_order.trans by blast
  then show ?thesis by (auto simp: prefix_def same_origin_def)
qed

lemma app_next_path_local: "app_next_path nxt base = Some p \<Longrightarrow> same_origin p"
  by (auto simp: app_next_path_def Let_def split: option.splits if_splits intro: same_origin_app)

lemma same_origin_admin: "prefix ''/admin/'' path \<Longrightarrow> same_origin path"
  by (auto simp: prefix_def same_origin_def)

lemma role_home_local: "same_origin (role_home r)"
  by (cases r) (simp_all add: role_home_def same_origin_def)

lemma after_login_local: "same_origin (after_login r referer base)"
proof -
  have "same_origin ''/''" by (simp add: same_origin_def)
  then show ?thesis by (auto simp: after_login_def Let_def role_home_local same_origin_admin)
qed

text \<open>
  C40: Signing in never sends a browser elsewhere. Whatever the form carries as destination, whatever the referer
  and whatever the base path, the redirect of a login, a token login, a set-up or a password change is a path on
  this origin: one slash, not followed by a slash or a backslash.
\<close>

theorem signing_in_stays_local:
  assumes "rq \<noteq> Logout" and "\<forall>r. rq \<noteq> Users r" and "fst (site_call rq env pc h cookies sv) = RedirectTo t"
  shows "same_origin t"
proof -
  have fixed: "same_origin ''/admin/dashboard''" "same_origin ''/admin/setup''" "same_origin ''/admin/account/password''"
    by (simp_all add: same_origin_def)
  have pw: "same_origin (with_next_query e ''/admin/account/password'' n)" for e n
    by (simp add: with_next_query_def same_origin_def)
  show ?thesis
  proof (cases rq)
    case (Login u p n)
    with assms(3) pw show ?thesis
      by (auto simp: login_submit_def Let_def fixed after_login_local split: if_splits option.splits sum.splits prod.splits bool.splits
          dest: app_next_path_local)
  next
    case (Token tk n)
    with assms(3) show ?thesis
      by (auto simp: token_login_def Let_def fixed unwrap_or_def split: if_splits option.splits prod.splits bool.splits dest: app_next_path_local)
  next
    case (Setup u p c)
    with assms(3) show ?thesis
      by (auto simp: with_session_def setup_submit_def Let_def fixed split: if_splits option.splits sum.splits prod.splits)
  next
    case (Password c p k n)
    with assms(3) show ?thesis
      by (auto simp: with_session_def password_submit_def Let_def fixed unwrap_or_def role_home_local
          split: if_splits option.splits sum.splits prod.splits dest: app_next_path_local)
  qed (use assms in auto)
qed

lemma signing_in_stays_local_witness:
  "same_origin ''/admin/specs''"
proof -
  let ?sv = "demo_site\<lparr>sv_limiter := login_limiter_default\<rparr>"
  have n: "normalize_username ''bob'' = ''bob''" by simp
  have "verify_login (=) [] ''bob'' ''h'' two_teams = Some (row_from (new_user ''2'' 0 ''bob'' ''h'' Editor False [''ops''] None))"
    by (simp add: verify_login_def user_at_def two_teams_def Let_def new_user_def)
  then have "fst (site_call (Login ''bob'' ''h'' None) demo_env \<lparr>pc_server = undefined, pc_base = [], pc_encode = id\<rparr> (\<lambda>_. []) Map.empty demo_site)
      = RedirectTo ''/admin/specs''"
    by (simp add: login_submit_def demo_site_def demo_env_def is_configured_def login_allow_def login_limiter_default_def prune_def Let_def
        queried_def row_from_def new_user_def role_as_str_def role_parse_strs unwrap_or_def app_next_path_def local_next_path_def
        after_login_def same_origin_path_def hm_get_def role_home_def strip_base_prefix_def can_access_section_def section_for_admin_path_def)
  from signing_in_stays_local [OF _ _ this] show ?thesis by simp
qed

section \<open>Properties: sessions\<close>

text \<open>
  Every live session of an account has the role of the account, the tables are well formed and names are in
  their normal form.
\<close>

definition role_of :: "user list \<Rightarrow> string \<Rightarrow> role \<Rightarrow> bool" where
  "role_of us a r \<longleftrightarrow> (\<exists>x \<in> set us. us_username x = a \<and> us_role x = role_as_str r)"

definition sessions_true :: "user list \<Rightarrow> admin_sessions \<Rightarrow> bool" where
  "sessions_true us st \<longleftrightarrow> (\<forall>i e a. am_sessions st i = Some e \<longrightarrow> si_actor e = Some a \<longrightarrow> role_of us a (si_role e))"

definition names_normal :: "user list \<Rightarrow> bool" where
  "names_normal us \<longleftrightarrow> (\<forall>x \<in> set us. normalize_username (us_username x) = us_username x)"

definition site_ok :: "site \<Rightarrow> bool" where
  "site_ok sv \<longleftrightarrow> sessions_true (rows_of sv) (sv_sessions sv) \<and> names_normal (rows_of sv)
     \<and> (case sv_db sv of None \<Rightarrow> True | Some P \<Rightarrow> portal_wf P)"

text \<open>What a transaction does to the roles: all accounts but \<open>u\<close> (when one is named) keep theirs.\<close>

definition roles_kept :: "string option \<Rightarrow> user list \<Rightarrow> user list \<Rightarrow> bool" where
  "roles_kept u us us' \<longleftrightarrow> (\<forall>a r. Some a \<noteq> u \<longrightarrow> role_of us a r \<longrightarrow> role_of us' a r) \<and> (names_normal us \<longrightarrow> names_normal us')"

lemma roles_kept_refl [simp]: "roles_kept u us us"
  by (simp add: roles_kept_def)

lemma roles_kept_map:
  "(\<And>x. us_username (f x) = us_username x) \<Longrightarrow> (\<And>x. x \<in> set us \<Longrightarrow> Some (us_username x) \<noteq> u \<Longrightarrow> us_role (f x) = us_role x) \<Longrightarrow>
     roles_kept u us (map f us)"
  by (auto simp: roles_kept_def role_of_def names_normal_def)

lemma kept_create: "users_create new now hashed v r mc gs actor P = Inr P' \<Longrightarrow> roles_kept u (pt_users P) (pt_users P')"
  by (drule create_rows) (auto simp: roles_kept_def role_of_def names_normal_def)

lemma kept_password: "users_set_password now hashed v mc actor P = Inr P' \<Longrightarrow> roles_kept u (pt_users P) (pt_users P')"
  by (drule password_rows) (auto intro!: roles_kept_map)

lemma kept_groups: "users_set_groups now v gs actor P = Inr P' \<Longrightarrow> roles_kept u (pt_users P) (pt_users P')"
  by (drule set_groups_rows) (auto intro!: roles_kept_map)

lemma kept_profile: "update_profile now v s1 s2 s3 actor P = Inr P' \<Longrightarrow> roles_kept u (pt_users P) (pt_users P')"
  by (drule profile_rows) (auto intro!: roles_kept_map)

lemma kept_role: "users_set_role now v r actor P = Inr P' \<Longrightarrow> roles_kept (Some (normalize_username v)) (pt_users P) (pt_users P')"
  by (drule set_role_rows) (auto intro!: roles_kept_map split: if_splits)

lemma kept_account: "update_account now v up actor P = Inr P' \<Longrightarrow> roles_kept (Some (normalize_username v)) (pt_users P) (pt_users P')"
  by (drule account_rows) (auto intro!: roles_kept_map split: if_splits)

lemma kept_delete: "users_delete now v actor P = Inr P' \<Longrightarrow> roles_kept (Some (normalize_username v)) (pt_users P) (pt_users P')"
  by (auto simp: users_delete_def Let_def with_users_def user_audit_def roles_kept_def role_of_def names_normal_def split: if_splits)

lemma roles_kept_trans: "roles_kept u us us' \<Longrightarrow> roles_kept u us' us'' \<Longrightarrow> roles_kept u us us''"
  by (auto simp: roles_kept_def)

text \<open>The sessions that remain are old ones, and not of an account whose role may have changed.\<close>

definition sessions_shrink :: "string option \<Rightarrow> admin_sessions \<Rightarrow> admin_sessions \<Rightarrow> bool" where
  "sessions_shrink u st st' \<longleftrightarrow> (\<forall>i e. am_sessions st' i = Some e \<longrightarrow> am_sessions st i = Some e \<and> (u = None \<or> si_actor e \<noteq> u))"

lemma sessions_true_change:
  "sessions_true us st \<Longrightarrow> roles_kept u us us' \<Longrightarrow> sessions_shrink u st st' \<Longrightarrow> sessions_true us' st'"
proof -
  assume t: "sessions_true us st" "roles_kept u us us'" "sessions_shrink u st st'"
  have "role_of us' a (si_role e)" if "am_sessions st' i = Some e" "si_actor e = Some a" for i e a
  proof -
    from t(3) that have "am_sessions st i = Some e" "Some a \<noteq> u" by (auto simp: sessions_shrink_def)
    with t(1,2) that(2) show ?thesis by (auto simp: sessions_true_def roles_kept_def)
  qed
  then show ?thesis by (auto simp: sessions_true_def)
qed

definition site_step :: "site \<Rightarrow> site \<Rightarrow> bool" where
  "site_step sv sv' \<longleftrightarrow> (\<exists>u. roles_kept u (rows_of sv) (rows_of sv') \<and> sessions_shrink u (sv_sessions sv) (sv_sessions sv'))
     \<and> (\<forall>P'. sv_db sv' = Some P' \<longrightarrow> (\<exists>P. sv_db sv = Some P \<and> portal_step\<^sup>*\<^sup>* P P'))"

lemma portal_steps_wf: "portal_step\<^sup>*\<^sup>* P P' \<Longrightarrow> portal_wf P \<Longrightarrow> portal_wf P'"
  by (induction rule: rtranclp_induct) (auto intro: portal_step_wf)

lemma site_step_ok: "site_step sv sv' \<Longrightarrow> site_ok sv \<Longrightarrow> site_ok sv'"
proof -
  assume s: "site_step sv sv'" and ok: "site_ok sv"
  then obtain u where u: "roles_kept u (rows_of sv) (rows_of sv')" "sessions_shrink u (sv_sessions sv) (sv_sessions sv')"
    by (auto simp: site_step_def)
  moreover have "portal_wf P'" if "sv_db sv' = Some P'" for P'
    using s ok that portal_steps_wf by (fastforce simp: site_step_def site_ok_def)
  ultimately show ?thesis using ok sessions_true_change [of "rows_of sv"]
    by (auto simp: site_ok_def roles_kept_def split: option.splits)
qed

lemma site_step_refl [simp]: "site_step sv sv"
  unfolding site_step_def by (intro conjI exI [of _ None]) (auto simp: sessions_shrink_def)

lemma commit_step:
  assumes "sv_db sv = Some P" and "portal_step P P'" and "roles_kept u (pt_users P) (pt_users P')" and "sv_db sv' = Some P'"
    and "sessions_shrink u (sv_sessions sv) (sv_sessions sv')"
  shows "site_step sv sv'"
  using assms unfolding site_step_def rows_of_def by auto

lemma shrink_refl [simp]: "sessions_shrink None st st"
  by (simp add: sessions_shrink_def)

lemma shrink_kick [simp]: "sessions_shrink (Some u) st (revoke_by_actor u st)"
  by (auto simp: sessions_shrink_def revoke_by_actor_gone)

lemma site_fields [simp]:
  "sv_db (store_portal P sv) = Some P" "sv_db (kick u sv) = sv_db sv" "sv_db (forget_identities sv) = sv_db sv"
  "sv_sessions (store_portal P sv) = sv_sessions sv" "sv_sessions (kick u sv) = revoke_by_actor u (sv_sessions sv)"
  "sv_sessions (forget_identities sv) = sv_sessions sv"
  by (simp_all add: store_portal_def kick_def forget_identities_def)

lemma queried_Inr [simp]: "queried env q v = Inr w \<longleftrightarrow> \<not> en_fails env q \<and> v = w"
  by (auto simp: queried_def)

lemma step_create: "site_step sv (snd (create_account env sc form sv))"
proof (cases "snd (create_account env sc form sv) = sv")
  case False
  let ?u = "normalize_username (cf_username form)"
  from False obtain P P1 where db: "sv_db sv = Some P"
    and P1: "users_create (en_id env) (en_now env) (en_hash env (cf_password form)) ?u (unwrap_or Viewer (role_parse (cf_role form))) True
        (parse_groups (cf_groups form)) (Some (scope_actor sc)) P = Inr P1"
    and res: "snd (create_account env sc form sv) = store_portal P1 sv \<or>
      (\<exists>P2. update_profile (en_now env) ?u (Some (cf_setor form)) (Some (cf_email form)) (Some (cf_celular form)) (Some (scope_actor sc)) P1 = Inr P2
        \<and> snd (create_account env sc form sv) = store_portal P2 sv)"
    by (auto simp: create_account_def Let_def transact_def split: if_splits sum.splits option.splits)
  from res show ?thesis
  proof
    assume "snd (create_account env sc form sv) = store_portal P1 sv"
    with db portal_step.create [OF P1] kept_create [OF P1] show ?thesis by (auto intro: commit_step [where u = None])
  next
    assume "\<exists>P2. update_profile (en_now env) ?u (Some (cf_setor form)) (Some (cf_email form)) (Some (cf_celular form)) (Some (scope_actor sc)) P1 = Inr P2
        \<and> snd (create_account env sc form sv) = store_portal P2 sv"
    then obtain P2 where P2: "update_profile (en_now env) ?u (Some (cf_setor form)) (Some (cf_email form)) (Some (cf_celular form)) (Some (scope_actor sc)) P1 = Inr P2"
      and r: "snd (create_account env sc form sv) = store_portal P2 sv" by blast
    have "portal_step\<^sup>*\<^sup>* P P2" using portal_step.create [OF P1] portal_step.profile [OF P2] by (meson rtranclp.simps)
    moreover have "roles_kept None (pt_users P) (pt_users P2)" using kept_create [OF P1] kept_profile [OF P2] roles_kept_trans by blast
    ultimately show ?thesis unfolding r using db by (auto simp: site_step_def rows_of_def intro!: exI [of _ None])
  qed
qed simp

lemma step_profile: "site_step sv (snd (set_profile env sc raw form sv))"
  by (auto simp: set_profile_def intro!: commit_step [where u = None] portal_step.profile kept_profile split: option.splits sum.splits)

lemma step_set_groups: "site_step sv (snd (set_groups env sc raw gs sv))"
  by (auto simp: set_groups_def Let_def intro!: commit_step [where u = None] portal_step.groups kept_groups split: option.splits sum.splits)

lemma step_memberships: "site_step sv (snd (save_memberships env u gs actor flash sv))"
  by (auto simp: save_memberships_def intro!: commit_step [where u = None] portal_step.groups kept_groups split: option.splits sum.splits)

lemma target_name: "scoped_target env P sc raw = Inr u \<Longrightarrow> normalize_username (ur_username u) = ur_username u"
  by (erule scoped_target_Inr) simp

lemma step_set_role: "site_step sv (snd (set_role env sc raw r sv))"
proof -
  have "site_step sv (kick (ur_username u) (store_portal P1 sv))"
    if "sv_db sv = Some P" "scoped_target env P sc raw = Inr u" "users_set_role now (ur_username u) q actor P = Inr P1" for P u now q actor P1
    using that kept_role [OF that(3)] target_name [OF that(2)]
    by (intro commit_step [where u = "Some (ur_username u)"]) (auto intro: portal_step.role)
  then show ?thesis by (auto simp: set_role_def Let_def split: option.splits sum.splits)
qed

lemma step_reset_password: "site_step sv (snd (reset_password env sc raw pw sv))"
proof -
  have "site_step sv (kick (ur_username u) (store_portal P1 sv))"
    if "sv_db sv = Some P" "scoped_target env P sc raw = Inr u" "users_set_password now hashed (ur_username u) mc actor P = Inr P1"
    for P u now hashed mc actor P1
    using that kept_password [OF that(3)]
    by (intro commit_step [where u = "Some (ur_username u)"]) (auto intro: portal_step.password)
  then show ?thesis by (auto simp: reset_password_def Let_def split: option.splits sum.splits)
qed

lemma account_same_role:
  assumes "portal_wf P" and "scoped_target env P sc raw = Inr u" and "acc_role up = ur_role u"
    and P1: "update_account now (ur_username u) up actor P = Inr P1"
  shows "roles_kept None (pt_users P) (pt_users P1)"
proof -
  from assms(2) obtain y where y: "y \<in> set (pt_users P)" "u = row_from y" "normalize_username (us_username y) = us_username y"
    by (rule scoped_target_Inr)
  have same: "us_role x = role_as_str (acc_role up)" if "x \<in> set (pt_users P)" "us_username x = us_username y" for x
    using wf_unique [OF assms(1) that(1) y(1) that(2)] wf_role [OF assms(1) y(1)] y(2) assms(3) by (auto simp: unwrap_or_def)
  show ?thesis unfolding account_rows [OF P1] by (rule roles_kept_map) (use y same in \<open>auto split: if_splits\<close>)
qed

lemma step_save_edit: "site_ok sv \<Longrightarrow> site_step sv (snd (save_edit env sc raw form sv))"
proof -
  assume ok: "site_ok sv"
  have "site_step sv (forget_identities (kick (ur_username u) (store_portal P1 sv)))"
    if "sv_db sv = Some P" "scoped_target env P sc raw = Inr u" "update_account now (ur_username u) up actor P = Inr P1" for P u now up actor P1
    using that kept_account [OF that(3)] target_name [OF that(2)]
    by (intro commit_step [where u = "Some (ur_username u)"]) (auto intro: portal_step.account)
  moreover have "site_step sv (forget_identities (store_portal P1 sv))"
    if "sv_db sv = Some P" "scoped_target env P sc raw = Inr u" "update_account now (ur_username u) up actor P = Inr P1" "acc_role up = ur_role u" for P u now up actor P1
    using that ok account_same_role [OF _ that(2,4,3)]
    by (intro commit_step [where u = None]) (auto simp: site_ok_def intro: portal_step.account)
  ultimately show ?thesis
    by (auto simp: save_edit_def Let_def split: option.splits sum.splits)
qed

lemma existing_target_Inr: "existing_target env P raw = Inr u \<Longrightarrow> normalize_username u = u"
  by (auto simp: existing_target_def Let_def split: if_splits sum.splits option.splits)

lemma step_delete: "site_step sv (snd (delete_account env adm raw sv))"
proof -
  have "site_step sv (forget_identities (kick u (store_portal P1 sv)))"
    if "sv_db sv = Some P" "existing_target env P raw = Inr u" "users_delete now u actor P = Inr P1" for P u now actor P1
    using that kept_delete [OF that(3)] existing_target_Inr [OF that(2)]
    by (intro commit_step [where u = "Some u"]) (auto intro: portal_step.delete)
  then show ?thesis by (auto simp: delete_account_def split: option.splits sum.splits)
qed


lemma step_reset_mfa: "site_step sv (snd (reset_mfa env adm raw sv))"
proof -
  have "site_step sv (store_portal (P\<lparr>pt_mfa := mfa_reset now u actor (pt_mfa P)\<rparr>) sv)" if "sv_db sv = Some P" for P now u actor
  proof (rule commit_step [where u = None, OF that])
    show "portal_step P (P\<lparr>pt_mfa := mfa_reset now u actor (pt_mfa P)\<rparr>)" by (rule portal_step.factor) (simp_all add: wf_reset)
  qed simp_all
  then show ?thesis by (auto simp: reset_mfa_def split: option.splits sum.splits)
qed

lemma step_group_create: "site_step sv (snd (group_create env adm g u sv))"
  by (auto simp: group_create_def step_memberships split: option.splits sum.splits)

lemma step_add_member: "site_step sv (snd (add_member env sc g u sv))"
  by (auto simp: add_member_def Let_def step_memberships split: option.splits sum.splits)

lemma step_remove_member: "site_step sv (snd (remove_member env sc g u sv))"
  by (auto simp: remove_member_def Let_def step_memberships split: option.splits sum.splits)

lemma step_rewrite_user:
  "portal_step\<^sup>*\<^sup>* P (rewrite_user env old new actor u P) \<and> roles_kept None (pt_users P) (pt_users (rewrite_user env old new actor u P))"
  by (auto simp: rewrite_user_def kept_groups split: sum.splits intro: portal_step.groups)

lemma step_rewrite_users:
  "portal_step\<^sup>*\<^sup>* P (fold (rewrite_user env old new actor) us P)
     \<and> roles_kept None (pt_users P) (pt_users (fold (rewrite_user env old new actor) us P))"
proof (induction us arbitrary: P)
  case (Cons u us)
  from Cons.IH [of "rewrite_user env old new actor u P"] step_rewrite_user [of P env old new actor u]
  show ?case by (auto intro: rtranclp_trans roles_kept_trans)
qed simp

lemma step_catalog: "site_step sv (sv'\<lparr>sv_catalog := C\<rparr>) \<longleftrightarrow> site_step sv sv'"
  by (simp add: site_step_def)

lemma step_rewrite_group: "site_step sv (rewrite_group env old new actor sv)"
proof -
  have "site_step sv (forget_identities (store_portal (fold (rewrite_user env old new actor) us P) sv))" if "sv_db sv = Some P" for P us
    unfolding site_step_def using that step_rewrite_users [of P env old new actor us] by (auto simp: rows_of_def intro!: exI [of _ None])
  then show ?thesis by (auto simp: rewrite_group_def Let_def step_catalog split: option.splits sum.splits)
qed

lemma step_group_rename: "site_step sv (snd (group_rename env adm a b sv))"
  by (auto simp: group_rename_def step_rewrite_group split: option.splits)

lemma step_group_delete: "site_step sv (snd (group_delete env adm a sv))"
  by (auto simp: group_delete_def step_rewrite_group split: option.splits)

lemmas step_handlers = step_create step_profile step_set_groups step_set_role step_reset_password step_save_edit step_reset_mfa
  step_delete step_group_create step_group_rename step_group_delete step_add_member step_remove_member

lemma step_user_handler: "site_ok sv \<Longrightarrow> site_step sv (snd (user_handler rq env s sc sv))"
  by (cases rq) (simp_all add: step_handlers)

lemma extract_store:
  "snd (extract_session auth now cookies st) = st \<or> (\<exists>c. snd (extract_session auth now cookies st) = snd (session_validate now c st))"
  by (auto simp: extract_session_def split: option.splits prod.splits) (metis snd_conv)+

lemma extract_keeps: "am_sessions (snd (extract_session auth now cookies st)) j = Some e \<Longrightarrow> am_sessions st j = Some e"
  using extract_store [of auth now cookies st] validate_keeps [of now _ st j e] by metis

lemma extract_shrinks: "sessions_shrink None st (snd (extract_session auth now cookies st))"
  unfolding sessions_shrink_def by (meson extract_keeps)

lemma ok_fewer_sessions: "site_ok sv \<Longrightarrow> sessions_shrink None (sv_sessions sv) st \<Longrightarrow> site_ok (sv\<lparr>sv_sessions := st\<rparr>)"
  unfolding site_ok_def sessions_true_def sessions_shrink_def by (simp add: rows_of_def) blast

lemma ok_user_call: "site_ok sv \<Longrightarrow> site_ok (snd (user_call rq env cookies sv))"
proof -
  assume ok: "site_ok sv"
  obtain who st where x: "extract_session (sv_auth sv) (en_clock env) cookies (sv_sessions sv) = (who, st)" by fastforce
  have ok1: "site_ok (sv\<lparr>sv_sessions := st\<rparr>)"
    using ok_fewer_sessions [OF ok] extract_shrinks [of "sv_sessions sv" "sv_auth sv" "en_clock env" cookies] x by simp
  from site_step_ok [OF step_user_handler [OF ok1] ok1] ok1
  show ?thesis by (auto simp: user_call_def x Let_def split: sum.splits)
qed


lemma ok_new_session:
  "site_ok sv \<Longrightarrow> (\<And>a. actor = Some a \<Longrightarrow> role_of (rows_of sv) a r) \<Longrightarrow> site_ok (new_session env r actor sv)"
  by (auto simp: site_ok_def sessions_true_def new_session_def rows_of_def)

lemma new_session_fields [simp]: "rows_of (new_session env r actor sv) = rows_of sv" "sv_db (new_session env r actor sv) = sv_db sv"
  by (simp_all add: new_session_def rows_of_def)

lemma ok_limiter [simp]: "site_ok (sv\<lparr>sv_limiter := l\<rparr>) = site_ok sv"
  by (simp add: site_ok_def rows_of_def)

lemma ok_apps [simp]: "site_ok (sv\<lparr>sv_logout := o1, sv_apps := o2\<rparr>) = site_ok sv"
  by (simp add: site_ok_def rows_of_def)

lemma verified_row:
  "verify_login v d username password P = Some u \<Longrightarrow>
     \<exists>x \<in> set (pt_users P). u = row_from x \<and> us_username x = normalize_username username \<and> v password (us_hash x)"
  by (auto simp: verify_login_def Let_def split: option.splits if_splits dest: user_at_Some)

lemma verified_role: "portal_wf P \<Longrightarrow> verify_login v d username password P = Some u \<Longrightarrow> role_of (pt_users P) (ur_username u) (ur_role u)"
proof -
  assume wf: "portal_wf P" and v: "verify_login v d username password P = Some u"
  from verified_row [OF v] obtain x where x: "x \<in> set (pt_users P)" "u = row_from x" by blast
  with wf_role [OF wf x(1)] show ?thesis by (auto simp: role_of_def unwrap_or_def)
qed

lemma ok_login: "site_ok sv \<Longrightarrow> site_ok (snd (snd (login_submit env pc h u p n sv)))"
proof -
  assume ok: "site_ok sv"
  have "site_ok (new_session env (ur_role v) (Some (ur_username v)) (sv\<lparr>sv_limiter := l\<rparr>))"
    if "sv_db sv = Some P" "verify_login (en_verify env) (en_dummy env) u p P = Some v" for P v l
    using ok that by (intro ok_new_session) (auto simp: site_ok_def rows_of_def intro: verified_role)
  with ok show ?thesis by (auto simp: login_submit_def Let_def split: option.splits sum.splits prod.splits bool.splits)
qed

lemma ok_token: "site_ok sv \<Longrightarrow> site_ok (snd (snd (token_login env pc h t n sv)))"
  by (auto simp: token_login_def Let_def intro!: ok_new_session split: option.splits prod.splits bool.splits)

lemma ok_remove: "site_ok sv \<Longrightarrow> site_ok (sv\<lparr>sv_sessions := session_remove c (sv_sessions sv)\<rparr>)"
  by (erule ok_fewer_sessions) (simp add: sessions_shrink_def)

lemma ok_setup: "site_ok sv \<Longrightarrow> site_ok (snd (snd (setup_submit env pc h cookie u p c sv)))"
proof -
  assume ok: "site_ok sv"
  let ?v = "normalize_username u"
  have "site_ok (new_session env Admin (Some ?v)
      (case cookie of Some ck \<Rightarrow> store_portal P1 sv\<lparr>sv_sessions := session_remove ck (sv_sessions (store_portal P1 sv))\<rparr> | None \<Rightarrow> store_portal P1 sv))"
    if db: "sv_db sv = Some P" and P1: "users_create new now hashed ?v Admin False [] (Some ''token'') P = Inr P1" for P P1 new now hashed
  proof (rule ok_new_session)
    have "site_step sv (store_portal P1 sv)"
      using db portal_step.create [OF P1] kept_create [OF P1] by (auto intro: commit_step [where u = None])
    from site_step_ok [OF this ok] show "site_ok (case cookie of Some ck \<Rightarrow> store_portal P1 sv\<lparr>sv_sessions := session_remove ck (sv_sessions (store_portal P1 sv))\<rparr>
        | None \<Rightarrow> store_portal P1 sv)" using ok_remove [of "store_portal P1 sv"] by (auto split: option.split)
    show "role_of (rows_of (case cookie of Some ck \<Rightarrow> store_portal P1 sv\<lparr>sv_sessions := session_remove ck (sv_sessions (store_portal P1 sv))\<rparr>
        | None \<Rightarrow> store_portal P1 sv)) a Admin" if "Some ?v = Some a" for a
      using create_rows [OF P1] that by (auto simp: role_of_def new_user_def split: option.split)
  qed
  with ok show ?thesis by (auto simp: setup_submit_def Let_def transact_def split: option.splits sum.splits if_splits)
qed

lemma extracted:
  "extract_session auth now cookies st = (Inr s, st') \<Longrightarrow>
     \<exists>c e. cookies ''ruscker_admin_session'' = Some c \<and> am_sessions st c = Some e \<and> si_role s = si_role e \<and> si_actor s = si_actor e"
  by (auto simp: extract_session_def split: if_splits option.splits prod.splits dest!: validate_live)

lemma ok_password:
  assumes ok: "site_ok sv" and s: "\<And>a. si_actor s = Some a \<Longrightarrow> role_of (rows_of sv) a (si_role s)"
  shows "site_ok (snd (snd (password_submit env pc h s c p k n sv)))"
proof -
  have "site_ok (new_session env (si_role s) (Some a) (kick a (store_portal P1 sv)))"
    if db: "sv_db sv = Some P" and P1: "users_set_password now hashed a mc actor P = Inr P1" and a: "si_actor s = Some a" for P P1 a now hashed mc actor
  proof (rule ok_new_session)
    have "site_step sv (kick a (store_portal P1 sv))"
      using db portal_step.password [OF P1] kept_password [OF P1] by (intro commit_step [where u = "Some a"]) auto
    from site_step_ok [OF this ok] show "site_ok (kick a (store_portal P1 sv))" .
    show "role_of (rows_of (kick a (store_portal P1 sv))) b (si_role s)" if "Some a = Some b" for b
      using s [OF a] kept_password [OF P1, of None] that db by (auto simp: roles_kept_def rows_of_def)
  qed
  with ok show ?thesis by (auto simp: password_submit_def Let_def transact_def split: option.splits sum.splits if_splits)
qed

lemma ok_logout: "site_ok sv \<Longrightarrow> site_ok (snd (snd (logout env cookie sv)))"
proof -
  assume ok: "site_ok sv"
  have "site_ok (sv\<lparr>sv_sessions := st\<rparr>)" if "session_validate now i (sv_sessions sv) = (w, st)" for now i w st
    using ok_fewer_sessions [OF ok] validate_keeps [of now i "sv_sessions sv"] that by (auto simp: sessions_shrink_def)
  then show ?thesis using ok
    by (auto simp: logout_def Let_def ok_remove split: option.splits prod.splits intro!: ok_remove)
qed

lemma ok_extract:
  "site_ok sv \<Longrightarrow> extract_session (sv_auth sv) now cookies (sv_sessions sv) = (who, st) \<Longrightarrow> site_ok (sv\<lparr>sv_sessions := st\<rparr>)"
  using ok_fewer_sessions [of sv st] extract_shrinks [of "sv_sessions sv" "sv_auth sv" now cookies] by simp

lemma extracted_role:
  "site_ok sv \<Longrightarrow> extract_session (sv_auth sv) now cookies (sv_sessions sv) = (Inr s, st) \<Longrightarrow> si_actor s = Some a \<Longrightarrow>
     role_of (rows_of sv) a (si_role s)"
  by (drule extracted) (auto simp: site_ok_def sessions_true_def)

lemma ok_site_call: "site_ok sv \<Longrightarrow> site_ok (snd (snd (site_call rq env pc h cookies sv)))"
proof -
  assume ok: "site_ok sv"
  obtain who st where x: "extract_session (sv_auth sv) (en_clock env) cookies (sv_sessions sv) = (who, st)" by fastforce
  note ok1 = ok_extract [OF ok x]
  show ?thesis
  proof (cases rq)
    case (Users r)
    then show ?thesis using ok_user_call [OF ok, of r env cookies] by (cases "user_call r env cookies sv") simp
  next
    case (Password c p k n)
    then show ?thesis using ok1 x extracted_role [OF ok, of "en_clock env" cookies]
      by (auto simp: with_session_def split: sum.splits intro!: ok_password)
  next
    case (Setup u p c)
    then show ?thesis using ok1 x by (auto simp: with_session_def split: sum.splits intro!: ok_setup)
  qed (use ok ok1 x ok_login ok_token ok_logout in auto)
qed

text \<open>A run of the panel: requests one after the other, each with its own surroundings and cookies.\<close>

type_synonym visit = "site_request \<times> request_env \<times> headers \<times> (string \<rightharpoonup> string)"

definition site_run :: "portal_config \<Rightarrow> visit list \<Rightarrow> site \<Rightarrow> site" where
  "site_run pc visits sv = fold (\<lambda>(rq, env, h, cookies) sv. snd (snd (site_call rq env pc h cookies sv))) visits sv"

lemma ok_site_run: "site_ok sv \<Longrightarrow> site_ok (site_run pc visits sv)"
proof (induction visits arbitrary: sv)
  case (Cons v visits)
  then show ?case by (cases v) (simp add: site_run_def ok_site_call)
qed (simp add: site_run_def)

text \<open>
  C7: A session never outlives the rights it was opened with. From a well-formed database without sessions, after any
  requests of anybody, with any failing queries: every session that names an account has the role that account has
  in the database now. A promotion, a demotion or a deletion therefore ends every session of the account.
\<close>

theorem sessions_follow_roles:
  assumes "sv_db sv = Some P" and "portal_wf P" and "names_normal (pt_users P)" and "am_sessions (sv_sessions sv) = Map.empty"
    and "am_sessions (sv_sessions (site_run pc visits sv)) i = Some e" and "si_actor e = Some a"
  shows "\<exists>y \<in> set (rows_of (site_run pc visits sv)). us_username y = a \<and> us_role y = role_as_str (si_role e)"
proof -
  have "site_ok sv" using assms(1-4) by (simp add: site_ok_def sessions_true_def rows_of_def)
  from ok_site_run [OF this] assms(5,6) show ?thesis by (auto simp: site_ok_def sessions_true_def role_of_def)
qed

lemma demo_login:
  assumes "sv = demo_site\<lparr>sv_sessions := sessions_default\<rparr>"
  shows "am_sessions (sv_sessions (site_run \<lparr>pc_server = server, pc_base = [], pc_encode = id\<rparr> [(Login ''bob'' ''h'' None, demo_env, \<lambda>_. [], Map.empty)] sv))
    ''fresh'' = Some \<lparr>si_role = Editor, si_actor = Some ''bob'', as_expiry = am_ttl sessions_default\<rparr>"
proof -
  have "verify_login (=) [] ''bob'' ''h'' two_teams = Some (row_from (new_user ''2'' 0 ''bob'' ''h'' Editor False [''ops''] None))"
    by (simp add: verify_login_def user_at_def two_teams_def Let_def new_user_def)
  then show ?thesis
    by (simp add: assms site_run_def login_submit_def demo_site_def demo_env_def is_configured_def login_allow_def login_limiter_default_def prune_def Let_def
        queried_def row_from_def new_user_def role_as_str_def role_parse_strs unwrap_or_def new_session_def)
qed

lemma sessions_follow_roles_witness:
  "\<exists>y \<in> set (rows_of (site_run \<lparr>pc_server = undefined, pc_base = [], pc_encode = id\<rparr>
     [(Login ''bob'' ''h'' None, demo_env, \<lambda>_. [], Map.empty)] (demo_site\<lparr>sv_sessions := sessions_default\<rparr>))).
     us_username y = ''bob'' \<and> us_role y = role_as_str Editor"
proof -
  have "names_normal (pt_users two_teams)" unfolding names_normal_def two_teams_def new_user_def by simp
  from sessions_follow_roles [OF _ two_teams_wf this _ demo_login [OF refl]]
  show ?thesis by (simp add: demo_site_def sessions_default_def sessions_new_def)
qed

lemma step_sessions: "site_step sv sv' \<Longrightarrow> am_sessions (sv_sessions sv') i = Some e \<Longrightarrow> am_sessions (sv_sessions sv) i = Some e"
  by (auto simp: site_step_def sessions_shrink_def)

lemma save_edit_sessions:
  "am_sessions (sv_sessions (snd (save_edit env sc raw form sv))) i = Some e \<Longrightarrow> am_sessions (sv_sessions sv) i = Some e"
  by (auto simp: save_edit_def Let_def revoke_by_actor_gone split: option.splits sum.splits if_splits)

lemma handler_sessions:
  "am_sessions (sv_sessions (snd (user_handler rq env s sc sv))) i = Some e \<Longrightarrow> am_sessions (sv_sessions sv) i = Some e"
  by (cases rq) (auto dest: step_sessions [OF step_create] step_sessions [OF step_profile] step_sessions [OF step_set_groups]
      step_sessions [OF step_set_role] step_sessions [OF step_reset_password] step_sessions [OF step_reset_mfa] step_sessions [OF step_delete]
      step_sessions [OF step_group_create] step_sessions [OF step_group_rename] step_sessions [OF step_group_delete]
      step_sessions [OF step_add_member] step_sessions [OF step_remove_member] save_edit_sessions)

lemma call_sessions:
  "am_sessions (sv_sessions (snd (user_call rq env cookies sv))) i = Some e \<Longrightarrow> am_sessions (sv_sessions sv) i = Some e"
  using extract_keeps [of "sv_auth sv" "en_clock env" cookies "sv_sessions sv" i e]
  by (auto simp: user_call_def Let_def split: prod.splits sum.splits dest: handler_sessions)

lemma logout_sessions:
  "am_sessions (sv_sessions (snd (snd (logout env cookie sv)))) i = Some e \<Longrightarrow> am_sessions (sv_sessions sv) i = Some e"
proof (cases cookie)
  case (Some c)
  obtain w st where v: "session_validate (en_clock env) c (sv_sessions sv) = (w, st)" by fastforce
  assume "am_sessions (sv_sessions (snd (snd (logout env cookie sv)))) i = Some e"
  with Some v have "am_sessions st i = Some e" by (auto simp: logout_def Let_def split: option.splits if_splits)
  with validate_keeps [of "en_clock env" c "sv_sessions sv" i e] v show ?thesis by simp
qed (simp add: logout_def)



end
