(* ===== verification/Spec2Isabelle.thy ===== *)
theory Spec2Isabelle
  imports Session_Store Rate_Limiter Config_Validate Alert_Sink Access_Counter Safe_Redirect
    Sticky_Cookie Multi_Host Scaler_Promises Spawn_Lock Proxy_Ledger Admin_Login
begin

text \<open>
  Verification library of Ruscker.
\<close>

end
